(* ===== verification/Prelude.thy ===== *)
theory Prelude
  imports
    Main
    "HOL-Library.Word"
    "HOL-Library.List_Lexorder"
    "HOL-Library.Char_ord"
begin

text \<open>
  Shared vocabulary of the development: the machine types of the C++ sources, decimal
  printing (\<open>std::to_string\<close>), ordered dictionaries (\<open>std::map\<close>), and the generic list
  lemmas the components use.  Nothing here models a function of the repository; these are the
  parts of the C++ language and its standard library the sources rely on.
\<close>

section \<open>Machine types\<close>

type_synonym byte = "8 word"
type_synonym bytes = "byte list"
type_synonym u32 = "32 word"
type_synonym u64 = "64 word"

text \<open>
  A C string or \<open>std::string\<close> is a \<^typ>\<open>string\<close>; raw buffers are \<^typ>\<open>bytes\<close>.
  The two casts between \<open>char*\<close> and \<open>uint8_t*\<close> keep the bits.
\<close>

definition byte_of_char :: "char \<Rightarrow> byte" where
  "byte_of_char c = of_nat (of_char c)"

definition char_of_byte :: "byte \<Rightarrow> char" where
  "char_of_byte b = char_of (unat b)"

definition bytes_of_string :: "string \<Rightarrow> bytes" where
  "bytes_of_string s = map byte_of_char s"

definition string_of_bytes :: "bytes \<Rightarrow> string" where
  "string_of_bytes bs = map char_of_byte bs"

text \<open>
  \<open>long long\<close> and \<open>long\<close> values are kept in \<^typ>\<open>int\<close>; the conversion to a 32-bit
  \<open>int\<close> that a narrowing parameter performs is written out.
\<close>

definition cast_int :: "int \<Rightarrow> int" where
  "cast_int x = (x + 2 ^ 31) mod 2 ^ 32 - 2 ^ 31"

text \<open>Lengths narrowed to 32 bits, and a signed number used as a \<open>size_t\<close>.\<close>

definition uint32 :: "nat \<Rightarrow> nat" where
  "uint32 n = n mod 2 ^ 32"

definition size_of_int :: "int \<Rightarrow> nat" where
  "size_of_int i = nat (i mod 2 ^ 64)"

section \<open>Collections of the development\<close>

named_theorems omap_simps "rewrite rules of ordered dictionaries"
named_theorems json_simps "rewrite rules of JSON access"
named_theorems wl_simps "field laws of the workload state"
named_theorems frame_simps "fields an operation leaves alone"

section \<open>Bytes and characters\<close>

lemma unat_byte_less [simp]: "unat (b :: byte) < 256"
  by (rule order_less_le_trans [OF unsigned_less]) simp

lemma of_char_less_256 [simp]: "of_char c < (256 :: nat)"
  by (cases c) simp

lemma char_of_byte_of_char [simp]: "char_of_byte (byte_of_char c) = c"
  by (simp add: char_of_byte_def byte_of_char_def unat_of_nat take_bit_eq_mod)

lemma byte_of_char_of_byte [simp]: "byte_of_char (char_of_byte b) = b"
  by (simp add: char_of_byte_def byte_of_char_def take_bit_eq_mod)

lemma string_of_bytes_inverse [simp]: "string_of_bytes (bytes_of_string s) = s"
  by (simp add: string_of_bytes_def bytes_of_string_def o_def)

lemma bytes_of_string_inverse [simp]: "bytes_of_string (string_of_bytes b) = b"
  by (simp add: string_of_bytes_def bytes_of_string_def o_def)

lemma length_bytes_of_string [simp]: "length (bytes_of_string s) = length s"
  by (simp add: bytes_of_string_def)

lemma cast_int_id: "- (2 ^ 31) \<le> x \<Longrightarrow> x < 2 ^ 31 \<Longrightarrow> cast_int x = x"
  by (simp add: cast_int_def)

lemma cast_int_range: "- (2 ^ 31) \<le> cast_int x \<and> cast_int x < 2 ^ 31"
proof -
  have "0 \<le> (x + 2 ^ 31) mod 2 ^ 32 \<and> (x + 2 ^ 31) mod 2 ^ 32 < (2 ^ 32 :: int)"
    by simp
  then show ?thesis unfolding cast_int_def by simp
qed

lemma uint32_id: "n < 2 ^ 32 \<Longrightarrow> uint32 n = n"
  by (simp add: uint32_def)

lemma size_of_int_nat: "n < 2 ^ 64 \<Longrightarrow> size_of_int (int n) = n"
  by (simp add: size_of_int_def nat_mod_as_int [symmetric] flip: of_nat_mod)

section \<open>Decimal printing\<close>

definition digit_char :: "nat \<Rightarrow> char" where
  "digit_char d = char_of (48 + d)"

fun to_string :: "nat \<Rightarrow> string" where
  "to_string n = (if n < 10 then [digit_char n]
     else to_string (n div 10) @ [digit_char (n mod 10)])"

declare to_string.simps [simp del]

definition to_string_int :: "int \<Rightarrow> string" where
  "to_string_int i = (if i < 0 then CHR ''-'' # to_string (nat (- i)) else to_string (nat i))"

definition digit_value :: "char \<Rightarrow> nat" where
  "digit_value c = of_char c - 48"

definition decimal_value :: "string \<Rightarrow> nat" where
  "decimal_value s = foldl (\<lambda>a c. 10 * a + digit_value c) 0 s"

lemma digit_value_digit_char: "d < 10 \<Longrightarrow> digit_value (digit_char d) = d"
  by (simp add: digit_value_def digit_char_def)

lemma to_string_not_Nil [simp]: "to_string n \<noteq> []"
  by (subst to_string.simps) simp

lemma decimal_value_to_string [simp]: "decimal_value (to_string n) = n"
proof (induction n rule: to_string.induct)
  case (1 n)
  then show ?case
    by (cases "n < 10")
      (auto simp: to_string.simps [of n] decimal_value_def digit_value_digit_char)
qed

lemma inj_to_string: "inj to_string"
  by (metis decimal_value_to_string injI)

lemma to_string_eq_iff [simp]: "to_string m = to_string n \<longleftrightarrow> m = n"
  using inj_to_string by (auto dest: injD)

lemma length_to_string_le: "n < 10 ^ k \<Longrightarrow> 0 < k \<Longrightarrow> length (to_string n) \<le> k"
proof (induction n arbitrary: k rule: to_string.induct)
  case (1 n)
  show ?case
  proof (cases "n < 10")
    case True
    with 1 show ?thesis by (simp add: to_string.simps [of n])
  next
    case False
    obtain j where j: "k = Suc j" using 1 by (cases k) auto
    with 1 False have "0 < j" by (cases j) auto
    moreover have "n div 10 < 10 ^ j" using 1 j by (simp add: less_mult_imp_div_less mult.commute)
    ultimately have "length (to_string (n div 10)) \<le> j" using 1 False by blast
    with False j show ?thesis by (simp add: to_string.simps [of n])
  qed
qed

definition is_digit :: "char \<Rightarrow> bool" where
  "is_digit c \<longleftrightarrow> 48 \<le> (of_char c :: nat) \<and> of_char c \<le> (57 :: nat)"

lemma is_digit_digit_char [simp]: "d < 10 \<Longrightarrow> is_digit (digit_char d)"
  by (simp add: is_digit_def digit_char_def)

lemma to_string_digits: "list_all is_digit (to_string n)"
proof (induction n rule: to_string.induct)
  case (1 n)
  then show ?case by (cases "n < 10") (auto simp: to_string.simps [of n])
qed

section \<open>Ordered dictionaries\<close>

text \<open>
  A \<open>std::map\<close> is its sequence of entries in increasing key order.  Reading is
  \<^const>\<open>map_of\<close>; \<open>m[k] = v\<close> is \<open>omap_upd k v m\<close>.
\<close>

type_synonym ('k, 'v) omap = "('k \<times> 'v) list"

definition omap_ok :: "('k :: linorder, 'v) omap \<Rightarrow> bool" where
  "omap_ok m \<longleftrightarrow> sorted_wrt (<) (map fst m)"

primrec omap_upd :: "'k :: linorder \<Rightarrow> 'v \<Rightarrow> ('k, 'v) omap \<Rightarrow> ('k, 'v) omap" where
  "omap_upd k v [] = [(k, v)]"
| "omap_upd k v (e # m) =
     (if fst e < k then e # omap_upd k v m
      else if k < fst e then (k, v) # e # m
      else (k, v) # m)"

lemma set_omap_upd: "set (map fst (omap_upd k v m)) = insert k (set (map fst m))"
  by (induction m) auto

lemma omap_ok_upd [omap_simps]: "omap_ok m \<Longrightarrow> omap_ok (omap_upd k v m)"
  unfolding omap_ok_def
proof (induction m)
  case (Cons e m)
  then show ?case
    using set_omap_upd [of k v m] by (auto simp: less_trans)
qed simp

lemma map_of_omap_upd [omap_simps]:
  "omap_ok m \<Longrightarrow> map_of (omap_upd k v m) = (map_of m)(k \<mapsto> v)"
  unfolding omap_ok_def
proof (induction m)
  case (Cons e m)
  then show ?case by (cases e) (auto simp: fun_eq_iff)
qed simp

lemma omap_ok_Nil [omap_simps]: "omap_ok []"
  by (simp add: omap_ok_def)

lemma omap_ok_distinct: "omap_ok m \<Longrightarrow> distinct (map fst m)"
  unfolding omap_ok_def by (rule strict_sorted_iff [THEN iffD1, THEN conjunct2])

lemma omap_ok_tl: "omap_ok (e # m) \<Longrightarrow> omap_ok m"
  by (simp add: omap_ok_def)

text \<open>
  What the clients of a dictionary rely on, whatever its representation: reading back what
  was stored, and the invariant every store keeps.
\<close>

locale dictionary =
  fixes empty :: "'m"
    and upd :: "'k \<Rightarrow> 'v \<Rightarrow> 'm \<Rightarrow> 'm"
    and get :: "'m \<Rightarrow> 'k \<Rightarrow> 'v option"
    and ok :: "'m \<Rightarrow> bool"
  assumes get_empty: "get empty = Map.empty"
    and get_upd: "ok m \<Longrightarrow> get (upd k v m) = (get m)(k \<mapsto> v)"
    and ok_empty: "ok empty"
    and ok_upd: "ok m \<Longrightarrow> ok (upd k v m)"
begin

lemma ok_fold: "ok m \<Longrightarrow> ok (fold (\<lambda>(k, v). upd k v) kvs m)"
  by (induction kvs arbitrary: m) (auto simp: ok_upd)

lemma get_fold: "ok m \<Longrightarrow> get (fold (\<lambda>(k, v). upd k v) kvs m) = get m ++ map_of (rev kvs)"
  by (induction kvs arbitrary: m) (auto simp: ok_upd get_upd map_add_assoc)

lemma get_build: "get (fold (\<lambda>(k, v). upd k v) kvs empty) = map_of (rev kvs)"
  by (simp add: get_fold ok_empty get_empty)

lemma get_upd_twice: "ok m \<Longrightarrow> get (upd k v (upd k w m)) = get (upd k v m)"
  by (simp add: get_upd ok_upd)

lemma get_upd_commute: "ok m \<Longrightarrow> k \<noteq> l \<Longrightarrow> get (upd k v (upd l w m)) = get (upd l w (upd k v m))"
  by (simp add: get_upd ok_upd fun_upd_twist)

end

interpretation std_map: dictionary "[]" omap_upd map_of omap_ok
  by unfold_locales (auto simp: omap_simps)

text \<open>Two ordered dictionaries with the same contents are the same sequence of entries.\<close>

lemma omap_ext:
  assumes "omap_ok m" and "omap_ok n" and "map_of m = map_of n"
  shows "m = n"
proof -
  have d: "distinct (map fst m)" "distinct (map fst n)" and s: "sorted (map fst m)" "sorted (map fst n)"
    using assms(1,2) by (auto simp: omap_ok_def strict_sorted_iff)
  have "set m = set n" using assms(3) d by (simp add: map_of_inject_set)
  moreover have "inj_on fst (set m)" using d by (simp add: distinct_map)
  ultimately show ?thesis using d s by (intro map_sorted_distinct_set_unique [of fst]) auto
qed

lemma omap_sum_upd:
  assumes "omap_ok m"
  shows "sum_list (map (\<lambda>e. g (snd e)) (omap_upd k v m)) + (case map_of m k of None \<Rightarrow> 0 | Some w \<Rightarrow> g w)
    = sum_list (map (\<lambda>e. g (snd e)) m) + (g v :: nat)"
  using assms
proof (induction m)
  case (Cons e m)
  have tl: "omap_ok m" using Cons.prems by (rule omap_ok_tl)
  have gt: "\<forall>x \<in> set m. fst e < fst x" using Cons.prems by (simp add: omap_ok_def)
  have none: "map_of m k = None" if "k \<le> fst e"
    using gt that by (force simp: map_of_eq_None_iff)
  show ?case using Cons.IH [OF tl] none by (cases e) (auto split: if_splits)
qed simp

text \<open>
  Dictionaries of lists: the list under a key, which is empty for a key that is missing, and the
  number of elements of all lists together.
\<close>

definition omap_list :: "('k :: linorder, 'v list) omap \<Rightarrow> 'k \<Rightarrow> 'v list" where
  "omap_list m k = (case map_of m k of Some l \<Rightarrow> l | None \<Rightarrow> [])"

definition omap_total :: "('k :: linorder, 'v list) omap \<Rightarrow> nat" where
  "omap_total m = sum_list (map (\<lambda>e. length (snd e)) m)"

lemma omap_list_upd [omap_simps]:
  "omap_ok m \<Longrightarrow> omap_list (omap_upd k l m) k' = (if k' = k then l else omap_list m k')"
  by (simp add: omap_list_def omap_simps)

lemma omap_total_upd:
  "omap_ok m \<Longrightarrow> omap_total (omap_upd k l m) + length (omap_list m k) = omap_total m + length l"
  using omap_sum_upd [of m length k l]
  by (auto simp: omap_total_def omap_list_def split: option.splits)

lemma omap_list_in: "omap_ok m \<Longrightarrow> e \<in> set m \<Longrightarrow> omap_list m (fst e) = snd e"
  by (cases e) (simp add: omap_list_def omap_ok_distinct)

lemma omap_list_outside: "k \<notin> fst ` set m \<Longrightarrow> omap_list m k = []"
  by (force simp: omap_list_def dest: map_of_SomeD split: option.splits)

lemma omap_total_keys:
  assumes "omap_ok m"
  shows "omap_total m = (\<Sum>k \<in> fst ` set m. length (omap_list m k))"
proof -
  have "map (\<lambda>e. length (snd e)) m = map (\<lambda>k. length (omap_list m k)) (map fst m)"
    by (simp add: omap_list_in [OF assms])
  then have "omap_total m = sum_list (map (\<lambda>k. length (omap_list m k)) (map fst m))"
    by (simp only: omap_total_def)
  also have "\<dots> = (\<Sum>k \<in> set (map fst m). length (omap_list m k))"
    by (rule sum_list_distinct_conv_sum_set [OF omap_ok_distinct [OF assms]])
  finally show ?thesis by simp
qed

text \<open>A dictionary that has at least as much under every key of another has at least as much in all.\<close>

lemma omap_total_mono:
  assumes "omap_ok m" and "omap_ok n" and "\<And>e. e \<in> set m \<Longrightarrow> length (snd e) \<le> length (omap_list n (fst e))"
  shows "omap_total m \<le> omap_total n"
proof -
  have "length (omap_list m k) \<le> length (omap_list n k)" if "k \<in> fst ` set m" for k
    using that assms(3) by (auto simp: omap_list_in [OF assms(1), of "(_, _)", simplified])
  then have "omap_total m \<le> (\<Sum>k \<in> fst ` set m. length (omap_list n k))"
    unfolding omap_total_keys [OF assms(1)] by (intro sum_mono) auto
  also have "\<dots> \<le> (\<Sum>k \<in> fst ` set m \<union> fst ` set n. length (omap_list n k))"
    by (intro sum_mono2) auto
  also have "\<dots> = (\<Sum>k \<in> fst ` set n. length (omap_list n k))"
    by (rule sum.mono_neutral_right) (auto simp: omap_list_outside)
  also have "\<dots> = omap_total n" by (rule omap_total_keys [OF assms(2), symmetric])
  finally show ?thesis .
qed

section \<open>Lists updated by index\<close>

definition erase_at :: "nat \<Rightarrow> 'a list \<Rightarrow> 'a list" where
  "erase_at i xs = take i xs @ drop (Suc i) xs"

lemma length_erase_at [simp]: "i < length xs \<Longrightarrow> length (erase_at i xs) = length xs - 1"
  by (simp add: erase_at_def)

lemma set_erase_at: "set (erase_at i xs) \<subseteq> set xs"
  by (auto simp: erase_at_def dest: in_set_takeD in_set_dropD)

lemma nth_erase_at: "j < i \<Longrightarrow> i < length xs \<Longrightarrow> erase_at i xs ! j = xs ! j"
  by (simp add: erase_at_def nth_append)

text \<open>Erasing the largest of some positions leaves the same elements to keep.\<close>

lemma nths_cong: "(\<And>j. j < length xs \<Longrightarrow> j \<in> A \<longleftrightarrow> j \<in> B) \<Longrightarrow> nths xs A = nths xs B"
  unfolding nths_def by (rule arg_cong [where f = "map fst"]) (auto intro!: filter_cong dest!: set_zip_rightD)

lemma nths_erase_at:
  assumes "i < length xs" and "\<forall>j \<in> A. j < i"
  shows "nths (erase_at i xs) (- A) = nths xs (- insert i A)"
proof -
  have split: "xs = take i xs @ [xs ! i] @ drop (Suc i) xs" using id_take_nth_drop [OF assms(1)] by simp
  have len: "length (take i xs) = i" using assms(1) by simp
  have rest: "nths (drop (Suc i) xs) {j. j + i \<in> - A} = drop (Suc i) xs"
    using assms(2) by (intro nths_all) auto
  have rest': "nths (drop (Suc i) xs) {j. j + Suc i \<in> - insert i A} = drop (Suc i) xs"
    using assms(2) by (intro nths_all) auto
  have front: "nths (take i xs) (- insert i A) = nths (take i xs) (- A)"
    by (rule nths_cong) auto
  have "nths xs (- insert i A) = nths (take i xs) (- insert i A) @ nths ([xs ! i] @ drop (Suc i) xs) {j. j + i \<in> - insert i A}"
    by (subst split) (simp only: nths_append len)
  also have "nths ([xs ! i] @ drop (Suc i) xs) {j. j + i \<in> - insert i A} = drop (Suc i) xs"
    using rest' by (simp add: nths_Cons)
  finally show ?thesis using rest front len by (simp add: erase_at_def nths_append)
qed

section \<open>Ordered sets\<close>

text \<open>A \<open>std::set\<close> is the increasing list of its elements.\<close>

definition oset_insert :: "'a :: linorder \<Rightarrow> 'a list \<Rightarrow> 'a list" where
  "oset_insert x xs = (if x \<in> set xs then xs else insort x xs)"

definition oset_erase :: "'a \<Rightarrow> 'a list \<Rightarrow> 'a list" where
  "oset_erase x xs = filter (\<lambda>y. y \<noteq> x) xs"

definition oset_ok :: "'a :: linorder list \<Rightarrow> bool" where
  "oset_ok xs \<longleftrightarrow> sorted_wrt (<) xs"

lemma set_oset_insert [simp]: "set (oset_insert x xs) = insert x (set xs)"
  by (auto simp: oset_insert_def set_insort_key)

lemma set_oset_erase [simp]: "set (oset_erase x xs) = set xs - {x}"
  by (auto simp: oset_erase_def)

lemma oset_ok_insert [simp]: "oset_ok xs \<Longrightarrow> oset_ok (oset_insert x xs)"
  by (auto simp: oset_ok_def oset_insert_def strict_sorted_iff distinct_insort sorted_insort)

lemma oset_ok_erase [simp]: "oset_ok xs \<Longrightarrow> oset_ok (oset_erase x xs)"
  by (simp add: oset_ok_def oset_erase_def sorted_wrt_filter)

lemma oset_ok_Nil [simp]: "oset_ok []"
  by (simp add: oset_ok_def)

lemma oset_ok_distinct: "oset_ok xs \<Longrightarrow> distinct xs"
  by (simp add: oset_ok_def strict_sorted_iff)

lemma length_oset_insert: "length (oset_insert x xs) = (if x \<in> set xs then length xs else Suc (length xs))"
  by (simp add: oset_insert_def)

end
