(* ===== verification/Parameters.thy ===== *)
theory Parameters
  imports Prelude
begin

text \<open>
  The status codes of \<open>src/enclave/include/CrustStatus.h\<close> and the constants of
  \<open>src/enclave/include/Parameter.h\<close>, \<open>EUtils.h\<close> and \<open>EJson.h\<close>, under the names the
  sources give them.
\<close>

section \<open>Status codes\<close>

text \<open>
  The enumerators of \<open>crust_status_t\<close> are numbers built by the macro
  \<open>CRUST_MK_ERROR\<close>; two of them are equal exactly when their codes are.
\<close>

datatype crust_status = CRUST_MK_ERROR nat

abbreviation (input) CRUST_SUCCESS :: crust_status where
  "CRUST_SUCCESS \<equiv> CRUST_MK_ERROR 0"
abbreviation (input) CRUST_BLOCK_HEIGHT_EXPIRED :: crust_status where
  "CRUST_BLOCK_HEIGHT_EXPIRED \<equiv> CRUST_MK_ERROR 0x2000"
abbreviation (input) CRUST_FIRST_WORK_REPORT_AFTER_REPORT :: crust_status where
  "CRUST_FIRST_WORK_REPORT_AFTER_REPORT \<equiv> CRUST_MK_ERROR 0x2001"
abbreviation (input) CRUST_WORK_REPORT_NOT_VALIDATED :: crust_status where
  "CRUST_WORK_REPORT_NOT_VALIDATED \<equiv> CRUST_MK_ERROR 0x2002"
abbreviation (input) CRUST_NO_KARST :: crust_status where
  "CRUST_NO_KARST \<equiv> CRUST_MK_ERROR 0x2003"
abbreviation (input) CRUST_MALLOC_FAILED :: crust_status where
  "CRUST_MALLOC_FAILED \<equiv> CRUST_MK_ERROR 0x4000"
abbreviation (input) CRUST_SEAL_DATA_FAILED :: crust_status where
  "CRUST_SEAL_DATA_FAILED \<equiv> CRUST_MK_ERROR 0x4001"
abbreviation (input) CRUST_UNSEAL_DATA_FAILED :: crust_status where
  "CRUST_UNSEAL_DATA_FAILED \<equiv> CRUST_MK_ERROR 0x4002"
abbreviation (input) CRUST_STORE_DATA_TO_FILE_FAILED :: crust_status where
  "CRUST_STORE_DATA_TO_FILE_FAILED \<equiv> CRUST_MK_ERROR 0x4003"
abbreviation (input) CRUST_GET_DATA_FROM_FILE_FAILED :: crust_status where
  "CRUST_GET_DATA_FROM_FILE_FAILED \<equiv> CRUST_MK_ERROR 0x4004"
abbreviation (input) CRUST_BAD_SEAL_DATA :: crust_status where
  "CRUST_BAD_SEAL_DATA \<equiv> CRUST_MK_ERROR 0x4005"
abbreviation (input) CRUST_SGX_FAILED :: crust_status where
  "CRUST_SGX_FAILED \<equiv> CRUST_MK_ERROR 0x4006"
abbreviation (input) CRUST_DOUBLE_SET_VALUE :: crust_status where
  "CRUST_DOUBLE_SET_VALUE \<equiv> CRUST_MK_ERROR 0x4007"
abbreviation (input) CRUST_NOT_EQUAL :: crust_status where
  "CRUST_NOT_EQUAL \<equiv> CRUST_MK_ERROR 0x4008"
abbreviation (input) CRUST_SGX_SIGN_FAILED :: crust_status where
  "CRUST_SGX_SIGN_FAILED \<equiv> CRUST_MK_ERROR 0x4009"
abbreviation (input) CRUST_SGX_VERIFY_SIG_FAILED :: crust_status where
  "CRUST_SGX_VERIFY_SIG_FAILED \<equiv> CRUST_MK_ERROR 0x4010"
abbreviation (input) CRUST_UNEXPECTED_ERROR :: crust_status where
  "CRUST_UNEXPECTED_ERROR \<equiv> CRUST_MK_ERROR 0x4011"
abbreviation (input) CRUST_INVALID_MERKLETREE :: crust_status where
  "CRUST_INVALID_MERKLETREE \<equiv> CRUST_MK_ERROR 0x4012"
abbreviation (input) CRUST_NOTFOUND_MERKLETREE :: crust_status where
  "CRUST_NOTFOUND_MERKLETREE \<equiv> CRUST_MK_ERROR 0x4013"
abbreviation (input) CRUST_INVALID_SEALED_DATA :: crust_status where
  "CRUST_INVALID_SEALED_DATA \<equiv> CRUST_MK_ERROR 0x4014"
abbreviation (input) CRUST_VERIFY_MEANINGFUL_FAILED :: crust_status where
  "CRUST_VERIFY_MEANINGFUL_FAILED \<equiv> CRUST_MK_ERROR 0x4015"
abbreviation (input) CRUST_GET_FILE_BLOCK_FAILED :: crust_status where
  "CRUST_GET_FILE_BLOCK_FAILED \<equiv> CRUST_MK_ERROR 0x4016"
abbreviation (input) CRUST_WRONG_FILE_BLOCK :: crust_status where
  "CRUST_WRONG_FILE_BLOCK \<equiv> CRUST_MK_ERROR 0x4017"
abbreviation (input) CRUST_SEAL_NOTCOMPLETE :: crust_status where
  "CRUST_SEAL_NOTCOMPLETE \<equiv> CRUST_MK_ERROR 0x4018"
abbreviation (input) CRUST_DESER_MERKLE_TREE_FAILED :: crust_status where
  "CRUST_DESER_MERKLE_TREE_FAILED \<equiv> CRUST_MK_ERROR 0x4019"
abbreviation (input) CRUST_GET_MERKLETREE_FAILED :: crust_status where
  "CRUST_GET_MERKLETREE_FAILED \<equiv> CRUST_MK_ERROR 0x4020"
abbreviation (input) CRUST_MERKLETREE_DUPLICATED :: crust_status where
  "CRUST_MERKLETREE_DUPLICATED \<equiv> CRUST_MK_ERROR 0x4021"
abbreviation (input) CRUST_MALWARE_DATA_BLOCK :: crust_status where
  "CRUST_MALWARE_DATA_BLOCK \<equiv> CRUST_MK_ERROR 0x4022"
abbreviation (input) CRUST_DUPLICATED_SEAL :: crust_status where
  "CRUST_DUPLICATED_SEAL \<equiv> CRUST_MK_ERROR 0x4023"
abbreviation (input) CRUST_OPEN_FILE_FAILED :: crust_status where
  "CRUST_OPEN_FILE_FAILED \<equiv> CRUST_MK_ERROR 0x4024"
abbreviation (input) CRUST_WRITE_FILE_FAILED :: crust_status where
  "CRUST_WRITE_FILE_FAILED \<equiv> CRUST_MK_ERROR 0x4025"
abbreviation (input) CRUST_DELETE_FILE_FAILED :: crust_status where
  "CRUST_DELETE_FILE_FAILED \<equiv> CRUST_MK_ERROR 0x4026"
abbreviation (input) CRUST_RENAME_FILE_FAILED :: crust_status where
  "CRUST_RENAME_FILE_FAILED \<equiv> CRUST_MK_ERROR 0x4027"
abbreviation (input) CRUST_RENAME_FILE_NOTFOUND :: crust_status where
  "CRUST_RENAME_FILE_NOTFOUND \<equiv> CRUST_MK_ERROR 0x4028"
abbreviation (input) CRUST_MKDIR_FAILED :: crust_status where
  "CRUST_MKDIR_FAILED \<equiv> CRUST_MK_ERROR 0x4029"
abbreviation (input) CRUST_ACCESS_FILE_FAILED :: crust_status where
  "CRUST_ACCESS_FILE_FAILED \<equiv> CRUST_MK_ERROR 0x4030"
abbreviation (input) CRUST_INVALID_META_DATA :: crust_status where
  "CRUST_INVALID_META_DATA \<equiv> CRUST_MK_ERROR 0x4031"
abbreviation (input) CRUST_METADATA_NOTFOUND :: crust_status where
  "CRUST_METADATA_NOTFOUND \<equiv> CRUST_MK_ERROR 0x4032"
abbreviation (input) CRUST_START_WEB_SERVICE_FAILED :: crust_status where
  "CRUST_START_WEB_SERVICE_FAILED \<equiv> CRUST_MK_ERROR 0x4033"
abbreviation (input) CRUST_ENTRY_NETWORK_FAILED :: crust_status where
  "CRUST_ENTRY_NETWORK_FAILED \<equiv> CRUST_MK_ERROR 0x4034"
abbreviation (input) CRUST_SEND_IDENTITY_FAILED :: crust_status where
  "CRUST_SEND_IDENTITY_FAILED \<equiv> CRUST_MK_ERROR 0x4035"
abbreviation (input) CRUST_INIT_QUOTE_FAILED :: crust_status where
  "CRUST_INIT_QUOTE_FAILED \<equiv> CRUST_MK_ERROR 0x4036"
abbreviation (input) CRUST_SRD_NUMBER_EXCEED :: crust_status where
  "CRUST_SRD_NUMBER_EXCEED \<equiv> CRUST_MK_ERROR 0x4037"
abbreviation (input) CRUST_FILE_NUMBER_EXCEED :: crust_status where
  "CRUST_FILE_NUMBER_EXCEED \<equiv> CRUST_MK_ERROR 0x4038"
abbreviation (input) CRUST_PERSIST_ADD_FAILED :: crust_status where
  "CRUST_PERSIST_ADD_FAILED \<equiv> CRUST_MK_ERROR 0x6001"
abbreviation (input) CRUST_PERSIST_DEL_FAILED :: crust_status where
  "CRUST_PERSIST_DEL_FAILED \<equiv> CRUST_MK_ERROR 0x6002"
abbreviation (input) CRUST_PERSIST_SET_FAILED :: crust_status where
  "CRUST_PERSIST_SET_FAILED \<equiv> CRUST_MK_ERROR 0x6003"
abbreviation (input) CRUST_PERSIST_GET_FAILED :: crust_status where
  "CRUST_PERSIST_GET_FAILED \<equiv> CRUST_MK_ERROR 0x6004"
abbreviation (input) CRUST_IAS_QUERY_FAILED :: crust_status where
  "CRUST_IAS_QUERY_FAILED \<equiv> CRUST_MK_ERROR 0x7001"
abbreviation (input) CRUST_IAS_OK :: crust_status where
  "CRUST_IAS_OK \<equiv> CRUST_MK_ERROR 0x7002"
abbreviation (input) CRUST_IAS_VERIFY_FAILED :: crust_status where
  "CRUST_IAS_VERIFY_FAILED \<equiv> CRUST_MK_ERROR 0x7003"
abbreviation (input) CRUST_IAS_BADREQUEST :: crust_status where
  "CRUST_IAS_BADREQUEST \<equiv> CRUST_MK_ERROR 0x7004"
abbreviation (input) CRUST_IAS_UNAUTHORIZED :: crust_status where
  "CRUST_IAS_UNAUTHORIZED \<equiv> CRUST_MK_ERROR 0x7005"
abbreviation (input) CRUST_IAS_NOT_FOUND :: crust_status where
  "CRUST_IAS_NOT_FOUND \<equiv> CRUST_MK_ERROR 0x7006"
abbreviation (input) CRUST_IAS_UNEXPECTED_ERROR :: crust_status where
  "CRUST_IAS_UNEXPECTED_ERROR \<equiv> CRUST_MK_ERROR 0x7007"
abbreviation (input) CRUST_IAS_SERVER_ERR :: crust_status where
  "CRUST_IAS_SERVER_ERR \<equiv> CRUST_MK_ERROR 0x7008"
abbreviation (input) CRUST_IAS_UNAVAILABLE :: crust_status where
  "CRUST_IAS_UNAVAILABLE \<equiv> CRUST_MK_ERROR 0x7009"
abbreviation (input) CRUST_IAS_INTERNAL_ERROR :: crust_status where
  "CRUST_IAS_INTERNAL_ERROR \<equiv> CRUST_MK_ERROR 0x7010"
abbreviation (input) CRUST_IAS_BAD_CERTIFICATE :: crust_status where
  "CRUST_IAS_BAD_CERTIFICATE \<equiv> CRUST_MK_ERROR 0x7011"
abbreviation (input) CRUST_IAS_BAD_SIGNATURE :: crust_status where
  "CRUST_IAS_BAD_SIGNATURE \<equiv> CRUST_MK_ERROR 0x7012"
abbreviation (input) CRUST_IAS_BAD_BODY :: crust_status where
  "CRUST_IAS_BAD_BODY \<equiv> CRUST_MK_ERROR 0x7013"
abbreviation (input) CRUST_IAS_REPORTDATA_NE :: crust_status where
  "CRUST_IAS_REPORTDATA_NE \<equiv> CRUST_MK_ERROR 0x7014"
abbreviation (input) CRUST_IAS_GET_REPORT_FAILED :: crust_status where
  "CRUST_IAS_GET_REPORT_FAILED \<equiv> CRUST_MK_ERROR 0x7015"
abbreviation (input) CRUST_IAS_BADMEASUREMENT :: crust_status where
  "CRUST_IAS_BADMEASUREMENT \<equiv> CRUST_MK_ERROR 0x7016"
abbreviation (input) CRUST_IAS_GETPUBKEY_FAILED :: crust_status where
  "CRUST_IAS_GETPUBKEY_FAILED \<equiv> CRUST_MK_ERROR 0x7017"
abbreviation (input) CRUST_SIGN_PUBKEY_FAILED :: crust_status where
  "CRUST_SIGN_PUBKEY_FAILED \<equiv> CRUST_MK_ERROR 0x7018"
abbreviation (input) CRUST_GET_ACCOUNT_ID_BYTE_FAILED :: crust_status where
  "CRUST_GET_ACCOUNT_ID_BYTE_FAILED \<equiv> CRUST_MK_ERROR 0x7019"
abbreviation (input) CRUST_STORAGE_FILE_NOTFOUND :: crust_status where
  "CRUST_STORAGE_FILE_NOTFOUND \<equiv> CRUST_MK_ERROR 0x8001"
abbreviation (input) CRUST_STORAGE_SER_MERKLETREE_FAILED :: crust_status where
  "CRUST_STORAGE_SER_MERKLETREE_FAILED \<equiv> CRUST_MK_ERROR 0x8002"
abbreviation (input) CRUST_STORAGE_UPDATE_FILE_FAILED :: crust_status where
  "CRUST_STORAGE_UPDATE_FILE_FAILED \<equiv> CRUST_MK_ERROR 0x8003"
abbreviation (input) CRUST_STORAGE_UNSEAL_FILE_FAILED :: crust_status where
  "CRUST_STORAGE_UNSEAL_FILE_FAILED \<equiv> CRUST_MK_ERROR 0x8004"
abbreviation (input) CRUST_STORAGE_UNEXPECTED_FILE_BLOCK :: crust_status where
  "CRUST_STORAGE_UNEXPECTED_FILE_BLOCK \<equiv> CRUST_MK_ERROR 0x8005"
abbreviation (input) CRUST_STORAGE_NEW_FILE_NOTFOUND :: crust_status where
  "CRUST_STORAGE_NEW_FILE_NOTFOUND \<equiv> CRUST_MK_ERROR 0x8006"
abbreviation (input) CRUST_STORAGE_NEW_FILE_SIZE_ERROR :: crust_status where
  "CRUST_STORAGE_NEW_FILE_SIZE_ERROR \<equiv> CRUST_MK_ERROR 0x8007"
abbreviation (input) CRUST_VALIDATE_INIT_WSS_FAILED :: crust_status where
  "CRUST_VALIDATE_INIT_WSS_FAILED \<equiv> CRUST_MK_ERROR 0x9001"
abbreviation (input) CRUST_VALIDATE_WSS_REQUEST_FAILED :: crust_status where
  "CRUST_VALIDATE_WSS_REQUEST_FAILED \<equiv> CRUST_MK_ERROR 0x9002"
abbreviation (input) CRUST_VALIDATE_KARST_OFFLINE :: crust_status where
  "CRUST_VALIDATE_KARST_OFFLINE \<equiv> CRUST_MK_ERROR 0x9003"
abbreviation (input) CRUST_UPGRADE_RESTORE_SRD_FAILED :: crust_status where
  "CRUST_UPGRADE_RESTORE_SRD_FAILED \<equiv> CRUST_MK_ERROR 0x10001"
abbreviation (input) CRUST_UPGRADE_RESTORE_FILE_FAILED :: crust_status where
  "CRUST_UPGRADE_RESTORE_FILE_FAILED \<equiv> CRUST_MK_ERROR 0x10002"
abbreviation (input) CRUST_UPGRADE_SEND_WORKREPORT_FAILED :: crust_status where
  "CRUST_UPGRADE_SEND_WORKREPORT_FAILED \<equiv> CRUST_MK_ERROR 0x10003"
abbreviation (input) CRUST_UPGRADE_INVALID_WORKREPORT :: crust_status where
  "CRUST_UPGRADE_INVALID_WORKREPORT \<equiv> CRUST_MK_ERROR 0x10004"
abbreviation (input) CRUST_UPGRADE_GET_BLOCK_HASH_FAILED :: crust_status where
  "CRUST_UPGRADE_GET_BLOCK_HASH_FAILED \<equiv> CRUST_MK_ERROR 0x10005"
abbreviation (input) CRUST_UPGRADE_GEN_WORKREPORT_FAILED :: crust_status where
  "CRUST_UPGRADE_GEN_WORKREPORT_FAILED \<equiv> CRUST_MK_ERROR 0x10006"
abbreviation (input) CRUST_UPGRADE_WAIT_FOR_NEXT_ERA :: crust_status where
  "CRUST_UPGRADE_WAIT_FOR_NEXT_ERA \<equiv> CRUST_MK_ERROR 0x10007"
abbreviation (input) CRUST_UPGRADE_BAD_SRD :: crust_status where
  "CRUST_UPGRADE_BAD_SRD \<equiv> CRUST_MK_ERROR 0x10008"
abbreviation (input) CRUST_UPGRADE_BAD_FILE :: crust_status where
  "CRUST_UPGRADE_BAD_FILE \<equiv> CRUST_MK_ERROR 0x10009"
abbreviation (input) CRUST_UPGRADE_IS_UPGRADING :: crust_status where
  "CRUST_UPGRADE_IS_UPGRADING \<equiv> CRUST_MK_ERROR 0x10010"
abbreviation (input) CRUST_UPGRADE_NEED_LEFT_DATA :: crust_status where
  "CRUST_UPGRADE_NEED_LEFT_DATA \<equiv> CRUST_MK_ERROR 0x10011"
abbreviation (input) CRUST_UPGRADE_BLOCK_EXPIRE :: crust_status where
  "CRUST_UPGRADE_BLOCK_EXPIRE \<equiv> CRUST_MK_ERROR 0x10012"
abbreviation (input) CRUST_UPGRADE_NO_VALIDATE :: crust_status where
  "CRUST_UPGRADE_NO_VALIDATE \<equiv> CRUST_MK_ERROR 0x10013"
abbreviation (input) CRUST_UPGRADE_RESTART :: crust_status where
  "CRUST_UPGRADE_RESTART \<equiv> CRUST_MK_ERROR 0x10014"
abbreviation (input) CRUST_UPGRADE_NO_FILE :: crust_status where
  "CRUST_UPGRADE_NO_FILE \<equiv> CRUST_MK_ERROR 0x10015"

text \<open>
  The status codes of the SGX SDK that the sources test or return by name.  Every other SGX
  error code is \<open>SGX_ERROR\<close> with a number.
\<close>

datatype sgx_status = SGX_SUCCESS | SGX_ERROR_UNEXPECTED | SGX_ERROR_OUT_OF_MEMORY | SGX_ERROR nat

section \<open>Constants\<close>

abbreviation (input) SWORKER_VERSION :: string where
  "SWORKER_VERSION \<equiv> ''0.6.0''"
abbreviation (input) LEAF_SEPARATOR :: string where
  "LEAF_SEPARATOR \<equiv> ''+leaf+''"
definition OCALL_STORE_THRESHOLD :: nat where
  "OCALL_STORE_THRESHOLD = 4194304"
abbreviation (input) ID_METADATA :: string where
  "ID_METADATA \<equiv> ''metadata''"
abbreviation (input) ID_FILE :: string where
  "ID_FILE \<equiv> ''files''"
abbreviation (input) ID_WORKLOAD :: string where
  "ID_WORKLOAD \<equiv> ''workload''"
abbreviation (input) ID_KEY_PAIR :: string where
  "ID_KEY_PAIR \<equiv> ''id_key_pair''"
abbreviation (input) ID_PRE_PUB_KEY :: string where
  "ID_PRE_PUB_KEY \<equiv> ''pre_pub_key''"
abbreviation (input) ID_REPORT_HEIGHT :: string where
  "ID_REPORT_HEIGHT \<equiv> ''report_height''"
abbreviation (input) ID_CHAIN_ACCOUNT_ID :: string where
  "ID_CHAIN_ACCOUNT_ID \<equiv> ''chain_account_id''"
abbreviation (input) FILE_HASH :: string where
  "FILE_HASH \<equiv> ''hash''"
abbreviation (input) FILE_SIZE :: string where
  "FILE_SIZE \<equiv> ''size''"
abbreviation (input) FILE_OLD_SIZE :: string where
  "FILE_OLD_SIZE \<equiv> ''old_size''"
abbreviation (input) FILE_OLD_HASH :: string where
  "FILE_OLD_HASH \<equiv> ''old_hash''"
abbreviation (input) FILE_BLOCK_NUM :: string where
  "FILE_BLOCK_NUM \<equiv> ''block_num''"
abbreviation (input) FILE_STATUS :: string where
  "FILE_STATUS \<equiv> ''status''"
abbreviation (input) FILE_STATUS_UNCONFIRMED :: char where
  "FILE_STATUS_UNCONFIRMED \<equiv> CHR ''0''"
abbreviation (input) FILE_STATUS_VALID :: char where
  "FILE_STATUS_VALID \<equiv> CHR ''1''"
abbreviation (input) FILE_STATUS_LOST :: char where
  "FILE_STATUS_LOST \<equiv> CHR ''2''"
abbreviation (input) FILE_STATUS_DELETED :: char where
  "FILE_STATUS_DELETED \<equiv> CHR ''3''"
abbreviation (input) CURRENT_STATUS :: nat where
  "CURRENT_STATUS \<equiv> 0"
abbreviation (input) WAITING_STATUS :: nat where
  "WAITING_STATUS \<equiv> 1"
abbreviation (input) ORIGIN_STATUS :: nat where
  "ORIGIN_STATUS \<equiv> 2"
abbreviation (input) FILE_NUMBER_UPPER_LIMIT :: nat where
  "FILE_NUMBER_UPPER_LIMIT \<equiv> 200000"
abbreviation (input) DB_SRD_INFO :: string where
  "DB_SRD_INFO \<equiv> ''srd_info''"
abbreviation (input) DB_WL_SPEC_INFO :: string where
  "DB_WL_SPEC_INFO \<equiv> ''wl_spec_info''"
abbreviation (input) MT_LINKS_NUM :: string where
  "MT_LINKS_NUM \<equiv> ''links_num''"
abbreviation (input) MT_LINKS :: string where
  "MT_LINKS \<equiv> ''links''"
abbreviation (input) MT_HASH :: string where
  "MT_HASH \<equiv> ''hash''"
abbreviation (input) MT_SIZE :: string where
  "MT_SIZE \<equiv> ''size''"
abbreviation (input) IAS_CERT :: string where
  "IAS_CERT \<equiv> ''ias_cert''"
abbreviation (input) IAS_SIG :: string where
  "IAS_SIG \<equiv> ''ias_sig''"
abbreviation (input) IAS_ISV_BODY :: string where
  "IAS_ISV_BODY \<equiv> ''isv_body''"
abbreviation (input) IAS_CHAIN_ACCOUNT_ID :: string where
  "IAS_CHAIN_ACCOUNT_ID \<equiv> ''account_id''"
abbreviation (input) IAS_REPORT_SIG :: string where
  "IAS_REPORT_SIG \<equiv> ''sig''"
abbreviation (input) IAS_ISV_BODY_TAG :: string where
  "IAS_ISV_BODY_TAG \<equiv> ''isvEnclaveQuoteBody''"
abbreviation (input) WORKREPORT_PUB_KEY :: string where
  "WORKREPORT_PUB_KEY \<equiv> ''pub_key''"
abbreviation (input) WORKREPORT_PRE_PUB_KEY :: string where
  "WORKREPORT_PRE_PUB_KEY \<equiv> ''pre_pub_key''"
abbreviation (input) WORKREPORT_BLOCK_HEIGHT :: string where
  "WORKREPORT_BLOCK_HEIGHT \<equiv> ''block_height''"
abbreviation (input) WORKREPORT_BLOCK_HASH :: string where
  "WORKREPORT_BLOCK_HASH \<equiv> ''block_hash''"
abbreviation (input) WORKREPORT_RESERVED :: string where
  "WORKREPORT_RESERVED \<equiv> ''reserved''"
abbreviation (input) WORKREPORT_FILES_SIZE :: string where
  "WORKREPORT_FILES_SIZE \<equiv> ''files_size''"
abbreviation (input) WORKREPORT_RESERVED_ROOT :: string where
  "WORKREPORT_RESERVED_ROOT \<equiv> ''reserved_root''"
abbreviation (input) WORKREPORT_FILES_ROOT :: string where
  "WORKREPORT_FILES_ROOT \<equiv> ''files_root''"
abbreviation (input) WORKREPORT_FILES_ADDED :: string where
  "WORKREPORT_FILES_ADDED \<equiv> ''added_files''"
abbreviation (input) WORKREPORT_FILES_DELETED :: string where
  "WORKREPORT_FILES_DELETED \<equiv> ''deleted_files''"
abbreviation (input) WORKREPORT_SIG :: string where
  "WORKREPORT_SIG \<equiv> ''sig''"
abbreviation (input) WORKREPORT_FILE_LIMIT :: nat where
  "WORKREPORT_FILE_LIMIT \<equiv> 1000"
abbreviation (input) WORKREPORT_REPORT_INTERVAL :: nat where
  "WORKREPORT_REPORT_INTERVAL \<equiv> 10"
abbreviation (input) ERA_LENGTH :: nat where
  "ERA_LENGTH \<equiv> 300"
abbreviation (input) BLOCK_TIME_BASE :: nat where
  "BLOCK_TIME_BASE \<equiv> 6"
abbreviation (input) WL_SRD :: string where
  "WL_SRD \<equiv> ''srd''"
abbreviation (input) WL_SRD_DETAIL :: string where
  "WL_SRD_DETAIL \<equiv> ''detail''"
abbreviation (input) WL_SRD_ROOT_HASH :: string where
  "WL_SRD_ROOT_HASH \<equiv> ''root_hash''"
abbreviation (input) WL_SRD_SPACE :: string where
  "WL_SRD_SPACE \<equiv> ''space''"
abbreviation (input) WL_SRD_REMAINING_TASK :: string where
  "WL_SRD_REMAINING_TASK \<equiv> ''remaining_task''"
abbreviation (input) WL_FILES :: string where
  "WL_FILES \<equiv> ''files''"
abbreviation (input) WL_FILE_SEALED_SIZE :: string where
  "WL_FILE_SEALED_SIZE \<equiv> ''sealed_size''"
abbreviation (input) WL_FILE_STATUS :: string where
  "WL_FILE_STATUS \<equiv> ''status''"
abbreviation (input) WL_FILE_OLD_HASH :: string where
  "WL_FILE_OLD_HASH \<equiv> ''old_hash''"
abbreviation (input) WL_FILE_OLD_SIZE :: string where
  "WL_FILE_OLD_SIZE \<equiv> ''old_size''"
abbreviation (input) WL_FILE_ROOT_HASH :: string where
  "WL_FILE_ROOT_HASH \<equiv> ''file_root_hash''"
abbreviation (input) SRD_MAX_PER_TURN :: nat where
  "SRD_MAX_PER_TURN \<equiv> 64"
abbreviation (input) SRD_NUMBER_UPPER_LIMIT :: nat where
  "SRD_NUMBER_UPPER_LIMIT \<equiv> 204800"
abbreviation (input) SRD_VALIDATE_MIN_NUM :: nat where
  "SRD_VALIDATE_MIN_NUM \<equiv> 64"
abbreviation (input) MEANINGFUL_VALIDATE_MIN_NUM :: nat where
  "MEANINGFUL_VALIDATE_MIN_NUM \<equiv> 64"
abbreviation (input) MEANINGFUL_VALIDATE_MIN_BLOCK_NUM :: nat where
  "MEANINGFUL_VALIDATE_MIN_BLOCK_NUM \<equiv> 1"
abbreviation (input) MAX_BLOCK_SIZE :: nat where
  "MAX_BLOCK_SIZE \<equiv> 1048576"
abbreviation (input) SRD_PUNISH_FACTOR :: nat where
  "SRD_PUNISH_FACTOR \<equiv> 2"
abbreviation (input) PERSIST_SUM :: string where
  "PERSIST_SUM \<equiv> ''persist_sum''"
abbreviation (input) PERSIST_SIZE :: string where
  "PERSIST_SIZE \<equiv> ''persist_size''"
abbreviation (input) HASH_LENGTH :: nat where
  "HASH_LENGTH \<equiv> 32"
abbreviation (input) ENC_MAX_THREAD_NUM :: nat where
  "ENC_MAX_THREAD_NUM \<equiv> 15"
abbreviation (input) ENCLAVE_MALLOC_TRYOUT :: nat where
  "ENCLAVE_MALLOC_TRYOUT \<equiv> 3"
abbreviation (input) UPGRADE_PUBLIC_KEY :: string where
  "UPGRADE_PUBLIC_KEY \<equiv> ''pub_key''"
abbreviation (input) UPGRADE_BLOCK_HEIGHT :: string where
  "UPGRADE_BLOCK_HEIGHT \<equiv> ''block_height''"
abbreviation (input) UPGRADE_BLOCK_HASH :: string where
  "UPGRADE_BLOCK_HASH \<equiv> ''block_hash''"
abbreviation (input) UPGRADE_SRD :: string where
  "UPGRADE_SRD \<equiv> ''upgrade_srd''"
abbreviation (input) UPGRADE_SRD_ROOT :: string where
  "UPGRADE_SRD_ROOT \<equiv> ''upgrade_srd_root''"
abbreviation (input) UPGRADE_FILE :: string where
  "UPGRADE_FILE \<equiv> ''upgrade_file''"
abbreviation (input) UPGRADE_FILE_ROOT :: string where
  "UPGRADE_FILE_ROOT \<equiv> ''upgrade_file_root''"
abbreviation (input) UPGRADE_MRENCLAVE :: string where
  "UPGRADE_MRENCLAVE \<equiv> ''upgrade_mrenclave''"
abbreviation (input) UPGRADE_SIG :: string where
  "UPGRADE_SIG \<equiv> ''upgrade_sig''"
abbreviation (input) UPGRADE_WAIT_BLOCK_MAX :: nat where
  "UPGRADE_WAIT_BLOCK_MAX \<equiv> 50"
abbreviation (input) UPGRADE_WAIT_BLOCK_MIN :: nat where
  "UPGRADE_WAIT_BLOCK_MIN \<equiv> 10"
abbreviation (input) SWORKER_PRIVATE_TAG :: string where
  "SWORKER_PRIVATE_TAG \<equiv> ''&+CRUSTSWORKERPRIVATE+&''"
definition SRD_RAND_DATA_LENGTH :: nat where
  "SRD_RAND_DATA_LENGTH = 1048576"
definition SRD_RAND_DATA_NUM :: nat where
  "SRD_RAND_DATA_NUM = 1024"
abbreviation (input) SRD_M_HASHS :: string where
  "SRD_M_HASHS \<equiv> ''m-hashs.bin''"
abbreviation (input) MAIN_LOOP_WAIT_TIME :: nat where
  "MAIN_LOOP_WAIT_TIME \<equiv> 10000000"
abbreviation (input) LOG_BUF_SIZE :: nat where
  "LOG_BUF_SIZE \<equiv> 32768"
abbreviation (input) HASH_TAG :: string where
  "HASH_TAG \<equiv> ''$&JT&$''"

text \<open>The three states of an enclave upgrade (\<open>enc_upgrade_status_t\<close>).\<close>

datatype enc_upgrade_status =
    ENC_UPGRADE_STATUS_NONE
  | ENC_UPGRADE_STATUS_PROCESS
  | ENC_UPGRADE_STATUS_SUCCESS

lemma OCALL_STORE_THRESHOLD_pos [simp]: "0 < OCALL_STORE_THRESHOLD"
  by (simp add: OCALL_STORE_THRESHOLD_def)

end
