(* ===== verification/EUtils.thy ===== *)
theory EUtils
  imports Parameters
begin

unbundle bit_operations_syntax

text \<open>
  The helpers of \<open>src/enclave/utils/EUtils.cpp\<close> and \<open>PathHelper.cpp\<close>: allocation with
  retries, hexadecimal encoding in its two variants, string surgery and the splitting of large
  buffers into OCALL-sized parts.  The lemmas show that the hexadecimal codecs are inverse to
  each other and agree, that \<open>replace\<close> returns and rewrites every occurrence, and that the
  parts handed out by \<open>store_large_data\<close> rebuild the buffer.
\<close>

section \<open>Allocation\<close>

text \<open>
  Whether \<open>malloc\<close> succeeds is decided outside the program: \<open>mm size t\<close> says whether
  the \<open>t\<close>-th attempt for \<open>size\<close> bytes does.
\<close>

type_synonym malloc = "nat \<Rightarrow> nat \<Rightarrow> bool"

function enc_malloc_loop :: "malloc \<Rightarrow> nat \<Rightarrow> nat \<Rightarrow> bool \<Rightarrow> bool" where
  "enc_malloc_loop mm sz tryout p =
     (if tryout < ENCLAVE_MALLOC_TRYOUT \<and> \<not> p
      then enc_malloc_loop mm sz (Suc tryout) (mm sz tryout) else p)"
  by pat_completeness auto
termination
  by (relation "measure (\<lambda>(mm, sz, tryout, p). ENCLAVE_MALLOC_TRYOUT - tryout)") auto

declare enc_malloc_loop.simps [simp del]

definition enc_malloc :: "malloc \<Rightarrow> nat \<Rightarrow> bool" where
  "enc_malloc mm sz = enc_malloc_loop mm sz 0 False"

text \<open>\<open>enc_realloc\<close> frees the old buffer and calls \<open>enc_malloc\<close> up to three times.\<close>

function enc_realloc_loop :: "malloc \<Rightarrow> nat \<Rightarrow> nat \<Rightarrow> bool \<Rightarrow> bool" where
  "enc_realloc_loop mm sz tryout p =
     (if tryout < ENCLAVE_MALLOC_TRYOUT \<and> \<not> p
      then enc_realloc_loop mm sz (Suc tryout)
             (enc_malloc (\<lambda>n t. mm n (ENCLAVE_MALLOC_TRYOUT * tryout + t)) sz)
      else p)"
  by pat_completeness auto
termination
  by (relation "measure (\<lambda>(mm, sz, tryout, p). ENCLAVE_MALLOC_TRYOUT - tryout)") auto

declare enc_realloc_loop.simps [simp del]

definition enc_realloc :: "malloc \<Rightarrow> nat \<Rightarrow> bool" where
  "enc_realloc mm sz = enc_realloc_loop mm sz 0 False"

section \<open>Hexadecimal text\<close>

definition char_to_int :: "char \<Rightarrow> int" where
  "char_to_int input =
     (let c = of_char input in
      if 48 \<le> c \<and> c \<le> 57 then c - 48
      else if 65 \<le> c \<and> c \<le> 70 then c - 65 + 10
      else if 97 \<le> c \<and> c \<le> 102 then c - 97 + 10
      else 0)"

abbreviation (input) hextable :: string where
  "hextable \<equiv> ''0123456789abcdef''"

definition hex_digits :: "byte \<Rightarrow> string" where
  "hex_digits b = [hextable ! unat (drop_bit 4 b), hextable ! unat (b AND 0xf)]"

definition hexstring_safe :: "malloc \<Rightarrow> bytes \<Rightarrow> string" where
  "hexstring_safe mm src =
     (if enc_malloc mm (length src * 2) then concat (map hex_digits src) else [])"

definition byte_vec_to_string :: "malloc \<Rightarrow> bytes \<Rightarrow> string" where
  "byte_vec_to_string mm bs = hexstring_safe mm bs"

text \<open>
  The unsafe variant writes into a shared buffer that grows in steps of 1 KiB.  Its state is
  the size of that buffer; the result is absent when the buffer cannot be grown.
\<close>

definition hexstring :: "malloc \<Rightarrow> bytes \<Rightarrow> nat \<Rightarrow> string option \<times> nat" where
  "hexstring mm src hex_buffer_size =
     (let bsz = length src * 2 + 1 in
      if hex_buffer_size \<le> bsz then
        let newsz = 1024 * (bsz div 1024) + (if bsz mod 1024 \<noteq> 0 then 1024 else 0) in
        (if enc_realloc mm newsz then Some (concat (map hex_digits src)) else None, newsz)
      else (Some (concat (map hex_digits src)), hex_buffer_size))"

text \<open>
  A character of a C string; the byte after the last one is the terminator.  Positions beyond
  the terminator, which the code must not read, also give it here.
\<close>

definition cstr_at :: "string \<Rightarrow> nat \<Rightarrow> char" where
  "cstr_at s i = (if i < length s then s ! i else CHR 0x00)"

definition hex_pair :: "string \<Rightarrow> nat \<Rightarrow> byte" where
  "hex_pair s i = word_of_int (char_to_int (cstr_at s (2 * i)) * 16 + char_to_int (cstr_at s (2 * i + 1)))"

definition hex_string_to_bytes :: "malloc \<Rightarrow> string \<Rightarrow> nat \<Rightarrow> bytes option" where
  "hex_string_to_bytes mm src len =
     (if len mod 2 \<noteq> 0 \<or> len = 0 then None
      else if \<not> enc_malloc mm (len div 2) then None
      else Some (map (hex_pair src) [0..<len div 2]))"

definition hex_nibble :: "nat \<Rightarrow> char" where
  "hex_nibble n = (if n < 10 then char_of (n + 48) else char_of (n - 10 + 97))"

definition unsigned_char_to_hex :: "byte \<Rightarrow> string" where
  "unsigned_char_to_hex b = [hex_nibble (unat b div 16), hex_nibble (unat b mod 16)]"

definition unsigned_char_array_to_hex_string :: "bytes \<Rightarrow> string" where
  "unsigned_char_array_to_hex_string bs = concat (map unsigned_char_to_hex bs)"

definition unsigned_char_array_to_unsigned_char_vector :: "bytes \<Rightarrow> nat \<Rightarrow> bytes" where
  "unsigned_char_array_to_unsigned_char_vector bs sz = take sz bs"

section \<open>Paths of srd files\<close>

definition get_m_hashs_file_path :: "string \<Rightarrow> string" where
  "get_m_hashs_file_path g_path = g_path @ ''/'' @ SRD_M_HASHS"

definition get_leaf_path :: "string \<Rightarrow> u64 \<Rightarrow> bytes \<Rightarrow> string" where
  "get_leaf_path g_path now_index hash =
     g_path @ ''/'' @ to_string (unat (now_index + 1)) @ ''-'' @
       unsigned_char_array_to_hex_string (take HASH_LENGTH hash)"

definition get_g_path_with_hash :: "string \<Rightarrow> bytes \<Rightarrow> string" where
  "get_g_path_with_hash dir_path hash =
     dir_path @ ''/'' @ unsigned_char_array_to_hex_string (take HASH_LENGTH hash)"

definition get_g_path :: "string \<Rightarrow> u64 \<Rightarrow> string" where
  "get_g_path dir_path now_index = dir_path @ ''/'' @ to_string (unat (now_index + 1))"

section \<open>String surgery\<close>

definition remove_char :: "string \<Rightarrow> char \<Rightarrow> string" where
  "remove_char data c = filter (\<lambda>x. x \<noteq> c) data"

text \<open>\<open>std::string::find\<close> from a position.\<close>

fun find_sub :: "string \<Rightarrow> string \<Rightarrow> nat option" where
  "find_sub p s =
     (if take (length p) s = p then Some 0
      else case s of [] \<Rightarrow> None | c # cs \<Rightarrow> map_option Suc (find_sub p cs))"

declare find_sub.simps [simp del]

definition string_find :: "string \<Rightarrow> string \<Rightarrow> nat \<Rightarrow> nat option" where
  "string_find data p pos =
     (if length data < pos then None else map_option ((+) pos) (find_sub p (drop pos data)))"

text \<open>
  The loop of \<open>replace\<close>.  It does not return when the replaced string is empty, so its result
  is optional.
\<close>

partial_function (option) replace_loop :: "string \<Rightarrow> string \<Rightarrow> string \<Rightarrow> nat \<Rightarrow> string option" where
  "replace_loop data org_str det_str epos =
     (case string_find data org_str epos of
        None \<Rightarrow> Some data
      | Some spos \<Rightarrow>
          replace_loop (take spos data @ det_str @ drop (spos + length org_str) data)
            org_str det_str (spos + length det_str))"

definition replace :: "string \<Rightarrow> string \<Rightarrow> string \<Rightarrow> string option" where
  "replace data org_str det_str = replace_loop data org_str det_str 0"

section \<open>Splitting large buffers\<close>

text \<open>
  \<open>store_large_data\<close> hands the buffer to an OCALL in parts; the flag \<open>cover\<close> tells the
  receiver to start afresh.  The result is the sequence of calls.
\<close>

function store_parts :: "bytes \<Rightarrow> nat \<Rightarrow> bool \<Rightarrow> (bytes \<times> bool) list" where
  "store_parts data offset cover =
     (if offset < length data then
        let part_size = min (length data - offset) OCALL_STORE_THRESHOLD in
        (take part_size (drop offset data), cover) # store_parts data (offset + part_size) False
      else [])"
  by pat_completeness auto
termination
proof (relation "measure (\<lambda>(data, offset, cover). length data - offset)")
  fix data :: bytes and offset n
  assume less: "offset < length data" and "n = min (length data - offset) OCALL_STORE_THRESHOLD"
  then have "0 < n" by simp
  with less show "((data, offset + n, False), data, offset, cover)
      \<in> measure (\<lambda>(data, offset, cover). length data - offset)" for cover :: bool
    by simp
qed simp

declare store_parts.simps [simp del]

definition store_large_data :: "bytes \<Rightarrow> (bytes \<times> bool) list" where
  "store_large_data data =
     (if OCALL_STORE_THRESHOLD < length data then store_parts data 0 True else [(data, True)])"

section \<open>Lemmas: allocation\<close>

lemma enc_malloc_iff: "enc_malloc mm sz \<longleftrightarrow> (\<exists>t < 3. mm sz t)"
  by (simp add: enc_malloc_def enc_malloc_loop.simps numeral_3_eq_3 less_Suc_eq ex_disj_distrib
      conj_disj_distribR)

lemma enc_malloc_always: "(\<And>t. mm sz t) \<Longrightarrow> enc_malloc mm sz"
  by (auto simp: enc_malloc_iff intro!: exI [of _ 0])

abbreviation (input) mem_ok :: malloc where
  "mem_ok \<equiv> \<lambda>_ _. True"

lemma enc_malloc_mem_ok [simp]: "enc_malloc mem_ok sz"
  by (rule enc_malloc_always) simp

lemma enc_realloc_mem_ok [simp]: "enc_realloc mem_ok sz"
  unfolding enc_realloc_def by (subst enc_realloc_loop.simps, subst enc_realloc_loop.simps) simp

section \<open>Lemmas: hexadecimal text\<close>

lemma nibble_table:
  "\<forall>n < 16. hextable ! n = hex_nibble n \<and> char_to_int (hex_nibble n) = int n"
  by code_simp

lemma hextable_nibble: "n < 16 \<Longrightarrow> hextable ! n = hex_nibble n"
  using nibble_table by blast

lemma char_to_int_nibble: "n < 16 \<Longrightarrow> char_to_int (hex_nibble n) = int n"
  using nibble_table by blast

lemma unat_high_nibble: "unat (drop_bit 4 (b :: byte)) = unat b div 16"
  by (simp add: drop_bit_eq_div unat_div)

lemma unat_low_nibble: "unat ((b :: byte) AND 0xf) = unat b mod 16"
proof -
  have "b AND 0xf = take_bit 4 b" by (simp add: take_bit_eq_mask mask_eq_exp_minus_1)
  then show ?thesis by (simp add: unat_mod unsigned_take_bit_eq take_bit_eq_mod)
qed

lemma hex_digits_eq: "hex_digits b = unsigned_char_to_hex b"
proof -
  have "unat b div 16 < 16" using unat_byte_less [of b] by linarith
  then show ?thesis
    by (simp add: hex_digits_def unsigned_char_to_hex_def unat_high_nibble unat_low_nibble
        hextable_nibble)
qed

lemma length_hex_digits [simp]: "length (hex_digits b) = 2"
  by (simp add: hex_digits_def)

lemma length_concat_hex [simp]: "length (concat (map hex_digits bs)) = 2 * length bs"
  by (induction bs) auto

lemma concat_hex_nth:
  "i < length bs \<Longrightarrow> concat (map hex_digits bs) ! (2 * i) = hex_digits (bs ! i) ! 0 \<and>
     concat (map hex_digits bs) ! (2 * i + 1) = hex_digits (bs ! i) ! 1"
proof (induction bs arbitrary: i)
  case (Cons b bs)
  show ?case
  proof (cases i)
    case 0
    then show ?thesis by (simp add: nth_append)
  next
    case (Suc j)
    with Cons have "j < length bs" by simp
    then show ?thesis using Cons.IH [of j] Suc by (simp add: nth_append)
  qed
qed simp

lemma hex_pair_concat: "i < length bs \<Longrightarrow> hex_pair (concat (map hex_digits bs)) i = bs ! i"
proof -
  assume i: "i < length bs"
  let ?n = "unat (bs ! i)"
  have "?n div 16 < 16" using unat_byte_less [of "bs ! i"] by linarith
  then have "hex_pair (concat (map hex_digits bs)) i = word_of_int (int (?n div 16) * 16 + int (?n mod 16))"
    using i concat_hex_nth [OF i]
    by (simp add: hex_pair_def cstr_at_def hex_digits_eq unsigned_char_to_hex_def char_to_int_nibble)
  also have "int (?n div 16) * 16 + int (?n mod 16) = int ?n"
    by (metis div_mult_mod_eq of_nat_add of_nat_mult of_nat_numeral)
  finally show ?thesis by simp
qed

lemma hex_string_to_bytes_hex:
  "bs \<noteq> [] \<Longrightarrow> enc_malloc mm (length bs) \<Longrightarrow>
     hex_string_to_bytes mm (concat (map hex_digits bs)) (2 * length bs) = Some bs"
  by (simp add: hex_string_to_bytes_def) (rule nth_equalityI; simp add: hex_pair_concat)

lemma hex_string_to_bytes_length:
  "hex_string_to_bytes mm s len = Some bs \<Longrightarrow> length bs = len div 2"
  by (auto simp: hex_string_to_bytes_def split: if_splits)

lemma concat_hex_inject: "concat (map hex_digits a) = concat (map hex_digits b) \<longleftrightarrow> a = b"
proof
  assume eq: "concat (map hex_digits a) = concat (map hex_digits b)"
  then have "length a = length b"
    by (metis length_concat_hex mult_cancel1 zero_neq_numeral)
  then show "a = b"
    by (intro nth_equalityI) (use eq hex_pair_concat in metis)+
qed simp

section \<open>Lemmas: searching and replacing\<close>

lemma find_sub_Some:
  "find_sub p s = Some i \<Longrightarrow> take (length p) (drop i s) = p \<and> i + length p \<le> length s"
proof (induction p s arbitrary: i rule: find_sub.induct)
  case (1 p s)
  then show ?case
    by (auto simp: find_sub.simps [of p s] split: if_splits list.splits)
      (metis length_take min.absorb_iff2 nat_le_linear)
qed

lemma find_sub_first: "find_sub p s = Some i \<Longrightarrow> j < i \<Longrightarrow> take (length p) (drop j s) \<noteq> p"
proof (induction p s arbitrary: i j rule: find_sub.induct)
  case (1 p s)
  show ?case
  proof (cases "take (length p) s = p")
    case True
    with 1 show ?thesis by (simp add: find_sub.simps [of p s])
  next
    case False
    with "1.prems" obtain c cs k where s: "s = c # cs" "find_sub p cs = Some k" "i = Suc k"
      by (auto simp: find_sub.simps [of p s] split: list.splits)
    show ?thesis
    proof (cases j)
      case 0
      with False show ?thesis by simp
    next
      case (Suc l)
      with "1.IH" [OF False s(1)] "1.prems" s show ?thesis by auto
    qed
  qed
qed

lemma find_sub_None: "find_sub p s = None \<Longrightarrow> take (length p) (drop j s) \<noteq> p"
proof (induction p s arbitrary: j rule: find_sub.induct)
  case (1 p s)
  show ?case
  proof (cases "take (length p) s = p")
    case True
    with 1 show ?thesis by (simp add: find_sub.simps [of p s])
  next
    case False
    show ?thesis
    proof (cases s)
      case Nil
      with False show ?thesis by simp
    next
      case (Cons c cs)
      with False "1.prems" have "find_sub p cs = None"
        by (simp add: find_sub.simps [of p "c # cs"])
      with "1.IH" [OF False Cons] False Cons show ?thesis by (cases j) auto
    qed
  qed
qed

lemma find_sub_shrink:
  "find_sub p s = Some i \<Longrightarrow> p \<noteq> [] \<Longrightarrow> length s - (i + length p) < length s"
  using find_sub_Some [of p s i] by (cases p) auto

text \<open>
  The reference definition of a replacement: scan from the left, and continue after the
  occurrence found.
\<close>

function replace_all :: "string \<Rightarrow> string \<Rightarrow> string \<Rightarrow> string" where
  "replace_all org_str det_str s =
     (if org_str = [] then s
      else case find_sub org_str s of
        None \<Rightarrow> s
      | Some i \<Rightarrow> take i s @ det_str @ replace_all org_str det_str (drop (i + length org_str) s))"
  by pat_completeness auto
termination
  by (relation "measure (\<lambda>(p, d, s). length s)") (auto dest: find_sub_shrink)

declare replace_all.simps [simp del]

lemma replace_loop_eq:
  "org \<noteq> [] \<Longrightarrow> replace_loop (done @ s) org det (length done) = Some (done @ replace_all org det s)"
proof (induction org det s arbitrary: "done" rule: replace_all.induct)
  case (1 org det s)
  show ?case
  proof (cases "find_sub org s")
    case None
    with "1.prems" show ?thesis
      by (simp add: replace_loop.simps replace_all.simps [of org det s] string_find_def)
  next
    case (Some i)
    have le: "length (take i s) = i" using find_sub_Some [OF Some] by simp
    let ?rest = "drop (i + length org) s"
    have "replace_loop (done @ s) org det (length done) =
        replace_loop ((done @ take i s @ det) @ ?rest) org det (length (done @ take i s @ det))"
      using Some le by (subst replace_loop.simps) (simp add: string_find_def ac_simps del: length_take)
    also have "\<dots> = Some ((done @ take i s @ det) @ replace_all org det ?rest)"
      using "1.IH" [OF "1.prems" Some] "1.prems" by blast
    finally show ?thesis
      using Some "1.prems" by (simp add: replace_all.simps [of org det s])
  qed
qed

section \<open>Lemmas: splitting\<close>

lemma store_parts_concat: "offset \<le> length data \<Longrightarrow>
    concat (map fst (store_parts data offset cover)) = drop offset data"
proof (induction data offset cover rule: store_parts.induct)
  case (1 data offset cover)
  show ?case
  proof (cases "offset < length data")
    case True
    let ?n = "min (length data - offset) OCALL_STORE_THRESHOLD"
    have "concat (map fst (store_parts data (offset + ?n) False)) = drop (offset + ?n) data"
      using "1.IH" [OF True refl] True by simp
    with True show ?thesis
      by (simp add: store_parts.simps [of data offset cover] Let_def)
        (metis append_take_drop_id drop_drop add.commute)
  next
    case False
    with "1.prems" show ?thesis by (subst store_parts.simps) simp
  qed
qed

lemma store_parts_flags:
  "list_all (\<lambda>part. length (fst part) \<le> OCALL_STORE_THRESHOLD) (store_parts data offset cover) \<and>
   list_all (\<lambda>part. \<not> snd part) (store_parts data offset False)"
proof (induction data offset cover rule: store_parts.induct)
  case (1 data offset cover)
  show ?case
  proof (cases "offset < length data")
    case True
    note IH = "1.IH" [OF True refl]
    from True show ?thesis
      by (subst store_parts.simps, subst (2) store_parts.simps) (use IH in \<open>simp add: Let_def\<close>)
  next
    case False
    then show ?thesis by (subst store_parts.simps, subst (2) store_parts.simps) simp
  qed
qed

lemma store_large_data_shape:
  "\<exists>first rest. store_large_data data = (first, True) # rest \<and> list_all (\<lambda>part. \<not> snd part) rest \<and>
     first @ concat (map fst rest) = data \<and> (\<forall>part \<in> set (store_large_data data).
       length (fst part) \<le> OCALL_STORE_THRESHOLD)"
proof (cases "OCALL_STORE_THRESHOLD < length data")
  case True
  let ?n = "min (length data - 0) OCALL_STORE_THRESHOLD"
  have parts: "store_large_data data = (take ?n data, True) # store_parts data ?n False"
    using True by (auto simp: store_large_data_def store_parts.simps [of data 0] Let_def)
  have "concat (map fst (store_parts data ?n False)) = drop ?n data"
    by (rule store_parts_concat) simp
  moreover have "\<forall>part \<in> set (store_large_data data). length (fst part) \<le> OCALL_STORE_THRESHOLD"
    using True store_parts_flags [of data 0 True] by (simp add: store_large_data_def list_all_iff)
  ultimately show ?thesis using parts store_parts_flags by auto
next
  case False
  then show ?thesis by (simp add: store_large_data_def)
qed

section \<open>Properties\<close>

text \<open>
  Decoding the hexadecimal text of a non-empty buffer gives the buffer back, and the two
  encoders agree on every buffer.
\<close>

theorem hex_roundtrip:
  assumes "bs \<noteq> []" and "enc_malloc mm (length bs)" and "enc_malloc mm (length bs * 2)"
  shows "hex_string_to_bytes mm (hexstring_safe mm bs) (length (hexstring_safe mm bs)) = Some bs \<and>
    hexstring_safe mm bs = unsigned_char_array_to_hex_string bs"
proof -
  have "hexstring_safe mm bs = concat (map hex_digits bs)"
    using assms(3) by (simp add: hexstring_safe_def)
  moreover have "concat (map hex_digits bs) = unsigned_char_array_to_hex_string bs"
    by (simp add: unsigned_char_array_to_hex_string_def hex_digits_eq [abs_def])
  ultimately show ?thesis
    using hex_string_to_bytes_hex [OF assms(1,2)] by (metis length_concat_hex)
qed

theorem hex_roundtrip_witness:
  "hex_string_to_bytes mem_ok (hexstring_safe mem_ok [0x0a, 0xff]) 4 = Some [0x0a, 0xff :: byte]"
  using hex_roundtrip [of "[0x0a, 0xff]" mem_ok] by (auto simp: hexstring_safe_def)

text \<open>
  \<open>replace\<close> returns for every non-empty pattern, with every occurrence of the pattern
  rewritten from left to right, also when the replacement contains the pattern.
\<close>

theorem replace_returns:
  assumes "org \<noteq> []"
  shows "replace data org det = Some (replace_all org det data)"
  using replace_loop_eq [OF assms, of "[]" data det] by (simp add: replace_def)

theorem replace_returns_witness: "replace ''aXbX'' ''X'' ''XX'' = Some ''aXXbXX''"
proof -
  have "replace_all ''X'' ''XX'' ''aXbX'' = ''aXXbXX''"
    by (simp add: replace_all.simps find_sub.simps)
  with replace_returns [of "''X''" "''aXbX''" "''XX''"] show ?thesis by simp
qed

text \<open>
  The parts \<open>store_large_data\<close> hands out are never longer than the OCALL limit, only the
  first one starts afresh, and together they are the buffer.
\<close>

theorem store_large_data_complete:
  "concat (map fst (store_large_data data)) = data \<and>
   (\<exists>first rest. store_large_data data = (first, True) # rest \<and> list_all (\<lambda>part. \<not> snd part) rest) \<and>
   list_all (\<lambda>part. length (fst part) \<le> OCALL_STORE_THRESHOLD) (store_large_data data)"
  using store_large_data_shape [of data] by (auto simp: list_all_iff)

end
