(* ===== verification/EJson.thy ===== *)
theory EJson
  imports EUtils Complex_Main
begin

text \<open>
  The JSON values of \<open>src/enclave/utils/EJson.h\<close>: the value type, element access, the
  printer \<open>dump\<close> and the recursive-descent parser behind \<open>JSON::Load\<close>.

  Element access through \<open>operator[]\<close> converts a value of another class to an empty
  container first, as \<open>SetType\<close> does.  A read past the end of the parsed buffer and the
  exceptions of \<open>std::stol\<close> are error values of the parser.  Doubles are rationals, so the
  rounding of floating-point arithmetic is not modelled.
\<close>

section \<open>Values\<close>

datatype json =
    JNull
  | JObject "(string \<times> json) list"
  | JArray "json list"
  | JHash bytes
  | JString string
  | JFloating rat
  | JIntegral int
  | JBoolean bool

datatype json_class =
    Class_Null | Class_Object | Class_Array | Class_Hash
  | Class_String | Class_Floating | Class_Integral | Class_Boolean

fun JSONType :: "json \<Rightarrow> json_class" where
  "JSONType JNull = Class_Null"
| "JSONType (JObject _) = Class_Object"
| "JSONType (JArray _) = Class_Array"
| "JSONType (JHash _) = Class_Hash"
| "JSONType (JString _) = Class_String"
| "JSONType (JFloating _) = Class_Floating"
| "JSONType (JIntegral _) = Class_Integral"
| "JSONType (JBoolean _) = Class_Boolean"

text \<open>\<open>SetType\<close>: an unchanged value of the wanted class, otherwise a fresh one.\<close>

fun json_make :: "json_class \<Rightarrow> json" where
  "json_make Class_Null = JNull"
| "json_make Class_Object = JObject []"
| "json_make Class_Array = JArray []"
| "json_make Class_Hash = JHash (replicate 32 0)"
| "json_make Class_String = JString []"
| "json_make Class_Floating = JFloating 0"
| "json_make Class_Integral = JIntegral 0"
| "json_make Class_Boolean = JBoolean False"

definition SetType :: "json_class \<Rightarrow> json \<Rightarrow> json" where
  "SetType t j = (if JSONType j = t then j else json_make t)"

text \<open>Assigning a buffer to a value copies the first 32 bytes.\<close>

definition json_hash :: "bytes \<Rightarrow> json" where
  "json_hash v = JHash (take HASH_LENGTH v)"

section \<open>Element access\<close>

definition json_members :: "json \<Rightarrow> (string, json) omap" where
  "json_members j = (case SetType Class_Object j of JObject m \<Rightarrow> m | _ \<Rightarrow> [])"

definition json_get :: "json \<Rightarrow> string \<Rightarrow> json" where
  "json_get j k = (case map_of (json_members j) k of Some v \<Rightarrow> v | None \<Rightarrow> JNull)"

definition json_set :: "json \<Rightarrow> string \<Rightarrow> json \<Rightarrow> json" where
  "json_set j k v = JObject (omap_upd k v (json_members j))"

definition json_elems :: "json \<Rightarrow> json list" where
  "json_elems j = (case SetType Class_Array j of JArray l \<Rightarrow> l | _ \<Rightarrow> [])"

definition json_index :: "json \<Rightarrow> nat \<Rightarrow> json" where
  "json_index j i = (let l = json_elems j in if i < length l then l ! i else JNull)"

definition json_set_index :: "json \<Rightarrow> nat \<Rightarrow> json \<Rightarrow> json" where
  "json_set_index j i v =
     (let l = json_elems j; l' = l @ replicate (Suc i - length l) JNull in JArray (l'[i := v]))"

definition json_append :: "json \<Rightarrow> json \<Rightarrow> json" where
  "json_append j v = JArray (json_elems j @ [v])"

fun get_char :: "json \<Rightarrow> nat \<Rightarrow> char" where
  "get_char (JString s) i = (if length s \<le> i then CHR 0x00 else s ! i)"
| "get_char _ i = CHR 0x00"

fun set_char :: "json \<Rightarrow> nat \<Rightarrow> char \<Rightarrow> json" where
  "set_char (JString s) i c =
     (if length s < i then JString s
      else if i = length s then JString (s @ [c])
      else JString (s[i := c]))"
| "set_char j i c = j"

fun json_length :: "json \<Rightarrow> int" where
  "json_length (JArray l) = int (length l)"
| "json_length (JHash _) = 32"
| "json_length _ = -1"

fun hasKey :: "json \<Rightarrow> string \<Rightarrow> bool" where
  "hasKey (JObject m) k = (map_of m k \<noteq> None)"
| "hasKey _ k = False"

fun json_size :: "json \<Rightarrow> int" where
  "json_size (JObject m) = int (length m)"
| "json_size (JArray l) = int (length l)"
| "json_size (JHash _) = 32"
| "json_size _ = -1"

fun ToBytes :: "json \<Rightarrow> bytes option" where
  "ToBytes (JHash h) = Some h"
| "ToBytes _ = None"

fun ToInt :: "json \<Rightarrow> int" where
  "ToInt (JIntegral i) = i"
| "ToInt _ = 0"

fun ToFloat :: "json \<Rightarrow> rat" where
  "ToFloat (JFloating r) = r"
| "ToFloat _ = 0"

fun ToBool :: "json \<Rightarrow> bool" where
  "ToBool (JBoolean b) = b"
| "ToBool _ = False"

section \<open>Printing\<close>

abbreviation (input) dquote :: char where "dquote \<equiv> CHR 0x22"
abbreviation (input) backslash :: char where "backslash \<equiv> CHR 0x5C"
abbreviation (input) newline :: char where "newline \<equiv> CHR 0x0A"

definition escape_char :: "char \<Rightarrow> string" where
  "escape_char c =
     (if c = dquote then [backslash, dquote]
      else if c = backslash then [backslash, backslash]
      else if c = CHR 0x08 then [backslash, CHR ''b'']
      else if c = CHR 0x0C then [backslash, CHR ''f'']
      else if c = newline then [backslash, CHR ''n'']
      else if c = CHR 0x0D then [backslash, CHR ''r'']
      else if c = CHR 0x09 then [backslash, CHR ''t'']
      else [c])"

definition json_escape :: "string \<Rightarrow> string" where
  "json_escape s = concat (map escape_char s)"

definition json_hexstring :: "malloc \<Rightarrow> bytes \<Rightarrow> string" where
  "json_hexstring mm src =
     (if mm (length src * 2) 0 then concat (map hex_digits src) else [])"

fun ToString :: "malloc \<Rightarrow> json \<Rightarrow> string" where
  "ToString mm (JString s) = json_escape s"
| "ToString mm (JHash h) = json_hexstring mm h"
| "ToString mm (JIntegral i) = to_string_int i"
| "ToString mm _ = []"

text \<open>\<open>std::to_string\<close> of a double prints six decimals.\<close>

definition to_string_rat :: "rat \<Rightarrow> string" where
  "to_string_rat r =
     (let n = nat (round (\<bar>r\<bar> * 1000000));
          frac = to_string (n mod 1000000)
      in (if r < 0 then ''-'' else []) @ to_string (n div 1000000) @ ''.'' @
         replicate (6 - length frac) (CHR ''0'') @ frac)"

definition json_pad :: "nat \<Rightarrow> string" where
  "json_pad depth = concat (replicate depth ''  '')"

fun dump :: "malloc \<Rightarrow> nat \<Rightarrow> json \<Rightarrow> string"
and dump_members :: "malloc \<Rightarrow> nat \<Rightarrow> bool \<Rightarrow> (string \<times> json) list \<Rightarrow> string"
and dump_items :: "malloc \<Rightarrow> nat \<Rightarrow> bool \<Rightarrow> json list \<Rightarrow> string" where
  "dump mm depth JNull = ''null''"
| "dump mm depth (JObject m) =
     ''{'' @ [newline] @ dump_members mm depth True m @ [newline] @ drop 2 (json_pad depth) @ ''}''"
| "dump mm depth (JArray l) = ''['' @ dump_items mm depth True l @ '']''"
| "dump mm depth (JHash h) = [dquote] @ HASH_TAG @ json_hexstring mm h @ [dquote]"
| "dump mm depth (JString s) = [dquote] @ json_escape s @ [dquote]"
| "dump mm depth (JFloating r) = to_string_rat r"
| "dump mm depth (JIntegral i) = to_string_int i"
| "dump mm depth (JBoolean b) = (if b then ''true'' else ''false'')"
| "dump_members mm depth skip [] = []"
| "dump_members mm depth skip ((k, v) # m) =
     (if skip then [] else '','' @ [newline]) @
     json_pad depth @ [dquote] @ k @ [dquote] @ '' : '' @ dump mm (Suc depth) v @
     dump_members mm depth False m"
| "dump_items mm depth skip [] = []"
| "dump_items mm depth skip (v # l) =
     (if skip then [] else '', '') @ dump mm (Suc depth) v @ dump_items mm depth False l"

text \<open>The default arguments of \<open>dump\<close>.\<close>

abbreviation (input) json_dump :: "malloc \<Rightarrow> json \<Rightarrow> string" where
  "json_dump mm j \<equiv> dump mm 1 j"

text \<open>
  The callers that store a printed value strip line breaks, backslashes and blanks from it
  (three calls of \<open>remove_char\<close>).
\<close>

definition strip_dump :: "string \<Rightarrow> string" where
  "strip_dump s = remove_char (remove_char (remove_char s newline) backslash) (CHR '' '')"

section \<open>Parsing\<close>

text \<open>
  What can end a parse other than a value: a read past the end of the buffer, an exception of
  \<open>std::stol\<close> or \<open>std::stod\<close>, and the bound on the depth of the model's recursion.
\<close>

datatype parse_error = Read_Past_End | Number_Exception | Out_Of_Fuel

type_synonym 'a parsed = "parse_error + 'a"

definition pbind :: "'a parsed \<Rightarrow> ('a \<Rightarrow> 'b parsed) \<Rightarrow> 'b parsed" where
  "pbind r f = (case r of Inl e \<Rightarrow> Inl e | Inr x \<Rightarrow> f x)"

text \<open>
  The header has every parsing function twice, over \<open>std::string\<close> and over a raw buffer.
  A \<open>std::string\<close> has a readable terminator behind its last character, a raw buffer has
  not; the flag \<open>raw\<close> tells them apart.
\<close>

definition rd :: "bool \<Rightarrow> string \<Rightarrow> nat \<Rightarrow> char parsed" where
  "rd raw str i =
     (if i < length str then Inr (str ! i)
      else if i = length str \<and> \<not> raw then Inr (CHR 0x00)
      else Inl Read_Past_End)"

definition isspace :: "char \<Rightarrow> bool" where
  "isspace c \<longleftrightarrow> c \<in> {CHR 0x09, CHR 0x0A, CHR 0x0B, CHR 0x0C, CHR 0x0D, CHR 0x20}"

function consume_ws :: "bool \<Rightarrow> string \<Rightarrow> nat \<Rightarrow> nat parsed" where
  "consume_ws raw str offset =
     (if offset < length str \<and> isspace (str ! offset) then consume_ws raw str (Suc offset)
      else pbind (rd raw str offset) (\<lambda>_. Inr offset))"
  by pat_completeness auto
termination
  by (relation "measure (\<lambda>(raw, str, offset). length str - offset)") auto

declare consume_ws.simps [simp del]

definition is_hex :: "char \<Rightarrow> bool" where
  "is_hex c \<longleftrightarrow> is_digit c \<or> (97 \<le> (of_char c :: nat) \<and> of_char c \<le> (102 :: nat)) \<or>
     (65 \<le> (of_char c :: nat) \<and> of_char c \<le> (70 :: nat))"

text \<open>The four digits of a unicode escape; \<open>None\<close> when one of them is not hexadecimal.\<close>

fun unicode_digits :: "bool \<Rightarrow> string \<Rightarrow> nat \<Rightarrow> nat \<Rightarrow> string \<Rightarrow> string option parsed" where
  "unicode_digits raw str offset 0 val = Inr (Some val)"
| "unicode_digits raw str offset (Suc n) val =
     pbind (rd raw str offset) (\<lambda>c.
       if is_hex c then unicode_digits raw str (Suc offset) n (val @ [c]) else Inr None)"

text \<open>The character a one-letter escape stands for; an unknown one leaves a backslash.\<close>

definition unescape :: "char \<Rightarrow> char" where
  "unescape e =
     (if e = dquote then dquote else if e = backslash then backslash
      else if e = CHR ''/'' then CHR ''/'' else if e = CHR ''b'' then CHR 0x08
      else if e = CHR ''f'' then CHR 0x0C else if e = CHR ''n'' then newline
      else if e = CHR ''r'' then CHR 0x0D else if e = CHR ''t'' then CHR 0x09
      else backslash)"

text \<open>
  The loop of \<open>parse_string\<close> from the character at \<open>offset\<close>.  \<open>Inl\<close> of the inner sum
  is the early return of an empty string inside a malformed unicode escape.
\<close>

function parse_chars :: "bool \<Rightarrow> string \<Rightarrow> nat \<Rightarrow> string \<Rightarrow> (nat + string \<times> nat) parsed" where
  "parse_chars raw str offset val =
     (if length str \<le> offset then Inl Read_Past_End
      else let c = str ! offset in
      if c = dquote then Inr (Inr (val, offset))
      else if c = backslash then
        pbind (rd raw str (Suc offset)) (\<lambda>e.
          if e = CHR ''u'' then
            (case unicode_digits raw str (offset + 2) 4 (val @ [backslash, CHR ''u'']) of
               Inl err \<Rightarrow> Inl err
             | Inr None \<Rightarrow> Inr (Inl (Suc offset))
             | Inr (Some val') \<Rightarrow> parse_chars raw str (offset + 6) val')
          else
            parse_chars raw str (offset + 2) (val @ [unescape e]))
      else parse_chars raw str (Suc offset) (val @ [c]))"
  by pat_completeness auto
termination
  by (relation "measure (\<lambda>(raw, str, offset, val). length str - offset)") auto

declare parse_chars.simps [simp del]

definition parse_string :: "malloc \<Rightarrow> bool \<Rightarrow> string \<Rightarrow> nat \<Rightarrow> (json \<times> nat) parsed" where
  "parse_string mm raw str offset =
     pbind (parse_chars raw str (Suc offset) []) (\<lambda>r. case r of
       Inl off \<Rightarrow> Inr (JString [], off)
     | Inr (val, off) \<Rightarrow>
         if take (length HASH_TAG) val = HASH_TAG then
           let val' = drop (length HASH_TAG) val in
           (case hex_string_to_bytes mm val' (length val') of
              Some p_hash \<Rightarrow> Inr (json_hash p_hash, Suc off)
            | None \<Rightarrow> Inr (JString val', Suc off))
         else Inr (JString val, Suc off))"

text \<open>\<open>std::stol\<close> and \<open>std::stod\<close> on the characters a number is made of.\<close>

definition LONG_MAX :: int where "LONG_MAX = 2 ^ 63 - 1"

definition stol :: "string \<Rightarrow> int parsed" where
  "stol s =
     (let neg = (s \<noteq> [] \<and> hd s = CHR ''-''); r = (if neg then tl s else s);
          ds = takeWhile is_digit r; v = int (decimal_value ds)
      in if ds = [] then Inl Number_Exception
         else if neg then (if LONG_MAX + 1 < v then Inl Number_Exception else Inr (- v))
         else (if LONG_MAX < v then Inl Number_Exception else Inr v))"

definition stod :: "string \<Rightarrow> rat parsed" where
  "stod s =
     (let neg = (s \<noteq> [] \<and> hd s = CHR ''-''); r = (if neg then tl s else s);
          ip = takeWhile is_digit r; r' = dropWhile is_digit r;
          fp = (if r' \<noteq> [] \<and> hd r' = CHR ''.'' then takeWhile is_digit (tl r') else []);
          v = of_nat (decimal_value ip) + of_nat (decimal_value fp) / 10 ^ length fp
      in if ip = [] \<and> fp = [] then Inl Number_Exception else Inr (if neg then - v else v))"

definition pow10 :: "int \<Rightarrow> rat" where
  "pow10 e = (if e < 0 then 1 / 10 ^ nat (- e) else 10 ^ nat e)"

definition ends_number :: "char \<Rightarrow> bool" where
  "ends_number c \<longleftrightarrow> isspace c \<or> c = CHR '','' \<or> c = CHR '']'' \<or> c = CHR ''}''"

text \<open>
  The mantissa loop: the characters taken, whether one of them is a point, the character that
  ended it, and the offset behind that character.
\<close>

function number_chars ::
  "bool \<Rightarrow> string \<Rightarrow> nat \<Rightarrow> string \<Rightarrow> bool \<Rightarrow> (string \<times> bool \<times> char \<times> nat) parsed" where
  "number_chars raw str offset val isDouble =
     (if length str \<le> offset then pbind (rd raw str offset) (\<lambda>c. Inr (val, isDouble, c, Suc offset))
      else let c = str ! offset in
      if c = CHR ''-'' \<or> is_digit c then number_chars raw str (Suc offset) (val @ [c]) isDouble
      else if c = CHR ''.'' then number_chars raw str (Suc offset) (val @ [c]) True
      else Inr (val, isDouble, c, Suc offset))"
  by pat_completeness auto
termination
  by (relation "measure (\<lambda>(raw, str, offset, val, d). length str - offset)") auto

declare number_chars.simps [simp del]

text \<open>The exponent loop; \<open>None\<close> is its error return.\<close>

function exponent_chars :: "bool \<Rightarrow> string \<Rightarrow> nat \<Rightarrow> string \<Rightarrow> ((string \<times> nat) option \<times> nat) parsed" where
  "exponent_chars raw str offset exp_str =
     (if length str \<le> offset then pbind (rd raw str offset) (\<lambda>c. Inr (None, Suc offset))
      else let c = str ! offset in
      if is_digit c then exponent_chars raw str (Suc offset) (exp_str @ [c])
      else if \<not> ends_number c then Inr (None, Suc offset)
      else Inr (Some (exp_str, Suc offset), Suc offset))"
  by pat_completeness auto
termination
  by (relation "measure (\<lambda>(raw, str, offset, val). length str - offset)") auto

declare exponent_chars.simps [simp del]

definition parse_number :: "bool \<Rightarrow> string \<Rightarrow> nat \<Rightarrow> (json \<times> nat) parsed" where
  "parse_number raw str offset =
     pbind (number_chars raw str offset [] False) (\<lambda>(val, isDouble, c, off).
       if c = CHR ''E'' \<or> c = CHR ''e'' then
         pbind (rd raw str off) (\<lambda>c2.
         pbind (exponent_chars raw str (if c2 = CHR ''-'' then off + 2 else Suc off)
                  (if c2 = CHR ''-'' then ''-'' else [])) (\<lambda>r. case r of
           (None, off') \<Rightarrow> Inr (JNull, off')
         | (Some (exp_str, off'), _) \<Rightarrow>
             pbind (stol exp_str) (\<lambda>exp.
             if isDouble then pbind (stod val) (\<lambda>m. Inr (JFloating (m * pow10 exp), off' - 1))
             else pbind (stol val) (\<lambda>m. Inr (JFloating (of_int m * pow10 exp), off' - 1)))))
       else if \<not> ends_number c then Inr (JNull, off)
       else if isDouble then pbind (stod val) (\<lambda>m. Inr (JFloating m, off - 1))
       else pbind (stol val) (\<lambda>m. Inr (JIntegral m, off - 1)))"

definition substr :: "string \<Rightarrow> nat \<Rightarrow> nat \<Rightarrow> string" where
  "substr s pos n = take n (drop pos s)"

definition parse_bool :: "string \<Rightarrow> nat \<Rightarrow> (json \<times> nat) parsed" where
  "parse_bool str offset =
     (if substr str offset 4 = ''true'' then Inr (JBoolean True, offset + 4)
      else if substr str offset 5 = ''false'' then Inr (JBoolean False, offset + 5)
      else Inr (JNull, offset))"

text \<open>
  Over a \<open>std::string\<close> the word \<open>null\<close> is consumed; over a raw buffer the test is the
  other way round, so the word is left in the input and anything else is skipped.
\<close>

definition parse_null :: "bool \<Rightarrow> string \<Rightarrow> nat \<Rightarrow> (json \<times> nat) parsed" where
  "parse_null raw str offset =
     (if raw then
        (if substr str offset 4 = ''null'' then Inr (JNull, offset) else Inr (JNull, offset + 4))
      else
        (if substr str offset 4 \<noteq> ''null'' then Inr (JNull, offset) else Inr (JNull, offset + 4)))"

fun parse_next :: "malloc \<Rightarrow> bool \<Rightarrow> nat \<Rightarrow> string \<Rightarrow> nat \<Rightarrow> (json \<times> nat) parsed"
and parse_array_loop :: "malloc \<Rightarrow> bool \<Rightarrow> nat \<Rightarrow> string \<Rightarrow> nat \<Rightarrow> json list \<Rightarrow> (json \<times> nat) parsed"
and parse_object_loop ::
  "malloc \<Rightarrow> bool \<Rightarrow> nat \<Rightarrow> string \<Rightarrow> nat \<Rightarrow> (string, json) omap \<Rightarrow> (json \<times> nat) parsed" where
  "parse_next mm raw 0 str offset = Inl Out_Of_Fuel"
| "parse_next mm raw (Suc fuel) str offset =
     pbind (consume_ws raw str offset) (\<lambda>off.
     pbind (rd raw str off) (\<lambda>value.
       if value = CHR ''['' then
         pbind (consume_ws raw str (Suc off)) (\<lambda>o2. pbind (rd raw str o2) (\<lambda>c.
           if c = CHR '']'' then Inr (JArray [], Suc o2)
           else parse_array_loop mm raw fuel str o2 []))
       else if value = CHR ''{'' then
         pbind (consume_ws raw str (Suc off)) (\<lambda>o2. pbind (rd raw str o2) (\<lambda>c.
           if c = CHR ''}'' then Inr (JObject [], Suc o2)
           else parse_object_loop mm raw fuel str o2 []))
       else if value = dquote then parse_string mm raw str off
       else if value = CHR ''t'' \<or> value = CHR ''f'' then parse_bool str off
       else if value = CHR ''n'' then parse_null raw str off
       else if is_digit value \<or> value = CHR ''-'' then parse_number raw str off
       else Inr (JNull, off)))"
| "parse_array_loop mm raw 0 str offset acc = Inl Out_Of_Fuel"
| "parse_array_loop mm raw (Suc fuel) str offset acc =
     pbind (parse_next mm raw fuel str offset) (\<lambda>(v, o1).
     pbind (consume_ws raw str o1) (\<lambda>o2. pbind (rd raw str o2) (\<lambda>c.
       if c = CHR '','' then parse_array_loop mm raw fuel str (Suc o2) (acc @ [v])
       else if c = CHR '']'' then Inr (JArray (acc @ [v]), Suc o2)
       else Inr (JArray [], o2))))"
| "parse_object_loop mm raw 0 str offset acc = Inl Out_Of_Fuel"
| "parse_object_loop mm raw (Suc fuel) str offset acc =
     pbind (parse_next mm raw fuel str offset) (\<lambda>(key, o1).
     pbind (consume_ws raw str o1) (\<lambda>o2. pbind (rd raw str o2) (\<lambda>c.
       if c \<noteq> CHR '':'' then Inr (JObject acc, o2)
       else
         pbind (consume_ws raw str (Suc o2)) (\<lambda>o3.
         pbind (parse_next mm raw fuel str o3) (\<lambda>(v, o4).
         let acc' = omap_upd (ToString mm key) v acc in
         pbind (consume_ws raw str o4) (\<lambda>o5. pbind (rd raw str o5) (\<lambda>d.
           if d = CHR '','' then parse_object_loop mm raw fuel str (Suc o5) acc'
           else if d = CHR ''}'' then Inr (JObject acc', Suc o5)
           else Inr (JObject acc', o5))))))))"

text \<open>
  \<open>JSON::Load\<close>.  The recursion of the parser is never deeper than twice the number of
  characters plus four, so that much fuel is always enough.
\<close>

definition json_fuel :: "string \<Rightarrow> nat" where
  "json_fuel str = 2 * length str + 4"

definition json_Load :: "malloc \<Rightarrow> bool \<Rightarrow> string \<Rightarrow> json parsed" where
  "json_Load mm raw str =
     (if str = [] then Inr JNull
      else pbind (parse_next mm raw (json_fuel str) str 0) (\<lambda>(j, _). Inr j))"

text \<open>
  A well-formed value: its members, if it has any, have distinct sorted keys.  Values that are
  not objects qualify, since storing a member turns them into objects.
\<close>

definition json_ok :: "json \<Rightarrow> bool" where
  "json_ok j \<longleftrightarrow> omap_ok (json_members j)"

text \<open>
  \<open>advances f i r\<close>: the result \<open>r\<close> of a parsing step that started at offset \<open>i\<close> is not
  an exhausted recursion bound, and the offset \<open>f\<close> finds in it has not moved back.
\<close>

definition advances :: "('a \<Rightarrow> nat) \<Rightarrow> nat \<Rightarrow> 'a parsed \<Rightarrow> bool" where
  "advances f i r \<longleftrightarrow> (case r of Inl e \<Rightarrow> e \<noteq> Out_Of_Fuel | Inr x \<Rightarrow> i \<le> f x)"

section \<open>Lemmas: element access\<close>

lemma json_members_simps [json_simps]:
  "json_members JNull = []"
  "json_members (JObject m) = m"
  "json_members (json_set j k v) = omap_upd k v (json_members j)"
  by (simp_all add: json_members_def SetType_def json_set_def)

lemma json_get_Object [json_simps]:
  "json_get (JObject m) k = (case map_of m k of Some v \<Rightarrow> v | None \<Rightarrow> JNull)"
  by (simp add: json_get_def json_members_def SetType_def)

interpretation json_obj: dictionary JNull "\<lambda>k v j. json_set j k v" "\<lambda>j. map_of (json_members j)" json_ok
  by unfold_locales (simp_all add: json_ok_def json_members_simps omap_simps)

lemmas json_ok_set [json_simps] = json_obj.ok_upd

lemma json_ok_plain [json_simps]: "json_ok JNull" "json_ok (JIntegral n)" "json_ok (JString s)"
  by (simp_all add: json_ok_def json_members_def SetType_def omap_simps)

lemma json_get_plain [json_simps]: "json_get JNull k = JNull"
  by (simp add: json_get_def json_members_def SetType_def)

lemma json_get_set [json_simps]:
  "json_ok j \<Longrightarrow> json_get (json_set j k v) l = (if l = k then v else json_get j l)"
  by (simp add: json_get_def json_obj.get_upd)

lemma hasKey_members: "hasKey j k \<longleftrightarrow> map_of (json_members j) k \<noteq> None"
  by (cases j) (simp_all add: json_members_def SetType_def)

lemma hasKey_set [json_simps]:
  "json_ok j \<Longrightarrow> hasKey (json_set j k v) l \<longleftrightarrow> l = k \<or> hasKey j l"
  by (simp add: hasKey_members json_obj.get_upd)

lemma json_index_Array [json_simps]: "i < length l \<Longrightarrow> json_index (JArray l) i = l ! i"
  by (simp add: json_index_def json_elems_def SetType_def)

lemma get_set_char [json_simps]:
  "get_char (set_char (JString s) i c) j =
     (if i \<le> length s \<and> j = i then c else get_char (JString s) j)"
  by (auto simp: nth_append)

section \<open>Lemmas: the parser\<close>

lemma pbind_Inr_iff: "pbind r f = Inr y \<longleftrightarrow> (\<exists>x. r = Inr x \<and> f x = Inr y)"
  by (simp add: pbind_def split: sum.splits)

lemma pbind_Inl_iff: "pbind r f = Inl e \<longleftrightarrow> r = Inl e \<or> (\<exists>x. r = Inr x \<and> f x = Inl e)"
  by (auto simp: pbind_def split: sum.splits)

lemmas pbind_iffs = pbind_Inr_iff pbind_Inl_iff

lemma advances_simps [simp]:
  "advances f i (Inl e) \<longleftrightarrow> e \<noteq> Out_Of_Fuel"
  "advances f i (Inr x) \<longleftrightarrow> i \<le> f x"
  by (simp_all add: advances_def)

lemma advances_bind:
  assumes "advances f i r" and "\<And>x. r = Inr x \<Longrightarrow> i \<le> f x \<Longrightarrow> advances g j (h x)"
  shows "advances g j (pbind r h)"
  using assms by (cases r) (auto simp: pbind_def)

lemma advances_le: "advances f i r \<Longrightarrow> j \<le> i \<Longrightarrow> advances f j r"
  by (cases r) auto

lemma advances_not_fuel: "advances f i r \<Longrightarrow> r \<noteq> Inl Out_Of_Fuel"
  by (cases r) auto

lemma advances_rd [simp]: "advances (\<lambda>_. i) i (rd raw str j)"
  by (simp add: rd_def)

lemma rd_Inr: "rd raw str i = Inr c \<Longrightarrow> c \<noteq> CHR 0x00 \<Longrightarrow> i < length str"
  by (auto simp: rd_def split: if_splits)

lemma advances_consume_ws [simp]: "advances (\<lambda>o'. o') i (consume_ws raw str i)"
proof (induction raw str i rule: consume_ws.induct)
  case (1 raw str i)
  then show ?case
    by (subst consume_ws.simps) (auto intro: advances_le advances_bind [OF advances_rd])
qed

lemma advances_unicode_digits: "advances (\<lambda>_. i) i (unicode_digits raw str j n v)"
  by (induction raw str j n v rule: unicode_digits.induct) (auto intro: advances_bind [OF advances_rd])

lemma advances_parse_chars: "advances (case_sum (\<lambda>x. x) snd) i (parse_chars raw str i v)"
proof (induction raw str i v rule: parse_chars.induct)
  case (1 raw str i v)
  let ?u = "unicode_digits raw str (i + 2) 4 (v @ [backslash, CHR ''u''])"
  note step = parse_chars.simps [of raw str i v]
  show ?case
  proof (cases "length str \<le> i \<or> str ! i = dquote")
    case True
    then show ?thesis by (auto simp: step Let_def)
  next
    case False
    then have i: "\<not> length str \<le> i" "str ! i \<noteq> dquote" by auto
    show ?thesis
    proof (cases "str ! i = backslash")
      case True
      have uni: "advances (case_sum (\<lambda>x. x) snd) i (parse_chars raw str (i + 6) val')"
        if "?u = Inr (Some val')" for val'
        using "1.IH"(1) [OF i(1) refl i(2) True refl that refl] by (rule advances_le) simp
      let ?g = "case_sum (\<lambda>x. x) snd"
      have esc: "advances ?g i (parse_chars raw str (i + 2) (v @ [unescape e]))"
        if "e \<noteq> CHR ''u''" for e
        using "1.IH"(2) [OF i(1) refl i(2) True that] by (rule advances_le) simp
      let ?case_u = "case ?u of Inl err \<Rightarrow> Inl err | Inr None \<Rightarrow> Inr (Inl (Suc i))
           | Inr (Some val') \<Rightarrow> parse_chars raw str (i + 6) val'"
      have "advances (\<lambda>_. i) i ?u" by (rule advances_unicode_digits)
      with uni have u: "advances ?g i ?case_u"
        by (cases ?u) (simp_all split: option.split)
      have eq: "parse_chars raw str i v = pbind (rd raw str (Suc i)) (\<lambda>e.
          if e = CHR ''u'' then ?case_u else parse_chars raw str (i + 2) (v @ [unescape e]))"
        using i True by (subst step) (simp only: Let_def if_False if_True simp_thms)
      have "advances ?g i (if e = CHR ''u'' then ?case_u
          else parse_chars raw str (i + 2) (v @ [unescape e]))" for e
        using u esc by (simp only: if_split) blast
      then show ?thesis unfolding eq by (intro advances_bind [OF advances_rd [of i]])
    next
      case False
      have "advances (case_sum (\<lambda>x. x) snd) i (parse_chars raw str (Suc i) (v @ [str ! i]))"
        using "1.IH"(3) [OF i(1) refl i(2) False] by (rule advances_le) simp
      then show ?thesis using i False by (simp add: step Let_def)
    qed
  qed
qed

lemma advances_parse_string: "advances snd i (parse_string mm raw str i)"
  unfolding parse_string_def
  by (rule advances_bind [OF advances_parse_chars])
    (auto simp: Let_def split: sum.splits option.split)

lemma advances_number_chars:
  "advances (\<lambda>(_, _, _, off). off - 1) i (number_chars raw str i v d)"
proof (induction raw str i v d rule: number_chars.induct)
  case (1 raw str i v d)
  note step = number_chars.simps [of raw str i v d]
  show ?case
  proof (cases "length str \<le> i")
    case True
    then show ?thesis by (auto simp: step intro!: advances_bind [OF advances_rd [of i]])
  next
    case False
    then show ?thesis
      using "1.IH" [OF False refl, THEN advances_le, of i] by (auto simp: step Let_def)
  qed
qed

lemma advances_exponent_chars:
  "advances (\<lambda>(r, off). case r of None \<Rightarrow> off | Some (_, off') \<Rightarrow> off' - 1) i
     (exponent_chars raw str i v)"
proof (induction raw str i v rule: exponent_chars.induct)
  case (1 raw str i v)
  note step = exponent_chars.simps [of raw str i v]
  show ?case
  proof (cases "length str \<le> i")
    case True
    then show ?thesis by (auto simp: step intro!: advances_bind [OF advances_rd [of i]])
  next
    case False
    then show ?thesis
      using "1.IH" [OF False refl, THEN advances_le, of i] by (auto simp: step Let_def)
  qed
qed

lemma advances_stol: "advances (\<lambda>_. i) i (stol s)"
  by (simp add: stol_def Let_def)

lemma advances_stod: "advances (\<lambda>_. i) i (stod s)"
  by (simp add: stod_def Let_def)

lemma advances_parse_number: "advances snd i (parse_number raw str i)"
proof -
  have exp: "advances snd i (pbind (rd raw str off) (\<lambda>c2.
         pbind (exponent_chars raw str (if c2 = CHR ''-'' then off + 2 else Suc off)
                  (if c2 = CHR ''-'' then ''-'' else [])) (\<lambda>r. case r of
           (None, off') \<Rightarrow> Inr (JNull, off')
         | (Some (exp_str, off'), _) \<Rightarrow>
             pbind (stol exp_str) (\<lambda>exp.
             if d then pbind (stod v) (\<lambda>m. Inr (JFloating (m * pow10 exp), off' - 1))
             else pbind (stol v) (\<lambda>m. Inr (JFloating (of_int m * pow10 exp), off' - 1))))))"
    if "i \<le> off - 1" for off d v
    using that
    by (intro advances_bind [OF advances_rd [of i]] advances_bind [OF advances_exponent_chars])
      (auto split: option.split prod.split if_splits
        intro!: advances_bind [OF advances_stol [of i]] advances_bind [OF advances_stod [of i]])
  show ?thesis
    unfolding parse_number_def
    by (rule advances_bind [OF advances_number_chars])
      (auto simp: exp intro!: advances_bind [OF advances_stol [of i]] advances_bind [OF advances_stod [of i]])
qed

lemma advances_parse_words:
  "advances snd i (parse_bool str i)" "advances snd i (parse_null raw str i)"
  by (simp_all add: parse_bool_def parse_null_def)

lemma advances_if:
  "(b \<Longrightarrow> advances f i x) \<Longrightarrow> (\<not> b \<Longrightarrow> advances f i y) \<Longrightarrow> advances f i (if b then x else y)"
  by simp

lemmas advances_intros =
  advances_bind [OF advances_consume_ws] advances_bind [OF advances_rd [of 0]] advances_if

lemma fuel_left:
  "i \<le> off \<Longrightarrow> rd raw str off = Inr c \<Longrightarrow> c \<noteq> CHR 0x00 \<Longrightarrow> Suc off \<le> o2 \<Longrightarrow>
     2 * (length str - i) + 2 \<le> Suc fuel \<Longrightarrow> 2 * (length str - o2) + 3 \<le> fuel"
  using rd_Inr [of raw str off c] by simp

lemma parse_fuel:
  "2 * (length str - i) + 2 \<le> fuel \<Longrightarrow> advances snd i (parse_next mm raw fuel str i)"
  "2 * (length str - i) + 3 \<le> fuel \<Longrightarrow> advances snd i (parse_array_loop mm raw fuel str i l)"
  "2 * (length str - i) + 3 \<le> fuel \<Longrightarrow> advances snd i (parse_object_loop mm raw fuel str i m)"
proof (induction mm raw fuel str i and mm raw fuel str i l and mm raw fuel str i m
    rule: parse_next_parse_array_loop_parse_object_loop.induct)
  case (2 mm raw fuel str i)
  have arr: "advances snd i (parse_array_loop mm raw fuel str o2 [])"
    if "i \<le> off" "rd raw str off = Inr v" "v = CHR ''[''" "Suc off \<le> o2" "c \<noteq> CHR '']''" for off v o2 c
    by (rule advances_le [OF "2.IH"(1) [OF that(3,5) fuel_left [OF that(1,2) _ that(4) "2.prems"]]])
      (use that in simp_all)
  have obj: "advances snd i (parse_object_loop mm raw fuel str o2 [])"
    if "i \<le> off" "rd raw str off = Inr v" "v = CHR ''{''" "Suc off \<le> o2" "c \<noteq> CHR ''}''" for off v o2 c
    by (rule advances_le [OF "2.IH"(2) [OF _ that(3,5) fuel_left [OF that(1,2) _ that(4) "2.prems"]]])
      (use that in simp_all)
  note leaf = advances_le [OF advances_parse_string] advances_le [OF advances_parse_number]
    advances_le [OF advances_parse_words(1)] advances_le [OF advances_parse_words(2)]
  show ?case
    unfolding parse_next.simps
    by (intro advances_intros; (rule leaf, assumption | rule arr; assumption | rule obj; assumption
          | simp only: advances_simps snd_conv, linarith?))
next
  case (4 mm raw fuel str i l)
  have more: "advances snd i (parse_array_loop mm raw fuel str (Suc o2) (l @ [v]))"
    if "i \<le> o1" "o1 \<le> o2" "rd raw str o2 = Inr c" "c = CHR '',''" for v o1 o2 c
    by (rule advances_le [OF "4.IH"(2) [OF that(4) fuel_left [of i o2 raw str c]]])
      (use "4.prems" that in simp_all)
  have nxt: "advances snd i (parse_next mm raw fuel str i)"
    using "4.IH"(1) "4.prems" by simp
  show ?case
    unfolding parse_array_loop.simps split_def
    by (rule advances_bind [OF nxt], intro advances_intros; (rule more; assumption
          | simp only: advances_simps snd_conv, linarith?))
next
  case (6 mm raw fuel str i m)
  have first: "advances snd i (parse_next mm raw fuel str i)"
    using "6.IH"(1) "6.prems" by simp
  have second: "advances snd o3 (parse_next mm raw fuel str o3)"
    if "i \<le> o1" "o1 \<le> o2" "Suc o2 \<le> o3" "\<not> c \<noteq> CHR '':''" for o1 o2 o3 c
    using "6.IH"(2) [OF that(4)] "6.prems" that(1,2,3) by simp
  have more: "advances snd i (parse_object_loop mm raw fuel str (Suc o5) m')"
    if "\<not> c \<noteq> CHR '':''" "i \<le> o5" "rd raw str o5 = Inr d" "d = CHR '',''"
      "m' = omap_upd (ToString mm key) v m" for c key v m' o5 d
    by (rule advances_le [OF "6.IH"(3) [OF that(1,5,4) fuel_left [of i o5 raw str d]]])
      (use "6.prems" that in simp_all)
  show ?case
    unfolding parse_object_loop.simps split_def Let_def
    apply (rule advances_bind [OF first])
    apply (intro advances_intros; (simp only: advances_simps snd_conv, linarith?)?)
    apply (rule advances_bind [OF second], assumption+)
    apply (intro advances_intros; (simp only: advances_simps snd_conv, linarith?)?)
    apply (rule more [OF _ _ _ refl refl]; (assumption | linarith))
    done
qed simp_all

lemma json_Load_fuel: "json_Load mm raw str \<noteq> Inl Out_Of_Fuel"
  using parse_fuel(1) [of str 0 "json_fuel str" mm raw, THEN advances_not_fuel]
  by (auto simp: json_Load_def json_fuel_def pbind_Inl_iff)

section \<open>Properties\<close>

text \<open>
  C36. Parsing always ends: on every text, in both variants, \<open>JSON::Load\<close> returns a value or
  stops at one of the errors of the source, and never for want of recursion depth.
\<close>

theorem json_Load_ends:
  "(\<exists>j. json_Load mm raw str = Inr j) \<or> json_Load mm raw str = Inl Read_Past_End \<or>
     json_Load mm raw str = Inl Number_Exception"
proof (cases "json_Load mm raw str")
  case (Inl e)
  with json_Load_fuel [of mm raw str] show ?thesis by (cases e) auto
qed simp

end
