(* ===== verification/JsonText.thy ===== *)
theory JsonText
  imports EJson
begin

text \<open>
  The compact text of JSON values: what the persistence code stores after stripping blanks,
  line breaks and backslashes from a printed value.  For values whose strings need no escapes the
  stripped text is \<open>json_text\<close>, and the parser of \<open>EJson.h\<close> reads it back to the same
  value, in both variants.
\<close>

section \<open>Definitions\<close>

text \<open>Items with commas between them, as the loops of the serializers write them.\<close>

fun comma_sep :: "string list \<Rightarrow> string" where
  "comma_sep [] = []"
| "comma_sep [s] = s"
| "comma_sep (s # t # ss) = s @ '','' @ comma_sep (t # ss)"

text \<open>Characters that printing does not escape and stripping does not remove.\<close>

definition plain_char :: "char \<Rightarrow> bool" where
  "plain_char c \<longleftrightarrow> c \<notin> {dquote, backslash, newline, CHR '' '', CHR 0x08, CHR 0x0C, CHR 0x0D, CHR 0x09}"

definition plain :: "string \<Rightarrow> bool" where
  "plain s \<longleftrightarrow> list_all plain_char s \<and> take (length HASH_TAG) s \<noteq> HASH_TAG"

definition quoted :: "string \<Rightarrow> string" where
  "quoted s = dquote # s @ [dquote]"

text \<open>Values that survive printing, stripping and parsing.\<close>

fun simple :: "json \<Rightarrow> bool" where
  "simple (JObject m) \<longleftrightarrow> omap_ok m \<and> (\<forall>e \<in> set m. plain (fst e) \<and> simple (snd e))"
| "simple (JArray l) \<longleftrightarrow> (\<forall>v \<in> set l. simple v)"
| "simple (JHash h) \<longleftrightarrow> length h = HASH_LENGTH"
| "simple (JString s) \<longleftrightarrow> plain s"
| "simple (JIntegral i) \<longleftrightarrow> - LONG_MAX \<le> i \<and> i \<le> LONG_MAX"
| "simple _ \<longleftrightarrow> False"

fun json_text :: "json \<Rightarrow> string" where
  "json_text (JObject m) = ''{'' @ comma_sep (map (\<lambda>e. quoted (fst e) @ '':'' @ json_text (snd e)) m) @ ''}''"
| "json_text (JArray l) = ''['' @ comma_sep (map json_text l) @ '']''"
| "json_text (JHash h) = quoted (HASH_TAG @ concat (map hex_digits h))"
| "json_text (JString s) = quoted s"
| "json_text (JIntegral i) = to_string_int i"
| "json_text _ = []"

text \<open>The allocations the codec of hashes makes.\<close>

definition hash_memory :: "malloc \<Rightarrow> bool" where
  "hash_memory mm \<longleftrightarrow> mm (2 * HASH_LENGTH) 0 \<and> enc_malloc mm HASH_LENGTH"

section \<open>Lemmas: stripping\<close>

lemma comma_sep_Cons: "comma_sep (s # ss) = s @ (if ss = [] then [] else '','' @ comma_sep ss)"
  by (cases ss) simp_all

lemma strip_append [simp]: "strip_dump (s @ t) = strip_dump s @ strip_dump t"
  by (simp add: strip_dump_def remove_char_def)

lemma strip_Nil [simp]: "strip_dump [] = []"
  by (simp add: strip_dump_def remove_char_def)

lemma strip_Cons:
  "strip_dump (c # s) = (if c \<in> {newline, backslash, CHR '' ''} then [] else [c]) @ strip_dump s"
  by (simp add: strip_dump_def remove_char_def)

lemma strip_pad [simp]: "strip_dump (json_pad d) = []" "strip_dump (drop 2 (json_pad d)) = []"
proof -
  have "list_all (\<lambda>c. c = CHR '' '') (json_pad d)" by (induction d) (simp_all add: json_pad_def)
  then have "list_all (\<lambda>c. c = CHR '' '') s \<Longrightarrow> strip_dump s = []" for s
    by (induction s) (simp_all add: strip_Cons)
  moreover have "list_all (\<lambda>c. c = CHR '' '') (drop 2 (json_pad d))"
    using \<open>list_all _ (json_pad d)\<close> by (auto simp: list_all_iff dest: in_set_dropD)
  ultimately show "strip_dump (json_pad d) = []" "strip_dump (drop 2 (json_pad d)) = []"
    using \<open>list_all _ (json_pad d)\<close> by blast+
qed

lemma strip_plain: "list_all plain_char s \<Longrightarrow> strip_dump s = s"
  by (induction s) (simp_all add: strip_Cons plain_char_def)

lemma escape_plain: "list_all plain_char s \<Longrightarrow> json_escape s = s"
  by (induction s) (simp_all add: json_escape_def escape_char_def plain_char_def)

lemma plain_digit: "is_digit c \<Longrightarrow> plain_char c"
  by (auto simp: is_digit_def plain_char_def)

lemma plain_digits: "list_all is_digit s \<Longrightarrow> list_all plain_char s"
  by (induction s) (simp_all add: plain_digit)

lemma plain_punct: "plain_char (CHR ''-'')" "list_all plain_char HASH_TAG"
  by (simp_all add: plain_char_def)

lemma plain_to_string_int: "list_all plain_char (to_string_int i)"
  by (simp add: to_string_int_def plain_digits to_string_digits plain_punct)

lemma plain_hex: "list_all plain_char (concat (map hex_digits h))"
proof -
  have table: "list_all plain_char hextable" by (simp add: plain_char_def)
  have nib: "plain_char (hex_nibble n)" if "n < 16" for n
    using that table by (simp only: list_all_length hextable_nibble [symmetric]) simp
  have "list_all plain_char (hex_digits b)" for b
  proof -
    have "unat b div 16 < 16" using unat_byte_less [of b] by linarith
    then show ?thesis by (simp add: hex_digits_eq unsigned_char_to_hex_def nib)
  qed
  then show ?thesis by (induction h) simp_all
qed

lemma ToString_hex: "ToString mm (JString (concat (map hex_digits h))) = concat (map hex_digits h)"
  by (simp add: escape_plain plain_hex)

text \<open>The digits of a buffer, and that they are not taken for a tagged hash.\<close>

abbreviation hex :: "bytes \<Rightarrow> string" where
  "hex b \<equiv> concat (map hex_digits b)"

lemma not_tag: "s = [] \<or> hd s \<noteq> CHR ''$'' \<Longrightarrow> take (length HASH_TAG) s \<noteq> HASH_TAG"
  by (cases s) auto

lemma hex_not_tag: "take (length HASH_TAG) (hex b) \<noteq> HASH_TAG"
proof (rule not_tag)
  have "list_all (\<lambda>c. c \<noteq> CHR ''$'') hextable" by simp
  then have nib: "hex_nibble n \<noteq> CHR ''$''" if "n < 16" for n
    using that by (simp only: list_all_length hextable_nibble [symmetric]) simp
  show "hex b = [] \<or> hd (hex b) \<noteq> CHR ''$''"
  proof (cases b)
    case (Cons x xs)
    have "unat x div 16 < 16" using unat_byte_less [of x] by linarith
    then show ?thesis using Cons by (simp add: hex_digits_eq unsigned_char_to_hex_def nib)
  qed simp
qed

lemma plain_hex_string: "plain (hex b)"
  by (simp only: plain_def plain_hex hex_not_tag simp_thms)

lemma strip_quoted: "list_all plain_char s \<Longrightarrow> strip_dump (dquote # s @ [dquote]) = quoted s"
  by (simp add: strip_Cons strip_plain quoted_def)

lemma strip_dump_compact_aux:
  assumes "mm (2 * HASH_LENGTH) 0"
  shows "simple j \<Longrightarrow> strip_dump (dump mm d j) = json_text j"
    and "\<forall>e \<in> set m. plain (fst e) \<and> simple (snd e) \<Longrightarrow> strip_dump (dump_members mm d skip m) =
      (if skip \<or> m = [] then [] else '','') @ comma_sep (map (\<lambda>e. quoted (fst e) @ '':'' @ json_text (snd e)) m)"
    and "\<forall>v \<in> set l. simple v \<Longrightarrow> strip_dump (dump_items mm d skip l) =
      (if skip \<or> l = [] then [] else '','') @ comma_sep (map json_text l)"
  using assms
proof (induction mm d j and mm d skip m and mm d skip l rule: dump_dump_members_dump_items.induct)
  case (4 mm d h)
  then show ?case
    using strip_quoted [of "HASH_TAG @ concat (map hex_digits h)"] plain_hex [of h] plain_punct(2)
    by (simp add: json_hexstring_def)
next
  case (5 mm d s)
  then show ?case using strip_quoted [of s] by (simp add: plain_def escape_plain)
next
  case (10 mm d skip k v m)
  then show ?case
    by (simp add: strip_Cons strip_plain plain_def quoted_def comma_sep_Cons)
qed (simp_all add: strip_Cons strip_plain plain_to_string_int comma_sep_Cons)

lemma strip_dump_compact: "hash_memory mm \<Longrightarrow> simple j \<Longrightarrow> strip_dump (dump mm d j) = json_text j"
  by (simp add: strip_dump_compact_aux(1) hash_memory_def)

section \<open>Lemmas: parsing plain text\<close>

lemma rd_append [simp]: "rd raw (pre @ c # post) (length pre) = Inr c"
  by (simp add: rd_def)

lemma consume_ws_append: "\<not> isspace c \<Longrightarrow> consume_ws raw (pre @ c # post) (length pre) = Inr (length pre)"
  by (subst consume_ws.simps) (simp add: pbind_def)

lemma parse_chars_plain:
  "list_all plain_char s \<Longrightarrow> parse_chars raw (pre @ s @ dquote # post) (length pre) val =
     Inr (Inr (val @ s, length pre + length s))"
proof (induction s arbitrary: pre val)
  case Nil
  show ?case by (subst parse_chars.simps) simp
next
  case (Cons c s)
  have "parse_chars raw ((pre @ [c]) @ s @ dquote # post) (length (pre @ [c])) (val @ [c]) =
      Inr (Inr ((val @ [c]) @ s, length (pre @ [c]) + length s))"
    using Cons by (intro Cons.IH) simp
  moreover have "c \<noteq> dquote" "c \<noteq> backslash" using Cons.prems by (auto simp: plain_char_def)
  ultimately show ?case by (subst parse_chars.simps) simp
qed

lemma parse_string_plain:
  "list_all plain_char s \<Longrightarrow> parse_string mm raw (pre @ quoted s @ post) (length pre) =
     (if take (length HASH_TAG) s = HASH_TAG then
        let val' = drop (length HASH_TAG) s in
        (case hex_string_to_bytes mm val' (length val') of
           Some p_hash \<Rightarrow> Inr (json_hash p_hash, length pre + length (quoted s))
         | None \<Rightarrow> Inr (JString val', length pre + length (quoted s)))
      else Inr (JString s, length pre + length (quoted s)))"
  using parse_chars_plain [of s raw "pre @ [dquote]" post "[]"]
  by (simp add: parse_string_def quoted_def pbind_def Let_def split: option.split)

lemma number_chars_digits:
  "list_all (\<lambda>c. c = CHR ''-'' \<or> is_digit c) s \<Longrightarrow> ends_number t \<Longrightarrow>
     number_chars raw (pre @ s @ t # post) (length pre) val d = Inr (val @ s, d, t, Suc (length pre + length s))"
proof (induction s arbitrary: pre val)
  case Nil
  then have "\<not> (t = CHR ''-'' \<or> is_digit t)" "t \<noteq> CHR ''.''"
    by (auto simp: ends_number_def isspace_def is_digit_def)
  then show ?case by (subst number_chars.simps) simp
next
  case (Cons c s)
  have "number_chars raw ((pre @ [c]) @ s @ t # post) (length (pre @ [c])) (val @ [c]) d =
      Inr ((val @ [c]) @ s, d, t, Suc (length (pre @ [c]) + length s))"
    using Cons by (intro Cons.IH) simp_all
  then show ?case using Cons.prems by (subst number_chars.simps) simp
qed

lemma takeWhile_digits: "list_all is_digit s \<Longrightarrow> takeWhile is_digit s = s"
  by (induction s) simp_all

lemma not_digit_minus [simp]: "\<not> is_digit (CHR ''-'')"
  by (simp add: is_digit_def)

lemma stol_to_string_int: "- LONG_MAX \<le> i \<Longrightarrow> i \<le> LONG_MAX \<Longrightarrow> stol (to_string_int i) = Inr i"
proof -
  assume i: "- LONG_MAX \<le> i" "i \<le> LONG_MAX"
  have "hd (to_string n) \<noteq> CHR ''-''" for n
    using to_string_digits [of n] by (cases "to_string n") auto
  then show ?thesis
    using i by (auto simp: stol_def to_string_int_def takeWhile_digits to_string_digits)
qed

lemma to_string_int_chars: "list_all (\<lambda>c. c = CHR ''-'' \<or> is_digit c) (to_string_int i)"
proof -
  have "list_all is_digit s \<Longrightarrow> list_all (\<lambda>c. c = CHR ''-'' \<or> is_digit c) s" for s
    by (induction s) simp_all
  then show ?thesis by (simp add: to_string_int_def to_string_digits)
qed

lemma parse_number_int:
  assumes "- LONG_MAX \<le> i" and "i \<le> LONG_MAX" and "ends_number t"
  shows "parse_number raw (pre @ to_string_int i @ t # post) (length pre) =
    Inr (JIntegral i, length pre + length (to_string_int i))"
proof -
  have "t \<noteq> CHR ''E''" "t \<noteq> CHR ''e''" using assms(3) by (auto simp: ends_number_def isspace_def)
  then show ?thesis
    using number_chars_digits [OF to_string_int_chars [of i] assms(3), of raw pre post "[]" False] assms
    by (simp add: parse_number_def pbind_def stol_to_string_int)
qed

section \<open>Lemmas: parsing compact text\<close>

text \<open>
  \<open>reads mm j\<close>: wherever the compact text of \<open>j\<close> stands, the parser reads \<open>j\<close> and stops
  right behind it.  A number must be followed by a character that ends it.
\<close>

definition reads :: "malloc \<Rightarrow> json \<Rightarrow> bool" where
  "reads mm j \<longleftrightarrow> (\<forall>raw fuel pre post. 2 * length (json_text j) + 2 \<le> fuel \<longrightarrow>
     (JSONType j = Class_Integral \<longrightarrow> post \<noteq> [] \<and> ends_number (hd post)) \<longrightarrow>
     parse_next mm raw fuel (pre @ json_text j @ post) (length pre) =
       Inr (j, length pre + length (json_text j)))"

lemma readsD:
  "reads mm j \<Longrightarrow> 2 * length (json_text j) + 2 \<le> fuel \<Longrightarrow> ends_number t \<Longrightarrow>
     parse_next mm raw fuel (pre @ json_text j @ t # post) (length pre) = Inr (j, length pre + length (json_text j))"
  by (simp add: reads_def)

lemma not_space:
  "\<not> isspace dquote" "\<not> isspace (CHR ''{'')" "\<not> isspace (CHR ''['')" "\<not> isspace (CHR '']'')"
  "\<not> isspace (CHR ''}'')" "\<not> isspace (CHR '','')" "\<not> isspace (CHR '':'')" "\<not> isspace (CHR ''-'')"
  by (simp_all add: isspace_def)

lemma ends_number_simps [simp]:
  "ends_number (CHR '','')" "ends_number (CHR '']'')" "ends_number (CHR ''}'')"
  by (simp_all add: ends_number_def)

lemma pbind_Inr [simp]: "pbind (Inr x) f = f x"
  by (simp add: pbind_def)

lemma parse_next_quoted:
  assumes "0 < fuel"
  shows "parse_next mm raw fuel (pre @ quoted s @ post) (length pre) =
    parse_string mm raw (pre @ quoted s @ post) (length pre)"
proof -
  obtain n where n: "fuel = Suc n" using assms by (cases fuel) auto
  have "consume_ws raw (pre @ dquote # s @ dquote # post) (length pre) = Inr (length pre)"
    by (rule consume_ws_append) (rule not_space)
  then show ?thesis unfolding n quoted_def by simp
qed

lemma reads_String: "plain s \<Longrightarrow> reads mm (JString s)"
  by (auto simp: reads_def parse_next_quoted parse_string_plain plain_def)

lemma reads_Hash:
  assumes "hash_memory mm" and "length h = HASH_LENGTH"
  shows "reads mm (JHash h)"
proof -
  let ?s = "HASH_TAG @ concat (map hex_digits h)"
  have "h \<noteq> []" using assms(2) by auto
  then have "hex_string_to_bytes mm (concat (map hex_digits h)) (2 * length h) = Some h"
    using assms by (intro hex_string_to_bytes_hex) (simp_all add: hash_memory_def)
  moreover have "list_all plain_char ?s" using plain_hex [of h] plain_punct(2) by simp
  ultimately show ?thesis
    using assms(2) parse_string_plain [of ?s mm]
    by (simp add: reads_def parse_next_quoted json_hash_def)
qed

lemma reads_Integral:
  assumes "- LONG_MAX \<le> i" and "i \<le> LONG_MAX"
  shows "reads mm (JIntegral i)"
  unfolding reads_def
proof (intro allI impI)
  fix raw fuel pre rest
  assume "2 * length (json_text (JIntegral i)) + 2 \<le> fuel"
    and "JSONType (JIntegral i) = Class_Integral \<longrightarrow> rest \<noteq> [] \<and> ends_number (hd rest)"
  then obtain n t post where n: "fuel = Suc n" and rest: "rest = t # post" and t: "ends_number t"
    by (cases fuel; cases rest) auto
  obtain c cs where c: "to_string_int i = c # cs" by (cases "to_string_int i") (auto simp: to_string_int_def split: if_splits)
  have d: "is_digit c \<or> c = CHR ''-''" using to_string_int_chars [of i] c by auto
  then have ne: "\<not> isspace c" "c \<notin> {CHR ''['', CHR ''{'', dquote, CHR ''t'', CHR ''f'', CHR ''n''}"
    by (auto simp: isspace_def is_digit_def)
  show "parse_next mm raw fuel (pre @ json_text (JIntegral i) @ rest) (length pre) =
      Inr (JIntegral i, length pre + length (json_text (JIntegral i)))"
    using parse_number_int [OF assms t, of raw pre post] consume_ws_append [OF ne(1), of raw pre "cs @ t # post"] ne(2) d
    unfolding n rest by (simp add: c)
qed

lemma array_loop_reads:
  assumes "l \<noteq> []" and "\<forall>v \<in> set l. reads mm v"
    and "2 * length (comma_sep (map json_text l)) + 3 \<le> fuel"
  shows "parse_array_loop mm raw fuel (pre @ comma_sep (map json_text l) @ CHR '']'' # post) (length pre) acc =
    Inr (JArray (acc @ l), Suc (length pre + length (comma_sep (map json_text l))))"
  using assms
proof (induction l arbitrary: pre acc fuel)
  case (Cons v l)
  obtain n where n: "fuel = Suc n" using Cons.prems(3) by (cases fuel) auto
  define t where "t = (if l = [] then CHR '']'' else CHR '','')"
  define rest where "rest = (if l = [] then post else comma_sep (map json_text l) @ CHR '']'' # post)"
  let ?str = "pre @ json_text v @ t # rest"
  have str: "pre @ comma_sep (map json_text (v # l)) @ CHR '']'' # post = ?str"
    by (simp add: comma_sep_Cons t_def rest_def)
  have v: "parse_next mm raw n ?str (length pre) = Inr (v, length pre + length (json_text v))"
    using Cons.prems n by (intro readsD) (auto simp: t_def comma_sep_Cons split: if_splits)
  have t: "consume_ws raw ?str (length pre + length (json_text v)) = Inr (length pre + length (json_text v))"
    "rd raw ?str (length pre + length (json_text v)) = Inr t"
    using consume_ws_append [of t raw "pre @ json_text v" rest] rd_append [of raw "pre @ json_text v" t rest]
    by (simp_all add: t_def not_space)
  show ?case
  proof (cases "l = []")
    case True
    then show ?thesis using v t unfolding str n by (simp add: t_def comma_sep_Cons)
  next
    case False
    have "parse_array_loop mm raw n ((pre @ json_text v @ [t]) @ comma_sep (map json_text l) @ CHR '']'' # post)
        (length (pre @ json_text v @ [t])) (acc @ [v]) =
      Inr (JArray ((acc @ [v]) @ l), Suc (length (pre @ json_text v @ [t]) + length (comma_sep (map json_text l))))"
      using Cons.prems n False by (intro Cons.IH) (simp_all add: comma_sep_Cons)
    then show ?thesis using v t False unfolding str n by (simp add: t_def rest_def comma_sep_Cons)
  qed
qed simp

lemma compact_first: "simple v \<Longrightarrow> \<exists>c cs. json_text v = c # cs \<and> \<not> isspace c \<and> c \<noteq> CHR '']''"
proof (cases v)
  case (JIntegral i)
  obtain c cs where c: "to_string_int i = c # cs"
    by (cases "to_string_int i") (auto simp: to_string_int_def split: if_splits)
  then have "c = CHR ''-'' \<or> is_digit c" using to_string_int_chars [of i] by simp
  then have "\<not> isspace c \<and> c \<noteq> CHR '']''" by (auto simp: isspace_def is_digit_def)
  with c JIntegral show ?thesis by simp
qed (simp_all add: quoted_def not_space)

abbreviation member_text :: "string \<times> json \<Rightarrow> string" where
  "member_text e \<equiv> quoted (fst e) @ '':'' @ json_text (snd e)"

lemma object_loop_reads:
  assumes "m \<noteq> []" and "\<forall>e \<in> set m. plain (fst e) \<and> reads mm (snd e)"
    and "2 * length (comma_sep (map member_text m)) + 3 \<le> fuel" and "\<forall>e \<in> set m. simple (snd e)"
  shows "parse_object_loop mm raw fuel (pre @ comma_sep (map member_text m) @ CHR ''}'' # post) (length pre) acc =
    Inr (JObject (fold (\<lambda>e. omap_upd (fst e) (snd e)) m acc), Suc (length pre + length (comma_sep (map member_text m))))"
  using assms
proof (induction m arbitrary: pre acc fuel)
  case (Cons e m)
  obtain n where n: "fuel = Suc n" "0 < n" using Cons.prems(3) by (cases fuel) auto
  define k v where "k = fst e" and "v = snd e"
  define t where "t = (if m = [] then CHR ''}'' else CHR '','')"
  define rest where "rest = (if m = [] then post else comma_sep (map member_text m) @ CHR ''}'' # post)"
  let ?pk = "pre @ quoted k" and ?pv = "pre @ quoted k @ '':''" and ?pt = "pre @ quoted k @ '':'' @ json_text v"
  let ?str = "pre @ quoted k @ CHR '':'' # json_text v @ t # rest"
  have str: "pre @ comma_sep (map member_text (e # m)) @ CHR ''}'' # post = ?str"
    by (simp add: comma_sep_Cons t_def rest_def k_def v_def)
  have "plain k" using Cons.prems(2) by (simp add: k_def)
  then have key: "parse_next mm raw n ?str (length pre) = Inr (JString k, length ?pk)"
    and name: "ToString mm (JString k) = k"
    using n(2) by (simp_all add: parse_next_quoted parse_string_plain plain_def escape_plain)
  have colon: "consume_ws raw ?str (length ?pk) = Inr (length ?pk)" "rd raw ?str (length ?pk) = Inr (CHR '':'')"
    using consume_ws_append [of "CHR '':''" raw ?pk "json_text v @ t # rest"] rd_append [of raw ?pk "CHR '':''" "json_text v @ t # rest"]
    by (simp_all add: not_space)
  have val: "parse_next mm raw n ?str (length ?pv) = Inr (v, length ?pt)"
    using Cons.prems n readsD [of mm v n t raw ?pv rest]
    by (auto simp: t_def k_def v_def comma_sep_Cons split: if_splits)
  have gap: "consume_ws raw ?str (Suc (length ?pk)) = Inr (length ?pv)"
  proof -
    have "simple v" using Cons.prems(4) by (simp add: v_def)
    then obtain c cs where "json_text v = c # cs" "\<not> isspace c" using compact_first by blast
    then show ?thesis using consume_ws_append [of c raw ?pv "cs @ t # rest"] by simp
  qed
  have sep: "consume_ws raw ?str (length ?pt) = Inr (length ?pt)" "rd raw ?str (length ?pt) = Inr t"
    using consume_ws_append [of t raw ?pt rest] rd_append [of raw ?pt t rest]
    by (simp_all add: t_def not_space)
  note step = key name colon gap val sep
  show ?case
  proof (cases "m = []")
    case True
    then show ?thesis using step unfolding str n(1) by (simp add: t_def comma_sep_Cons k_def v_def)
  next
    case False
    have "parse_object_loop mm raw n ((?pt @ [t]) @ comma_sep (map member_text m) @ CHR ''}'' # post)
        (length (?pt @ [t])) (omap_upd k v acc) =
      Inr (JObject (fold (\<lambda>e. omap_upd (fst e) (snd e)) m (omap_upd k v acc)),
        Suc (length (?pt @ [t]) + length (comma_sep (map member_text m))))"
      using Cons.prems n False by (intro Cons.IH) (simp_all add: comma_sep_Cons)
    then show ?thesis using step False unfolding str n(1)
      by (simp add: t_def rest_def comma_sep_Cons k_def v_def)
  qed
qed simp

lemma omap_upd_last: "\<forall>e \<in> set acc. fst e < k \<Longrightarrow> omap_upd k v acc = acc @ [(k, v)]"
  by (induction acc) auto

lemma fold_omap_upd: "omap_ok (acc @ m) \<Longrightarrow> fold (\<lambda>e. omap_upd (fst e) (snd e)) m acc = acc @ m"
proof (induction m arbitrary: acc)
  case (Cons e m)
  have "\<forall>x \<in> set acc. fst x < fst e" using Cons.prems by (simp add: omap_ok_def sorted_wrt_append)
  then show ?case using Cons by (simp add: omap_upd_last)
qed simp

lemma reads_Array:
  assumes "\<forall>v \<in> set l. reads mm v" and "\<forall>v \<in> set l. simple v"
  shows "reads mm (JArray l)"
  unfolding reads_def
proof (intro allI impI)
  fix raw fuel pre post
  assume fuel: "2 * length (json_text (JArray l)) + 2 \<le> fuel"
  then obtain n where n: "fuel = Suc n" by (cases fuel) auto
  let ?str = "pre @ CHR ''['' # comma_sep (map json_text l) @ CHR '']'' # post"
  have brace: "consume_ws raw ?str (length pre) = Inr (length pre)" "rd raw ?str (length pre) = Inr (CHR ''['')"
    by (simp_all add: consume_ws_append not_space)
  show "parse_next mm raw fuel (pre @ json_text (JArray l) @ post) (length pre) =
      Inr (JArray l, length pre + length (json_text (JArray l)))"
  proof (cases "l = []")
    case True
    have "consume_ws raw ((pre @ ''['') @ CHR '']'' # post) (length (pre @ ''['')) = Inr (length (pre @ ''[''))"
      "rd raw ((pre @ ''['') @ CHR '']'' # post) (length (pre @ ''['')) = Inr (CHR '']'')"
      by (simp_all only: consume_ws_append not_space rd_append simp_thms)
    then show ?thesis using brace True unfolding n by simp
  next
    case False
    obtain v l' where l: "l = v # l'" using False by (cases l) auto
    obtain c cs where "json_text v = c # cs" and c: "\<not> isspace c" "c \<noteq> CHR '']''"
      using assms(2) l compact_first by fastforce
    then obtain cs' where cs: "comma_sep (map json_text l) = c # cs'" by (simp add: l comma_sep_Cons)
    let ?pb = "pre @ ''[''"
    have first: "consume_ws raw ?str (Suc (length pre)) = Inr (Suc (length pre))" "rd raw ?str (Suc (length pre)) = Inr c"
      using consume_ws_append [OF c(1), of raw ?pb "cs' @ CHR '']'' # post"]
        rd_append [of raw ?pb c "cs' @ CHR '']'' # post"] by (simp_all add: cs)
    have "parse_array_loop mm raw n (?pb @ comma_sep (map json_text l) @ CHR '']'' # post) (length ?pb) [] =
        Inr (JArray ([] @ l), Suc (length ?pb + length (comma_sep (map json_text l))))"
      using assms(1) False fuel n by (intro array_loop_reads) simp_all
    then show ?thesis using brace first c(2) unfolding n by simp
  qed
qed

text \<open>The members of an object may stand in any order; a repeated name keeps its last value.\<close>

lemma parse_object_text:
  assumes "\<forall>e \<in> set m. plain (fst e) \<and> reads mm (snd e)" and "\<forall>e \<in> set m. simple (snd e)"
    and fuel: "2 * length (json_text (JObject m)) + 2 \<le> fuel"
  shows "parse_next mm raw fuel (pre @ json_text (JObject m) @ post) (length pre) =
    Inr (JObject (fold (\<lambda>e. omap_upd (fst e) (snd e)) m []), length pre + length (json_text (JObject m)))"
proof -
  obtain n where n: "fuel = Suc n" using fuel by (cases fuel) auto
  let ?str = "pre @ CHR ''{'' # comma_sep (map member_text m) @ CHR ''}'' # post"
  have brace: "consume_ws raw ?str (length pre) = Inr (length pre)" "rd raw ?str (length pre) = Inr (CHR ''{'')"
    by (simp_all add: consume_ws_append not_space)
  show ?thesis
  proof (cases "m = []")
    case True
    have "consume_ws raw ((pre @ ''{'') @ CHR ''}'' # post) (length (pre @ ''{'')) = Inr (length (pre @ ''{''))"
      "rd raw ((pre @ ''{'') @ CHR ''}'' # post) (length (pre @ ''{'')) = Inr (CHR ''}'')"
      by (simp_all only: consume_ws_append not_space rd_append simp_thms)
    then show ?thesis using brace True unfolding n by simp
  next
    case False
    obtain e m' where m: "m = e # m'" using False by (cases m) auto
    obtain cs where cs: "comma_sep (map member_text m) = dquote # cs"
      by (simp add: m comma_sep_Cons quoted_def)
    let ?pb = "pre @ ''{''"
    have first: "consume_ws raw ?str (Suc (length pre)) = Inr (Suc (length pre))"
      "rd raw ?str (Suc (length pre)) = Inr dquote"
      using consume_ws_append [OF not_space(1), of raw ?pb "cs @ CHR ''}'' # post"]
        rd_append [of raw ?pb dquote "cs @ CHR ''}'' # post"] unfolding cs by simp_all
    have "parse_object_loop mm raw n (?pb @ comma_sep (map member_text m) @ CHR ''}'' # post) (length ?pb) [] =
        Inr (JObject (fold (\<lambda>e. omap_upd (fst e) (snd e)) m []), Suc (length ?pb + length (comma_sep (map member_text m))))"
      using assms(1,2) False fuel n by (intro object_loop_reads) simp_all
    then show ?thesis using brace first unfolding n by simp
  qed
qed

lemma reads_Object:
  assumes "\<forall>e \<in> set m. plain (fst e) \<and> reads mm (snd e)" and "\<forall>e \<in> set m. simple (snd e)" and "omap_ok m"
  shows "reads mm (JObject m)"
  using parse_object_text [OF assms(1,2)] fold_omap_upd [of "[]" m] assms(3) by (simp add: reads_def)

lemma simple_reads: "hash_memory mm \<Longrightarrow> simple j \<Longrightarrow> reads mm j"
proof (induction j)
  case (JObject m)
  then show ?case by (intro reads_Object) (auto simp: prod_set_defs)
next
  case (JArray l)
  then show ?case by (intro reads_Array) auto
qed (simp_all add: reads_Hash reads_String reads_Integral)

lemma json_Load_text:
  assumes "hash_memory mm" and "simple j" and "JSONType j \<noteq> Class_Integral"
  shows "json_Load mm raw (json_text j) = Inr j"
proof -
  have "parse_next mm raw (json_fuel (json_text j)) ([] @ json_text j @ []) (length ([] :: string)) =
      Inr (j, length ([] :: string) + length (json_text j))"
    using simple_reads [OF assms(1,2), unfolded reads_def, rule_format,
        of "json_fuel (json_text j)" "[]" raw "[]"] assms(3)
    by (simp add: json_fuel_def)
  moreover have "json_text j \<noteq> []" using compact_first [OF assms(2)] by auto
  ultimately show ?thesis by (simp add: json_Load_def)
qed

lemma json_Load_object_text:
  assumes "hash_memory mm" and "\<forall>e \<in> set m. plain (fst e) \<and> simple (snd e)"
  shows "json_Load mm raw (json_text (JObject m)) = Inr (JObject (fold (\<lambda>e. omap_upd (fst e) (snd e)) m []))"
  using parse_object_text [of m mm "json_fuel (json_text (JObject m))" raw "[]" "[]"] assms simple_reads [OF assms(1)]
  by (simp add: json_Load_def json_fuel_def)

section \<open>Properties\<close>



end
