(* ===== verification/Workload.thy ===== *)
theory Workload
  imports JsonText
begin

text \<open>
  The workload of \<open>src/enclave/workload/Workload.cpp\<close>: the single object that records what
  the node stores (random srd hashes per directory and meaningful files), what was reported and
  who the node is.  One record holds the members of the class; every method is a function on it.

  The lemmas give the effect of each method on the fields it touches, show that the counter of
  validated proofs stays between 0 and 2, that the statistics move as the files move, that srd
  information never goes below zero, and that applying a report result copies the waiting
  status of exactly the reported files.
\<close>

section \<open>State\<close>

record ecc_key_pair =
  kp_pub :: bytes
  kp_pri :: bytes

text \<open>
  The members of class \<open>Workload\<close>.  A \<open>std::set\<close> of indices is the increasing list of
  its elements; hashes are owned buffers of 32 bytes.
\<close>

record workload =
  srd_path2hashs_m :: "(string, bytes list) omap"
  checked_files :: "json list"
  new_files :: "json list"
  reported_files_idx :: "nat list"
  pre_pub_key :: bytes
  account_id :: string
  id_key_pair :: ecc_key_pair
  is_set_key_pair :: bool
  mr_enclave :: bytes
  report_height :: u64
  restart_flag :: bool
  validated_proof :: int
  report_files :: bool
  srd_info_json :: json
  upgrade :: bool
  upgrade_status :: enc_upgrade_status
  wl_spec_info :: json

text \<open>The names under which the statistics are kept; an unknown status has the empty name.\<close>

definition g_file_status :: "char \<Rightarrow> string" where
  "g_file_status c =
     (if c = FILE_STATUS_UNCONFIRMED then ''unconfirmed''
      else if c = FILE_STATUS_VALID then ''valid''
      else if c = FILE_STATUS_LOST then ''lost''
      else if c = FILE_STATUS_DELETED then ''deleted''
      else [])"

text \<open>\<open>info[ws][key] = v\<close> on the statistics.\<close>

definition json_set2 :: "json \<Rightarrow> string \<Rightarrow> string \<Rightarrow> json \<Rightarrow> json" where
  "json_set2 j k l v = json_set j k (json_set (json_get j k) l v)"

text \<open>
  The constructor.  Members without an initializer keep what the memory held, which is the
  argument.
\<close>

definition Workload_new :: "workload \<Rightarrow> workload" where
  "Workload_new mem = mem \<lparr>
     srd_path2hashs_m := [], checked_files := [], new_files := [], reported_files_idx := [],
     account_id := [], is_set_key_pair := False, report_height := 0, restart_flag := False,
     validated_proof := 0, report_files := True, srd_info_json := JNull, upgrade := False,
     upgrade_status := ENC_UPGRADE_STATUS_NONE,
     wl_spec_info := fold (\<lambda>c j. json_set2 (json_set2 j (g_file_status c) ''num'' (JIntegral 0))
         (g_file_status c) ''size'' (JIntegral 0))
       [FILE_STATUS_UNCONFIRMED, FILE_STATUS_VALID, FILE_STATUS_LOST] JNull \<rparr>"

section \<open>File entries\<close>

text \<open>
  A file entry is a JSON object.  Its status is a string of three characters: the current
  status, the one waiting for the report to be accepted, and the one the chain knows.
\<close>

abbreviation file_status :: "json \<Rightarrow> nat \<Rightarrow> char" where
  "file_status f i \<equiv> get_char (json_get f FILE_STATUS) i"

definition set_file_status :: "nat \<Rightarrow> char \<Rightarrow> json \<Rightarrow> json" where
  "set_file_status i c f = json_set f FILE_STATUS (set_char (json_get f FILE_STATUS) i c)"

abbreviation file_old_size :: "json \<Rightarrow> int" where
  "file_old_size f \<equiv> ToInt (json_get f FILE_OLD_SIZE)"

section \<open>Srd hashes\<close>

text \<open>\<open>memcpy\<close> of one hash, and the buffer all hashes are copied into one after another.\<close>

definition srd_hashs_buffer :: "(string, bytes list) omap \<Rightarrow> bytes" where
  "srd_hashs_buffer m = concat (map (\<lambda>e. concat (map (take HASH_LENGTH) (snd e))) m)"

abbreviation srd_num :: "(string, bytes list) omap \<Rightarrow> nat" where
  "srd_num \<equiv> omap_total"

text \<open>The length of a hashed buffer is a 32-bit argument.\<close>

definition sgx_sha256_msg :: "(bytes \<Rightarrow> bytes) \<Rightarrow> bytes \<Rightarrow> bytes" where
  "sgx_sha256_msg sha buf = sha (take (uint32 (length buf)) buf)"

definition clean_srd_buffer :: "workload \<Rightarrow> workload" where
  "clean_srd_buffer w = w \<lparr> srd_path2hashs_m := [] \<rparr>"

text \<open>
  The hashes of a list of files in one buffer.  \<open>None\<close> stands for the copy from a null
  pointer that a file without hash bytes would cause.
\<close>

definition file_hashs_buffer :: "json list \<Rightarrow> bytes option" where
  "file_hashs_buffer fs =
     map_option concat (those (map (\<lambda>f. map_option (take HASH_LENGTH) (ToBytes (json_get f FILE_HASH))) fs))"

text \<open>
  \<open>gen_workload_info\<close>: the roots of the srd hashes and of the checked files.  The second
  allocation is not checked by the code, so its failure is a null dereference.
\<close>

definition gen_srd_root :: "malloc \<Rightarrow> (bytes \<Rightarrow> bytes) \<Rightarrow> workload \<Rightarrow> json option" where
  "gen_srd_root mm sha w =
     (let m = srd_path2hashs_m w; g_num = srd_num m in
      if length m = 0 then Some (json_set JNull WL_SRD_ROOT_HASH (json_hash (replicate HASH_LENGTH 0)))
      else if \<not> enc_malloc mm (g_num * HASH_LENGTH) then None
      else Some (json_set (json_set JNull WL_SRD_SPACE (JIntegral (int g_num * 1024 * 1024 * 1024)))
             WL_SRD_ROOT_HASH (json_hash (sgx_sha256_msg sha (srd_hashs_buffer m)))))"

definition gen_workload_info :: "malloc \<Rightarrow> (bytes \<Rightarrow> bytes) \<Rightarrow> workload \<Rightarrow> json option" where
  "gen_workload_info mm sha w = (case gen_srd_root mm sha w of
     None \<Rightarrow> Some JNull
   | Some ans \<Rightarrow>
       if length (checked_files w) = 0
       then Some (json_set ans WL_FILE_ROOT_HASH (json_hash (replicate HASH_LENGTH 0)))
       else if \<not> enc_malloc mm (length (checked_files w) * HASH_LENGTH) then None
       else map_option (\<lambda>buf. json_set ans WL_FILE_ROOT_HASH (json_hash (sgx_sha256_msg sha buf)))
              (file_hashs_buffer (checked_files w)))"

section \<open>Serialization\<close>

definition serialize_srd :: "malloc \<Rightarrow> workload \<Rightarrow> string" where
  "serialize_srd mm w =
     ''{'' @ comma_sep (map (\<lambda>e. [dquote] @ fst e @ [dquote] @ '':['' @
         comma_sep (map (\<lambda>h. [dquote] @ hexstring_safe mm (take HASH_LENGTH h) @ [dquote]) (snd e)) @ '']'')
       (srd_path2hashs_m w)) @ ''}''"

definition file_item_len :: nat where
  "file_item_len =
     length FILE_HASH + 3 + length HASH_TAG + 64 + 3
   + length FILE_OLD_HASH + 3 + length HASH_TAG + 64 + 3
   + length FILE_SIZE + 3 + 12 + 1
   + length FILE_OLD_SIZE + 3 + 12 + 1
   + length FILE_BLOCK_NUM + 3 + 6 + 1
   + length FILE_STATUS + 3 + 3 + 3
   + 2"

definition serialized_files :: "malloc \<Rightarrow> json list \<Rightarrow> string" where
  "serialized_files mm fs = ''['' @ comma_sep (map (\<lambda>f. strip_dump (json_dump mm f)) fs) @ '']''"

text \<open>
  \<open>serialize_file\<close> writes into a buffer of \<^const>\<open>file_item_len\<close> bytes per file.
  \<open>None\<close> stands for a write behind its end.
\<close>

definition serialize_file :: "malloc \<Rightarrow> workload \<Rightarrow> (crust_status \<times> bytes) option" where
  "serialize_file mm w =
     (let buffer_size = length (checked_files w) * file_item_len;
          out = serialized_files mm (checked_files w)
      in if \<not> enc_malloc mm buffer_size then Some (CRUST_MALLOC_FAILED, [])
         else if buffer_size < length out then None
         else Some (CRUST_SUCCESS, bytes_of_string out))"

section \<open>Statistics\<close>

definition spec_get :: "json \<Rightarrow> string \<Rightarrow> string \<Rightarrow> int" where
  "spec_get info ws key = ToInt (json_get (json_get info ws) key)"

text \<open>The two assignments both variants of \<open>set_wl_spec\<close> make to one bucket.\<close>

definition wl_spec_add :: "string \<Rightarrow> int \<Rightarrow> int \<Rightarrow> json \<Rightarrow> json" where
  "wl_spec_add ws dnum dsize info =
     (let info1 = json_set2 info ws ''num'' (JIntegral (spec_get info ws ''num'' + dnum))
      in json_set2 info1 ws ''size'' (JIntegral (spec_get info1 ws ''size'' + dsize)))"

text \<open>The parameter \<open>change\<close> is a 32-bit \<open>int\<close>; the callers pass 64-bit sizes.\<close>

definition set_wl_spec :: "char \<Rightarrow> int \<Rightarrow> workload \<Rightarrow> workload" where
  "set_wl_spec st sz w =
     (let change = cast_int sz in
      w \<lparr> wl_spec_info := wl_spec_add (g_file_status st) (if change > 0 then 1 else -1) change
           (wl_spec_info w) \<rparr>)"

definition set_wl_spec2 :: "char \<Rightarrow> char \<Rightarrow> int \<Rightarrow> workload \<Rightarrow> workload" where
  "set_wl_spec2 st related_st sz w =
     (let change = cast_int sz; dnum = (if change > 0 then 1 else -1) in
      if st = related_st then w
      else w \<lparr> wl_spec_info :=
             wl_spec_add (g_file_status related_st) (- dnum) (- change)
               (wl_spec_add (g_file_status st) dnum change (wl_spec_info w)) \<rparr>)"

definition get_wl_spec :: "workload \<Rightarrow> json" where
  "get_wl_spec w = wl_spec_info w"

definition restore_wl_spec_info :: "malloc \<Rightarrow> string \<Rightarrow> workload \<Rightarrow> parse_error + workload" where
  "restore_wl_spec_info mm data w = pbind (json_Load mm False data) (\<lambda>j. Inr (w \<lparr> wl_spec_info := j \<rparr>))"

section \<open>Restoring\<close>

text \<open>The hashes of one directory; a failed conversion ends the whole restore.\<close>

definition restore_hashs :: "malloc \<Rightarrow> json \<Rightarrow> bytes list option" where
  "restore_hashs mm v =
     those (map (\<lambda>i. let s = ToString mm (json_index v i) in hex_string_to_bytes mm s (length s))
       [0..<nat (json_size v)])"

fun restore_paths :: "malloc \<Rightarrow> (string \<times> json) list \<Rightarrow> (string, bytes list) omap \<Rightarrow>
    (string, bytes list) omap option" where
  "restore_paths mm [] acc = Some acc"
| "restore_paths mm ((path, v) # ps) acc = (case restore_hashs mm v of
     None \<Rightarrow> None
   | Some [] \<Rightarrow> restore_paths mm ps acc
   | Some hs \<Rightarrow> restore_paths mm ps (omap_upd path hs acc))"

definition object_range :: "json \<Rightarrow> (string \<times> json) list" where
  "object_range j = (case j of JObject m \<Rightarrow> m | _ \<Rightarrow> [])"

definition restore_srd :: "malloc \<Rightarrow> json \<Rightarrow> workload \<Rightarrow> crust_status \<times> workload" where
  "restore_srd mm g_hashs w = (case restore_paths mm (object_range g_hashs) [] of
     None \<Rightarrow> (CRUST_UNEXPECTED_ERROR, clean_srd_buffer w)
   | Some m \<Rightarrow> (CRUST_SUCCESS, w \<lparr> srd_path2hashs_m := m,
       srd_info_json := fold (\<lambda>e j. json_set2 j (fst e) ''assigned'' (JIntegral (int (length (snd e))))) m
         (srd_info_json w) \<rparr>))"

text \<open>
  Indexing turns a non-array value into an array with one null element, so a non-empty object
  yields one null entry.
\<close>

definition restored_items :: "json \<Rightarrow> json list" where
  "restored_items j = (case j of JArray l \<Rightarrow> l | _ \<Rightarrow> if 0 < json_size j then [JNull] else [])"

definition restore_file :: "json \<Rightarrow> workload \<Rightarrow> workload" where
  "restore_file file_json w =
     fold (\<lambda>f w. set_wl_spec (file_status f CURRENT_STATUS) (file_old_size f)
                   (w \<lparr> checked_files := checked_files w @ [f] \<rparr>))
       (restored_items file_json) (w \<lparr> checked_files := [] \<rparr>)"

section \<open>Accessors\<close>

definition add_new_file :: "json \<Rightarrow> workload \<Rightarrow> workload" where
  "add_new_file f w = w \<lparr> new_files := new_files w @ [f] \<rparr>"

definition set_report_file_flag :: "bool \<Rightarrow> workload \<Rightarrow> workload" where
  "set_report_file_flag flag w = w \<lparr> report_files := flag \<rparr>"

definition get_report_file_flag :: "workload \<Rightarrow> bool" where
  "get_report_file_flag w = report_files w"

definition set_srd_info :: "string \<Rightarrow> int \<Rightarrow> workload \<Rightarrow> workload" where
  "set_srd_info path change w =
     (let info = json_set2 (srd_info_json w) path ''assigned''
            (JIntegral (spec_get (srd_info_json w) path ''assigned'' + change))
      in w \<lparr> srd_info_json := (if spec_get info path ''assigned'' < 0
               then json_set2 info path ''assigned'' (JIntegral 0) else info) \<rparr>)"

definition get_srd_info :: "workload \<Rightarrow> json" where
  "get_srd_info w = srd_info_json w"

definition set_upgrade :: "bytes \<Rightarrow> workload \<Rightarrow> workload" where
  "set_upgrade pub_key w = w \<lparr> upgrade := True, pre_pub_key := pub_key \<rparr>"

definition is_upgrade :: "workload \<Rightarrow> bool" where
  "is_upgrade w = upgrade w"

definition set_upgrade_status :: "enc_upgrade_status \<Rightarrow> workload \<Rightarrow> workload" where
  "set_upgrade_status st w = w \<lparr> upgrade_status := st \<rparr>"

definition get_upgrade_status :: "workload \<Rightarrow> enc_upgrade_status" where
  "get_upgrade_status w = upgrade_status w"

definition set_account_id :: "string \<Rightarrow> workload \<Rightarrow> workload" where
  "set_account_id aid w = w \<lparr> account_id := aid \<rparr>"

definition get_account_id :: "workload \<Rightarrow> string" where
  "get_account_id w = account_id w"

definition try_get_key_pair :: "workload \<Rightarrow> bool" where
  "try_get_key_pair w = is_set_key_pair w"

definition get_pub_key :: "workload \<Rightarrow> bytes" where
  "get_pub_key w = kp_pub (id_key_pair w)"

definition get_pri_key :: "workload \<Rightarrow> bytes" where
  "get_pri_key w = kp_pri (id_key_pair w)"

definition set_key_pair :: "ecc_key_pair \<Rightarrow> workload \<Rightarrow> workload" where
  "set_key_pair kp w = w \<lparr> id_key_pair := kp, is_set_key_pair := True \<rparr>"

definition get_key_pair :: "workload \<Rightarrow> ecc_key_pair" where
  "get_key_pair w = id_key_pair w"

definition set_mr_enclave :: "bytes \<Rightarrow> workload \<Rightarrow> workload" where
  "set_mr_enclave mr w = w \<lparr> mr_enclave := mr \<rparr>"

definition get_mr_enclave :: "workload \<Rightarrow> bytes" where
  "get_mr_enclave w = mr_enclave w"

definition set_report_height :: "u64 \<Rightarrow> workload \<Rightarrow> workload" where
  "set_report_height h w = w \<lparr> report_height := h \<rparr>"

definition get_report_height :: "workload \<Rightarrow> u64" where
  "get_report_height w = report_height w"

definition set_restart_flag :: "bool \<Rightarrow> workload \<Rightarrow> workload" where
  "set_restart_flag flag w = w \<lparr> restart_flag := flag \<rparr>"

definition get_restart_flag :: "workload \<Rightarrow> bool" where
  "get_restart_flag w = restart_flag w"

section \<open>Reports\<close>

definition report_add_validated_proof :: "workload \<Rightarrow> workload" where
  "report_add_validated_proof w =
     w \<lparr> validated_proof := (if validated_proof w \<ge> 2 then 2 else validated_proof w + 1) \<rparr>"

definition report_reduce_validated_proof :: "workload \<Rightarrow> workload" where
  "report_reduce_validated_proof w =
     w \<lparr> validated_proof := (if validated_proof w \<le> 0 then 0 else validated_proof w - 1) \<rparr>"

definition report_has_validated_proof :: "workload \<Rightarrow> bool" where
  "report_has_validated_proof w \<longleftrightarrow> validated_proof w > 0"

definition confirm_reported :: "nat \<Rightarrow> json list \<Rightarrow> json list" where
  "confirm_reported i fs =
     (if i < length fs
      then fs[i := set_file_status ORIGIN_STATUS (file_status (fs ! i) WAITING_STATUS) (fs ! i)]
      else fs)"

definition handle_report_result :: "workload \<Rightarrow> workload" where
  "handle_report_result w =
     w \<lparr> checked_files := fold confirm_reported (reported_files_idx w) (checked_files w),
         reported_files_idx := [] \<rparr>"

text \<open>Block heights are \<open>size_t\<close>, so the differences wrap around.\<close>

definition try_report_work :: "u64 \<Rightarrow> workload \<Rightarrow> crust_status" where
  "try_report_work block_height w =
     (if block_height = 0 \<or> block_height - get_report_height w - of_nat WORKREPORT_REPORT_INTERVAL
        < of_nat ERA_LENGTH
      then CRUST_UPGRADE_BLOCK_EXPIRE
      else if \<not> report_has_validated_proof w then CRUST_UPGRADE_NO_VALIDATE
      else if get_restart_flag w then CRUST_UPGRADE_RESTART
      else if \<not> get_report_file_flag w then CRUST_UPGRADE_NO_FILE
      else CRUST_SUCCESS)"

definition get_workload :: "malloc \<Rightarrow> int \<Rightarrow> workload \<Rightarrow> string" where
  "get_workload mm srd_change w =
     strip_dump (json_dump mm
       (json_set2 (json_set2 (json_set JNull WL_FILES (get_wl_spec w))
          WL_SRD WL_SRD_DETAIL (get_srd_info w))
        WL_SRD WL_SRD_REMAINING_TASK (JIntegral srd_change)))"

section \<open>Invariants\<close>

definition status_chars :: "char set" where
  "status_chars = {FILE_STATUS_UNCONFIRMED, FILE_STATUS_VALID, FILE_STATUS_LOST, FILE_STATUS_DELETED}"

text \<open>What the rest of the enclave relies on of a file entry.\<close>

definition wf_file :: "json \<Rightarrow> bool" where
  "wf_file f \<longleftrightarrow> json_ok f \<and>
     (\<exists>h. json_get f FILE_HASH = JHash h \<and> length h = HASH_LENGTH) \<and>
     (\<exists>s. json_get f FILE_STATUS = JString s \<and> length s = 3 \<and> set s \<subseteq> status_chars)"

text \<open>A size the statistics can carry: positive and within a 32-bit \<open>int\<close>.\<close>

definition small_file :: "json \<Rightarrow> bool" where
  "small_file f \<longleftrightarrow> 0 < file_old_size f \<and> file_old_size f < 2 ^ 31"

text \<open>Two-level objects, as the statistics and the srd information are.\<close>

definition json2_ok :: "json \<Rightarrow> bool" where
  "json2_ok j \<longleftrightarrow> json_ok j \<and> (\<forall>k. json_ok (json_get j k))"

definition wl_inv :: "workload \<Rightarrow> bool" where
  "wl_inv w \<longleftrightarrow>
     omap_ok (srd_path2hashs_m w) \<and>
     list_all (\<lambda>e. list_all (\<lambda>h. length h = HASH_LENGTH) (snd e)) (srd_path2hashs_m w) \<and>
     list_all wf_file (checked_files w) \<and> list_all wf_file (new_files w) \<and>
     0 \<le> validated_proof w \<and> validated_proof w \<le> 2 \<and>
     json2_ok (srd_info_json w) \<and> json2_ok (wl_spec_info w)"

text \<open>The statuses whose buckets count stored files.\<close>

definition ledger_chars :: "char set" where
  "ledger_chars = {FILE_STATUS_UNCONFIRMED, FILE_STATUS_VALID, FILE_STATUS_LOST}"

definition stat_of :: "(json \<Rightarrow> int) \<Rightarrow> char \<Rightarrow> json list \<Rightarrow> int" where
  "stat_of g st fs = sum_list (map (\<lambda>f. if file_status f CURRENT_STATUS = st then g f else 0) fs)"

lemma status_chars_simps [simp]:
  "FILE_STATUS_UNCONFIRMED \<in> status_chars" "FILE_STATUS_VALID \<in> status_chars"
  "FILE_STATUS_LOST \<in> status_chars" "FILE_STATUS_DELETED \<in> status_chars"
  "FILE_STATUS_UNCONFIRMED \<in> ledger_chars" "FILE_STATUS_VALID \<in> ledger_chars"
  "FILE_STATUS_LOST \<in> ledger_chars" "FILE_STATUS_DELETED \<notin> ledger_chars"
  by (simp_all add: status_chars_def ledger_chars_def)

lemma ledger_status: "st \<in> ledger_chars \<Longrightarrow> st \<in> status_chars"
  by (auto simp: status_chars_def ledger_chars_def)

section \<open>Lemmas: two-level objects\<close>

lemma json2_ok_set2 [json_simps]: "json2_ok j \<Longrightarrow> json2_ok (json_set2 j k l v)"
  by (auto simp: json2_ok_def json_set2_def json_simps)

lemma spec_get_set2 [json_simps]:
  "json2_ok j \<Longrightarrow> spec_get (json_set2 j k l v) k' l' = (if k' = k \<and> l' = l then ToInt v else spec_get j k' l')"
  by (auto simp: json2_ok_def json_set2_def spec_get_def json_simps)

lemma json2_ok_Null [json_simps]: "json2_ok JNull" "spec_get JNull k l = 0"
  by (simp_all add: json2_ok_def spec_get_def json_simps)

lemma json2_ok_spec_add [json_simps]: "json2_ok j \<Longrightarrow> json2_ok (wl_spec_add ws dn ds j)"
  by (simp add: wl_spec_add_def json_simps)

lemma spec_get_add [json_simps]:
  "json2_ok j \<Longrightarrow> spec_get (wl_spec_add ws dn ds j) ws' key = spec_get j ws' key +
     (if ws' = ws then (if key = ''num'' then dn else if key = ''size'' then ds else 0) else 0)"
  by (auto simp: wl_spec_add_def json_simps)

section \<open>Lemmas: file entries\<close>

lemma file_status_set [wl_simps]:
  "wf_file f \<Longrightarrow> i < 3 \<Longrightarrow> file_status (set_file_status i c f) j = (if j = i then c else file_status f j)"
  by (auto simp: wf_file_def set_file_status_def json_simps)

lemma set_file_status_other [wl_simps]:
  "wf_file f \<Longrightarrow> k \<noteq> FILE_STATUS \<Longrightarrow> json_get (set_file_status i c f) k = json_get f k"
  by (simp add: wf_file_def set_file_status_def json_simps)

lemma wf_file_set_status [wl_simps]:
  "wf_file f \<Longrightarrow> i < 3 \<Longrightarrow> c \<in> status_chars \<Longrightarrow> wf_file (set_file_status i c f)"
  by (auto simp: wf_file_def set_file_status_def json_simps dest!: set_mp [OF set_update_subset_insert])

lemma small_file_set_status [wl_simps]: "wf_file f \<Longrightarrow> small_file (set_file_status i c f) = small_file f"
  by (simp add: small_file_def wl_simps)

lemma file_status_chars: "wf_file f \<Longrightarrow> i < 3 \<Longrightarrow> file_status f i \<in> status_chars"
proof -
  assume "wf_file f" and "i < 3"
  then obtain s where "json_get f FILE_STATUS = JString s" "i < length s" "set s \<subseteq> status_chars"
    by (auto simp: wf_file_def)
  then show ?thesis using nth_mem [of i s] by auto
qed

section \<open>The ledger of file statistics\<close>

text \<open>
  What the storage and validation components rely on of the statistics: entering or removing a
  file of a given status changes the bucket of that status only, and moving a file changes the
  two buckets involved.  The buckets that count stored files are those of the unconfirmed, valid
  and lost files.
\<close>

lemma stat_of_append [simp]: "stat_of g st (fs @ gs) = stat_of g st fs + stat_of g st gs"
  by (simp add: stat_of_def)

lemma stat_of_Nil [simp]: "stat_of g st [] = 0"
  by (simp add: stat_of_def)

lemma stat_of_Cons [simp]:
  "stat_of g st (f # fs) = (if file_status f CURRENT_STATUS = st then g f else 0) + stat_of g st fs"
  by (simp add: stat_of_def)

lemma stat_of_upd:
  "i < length fs \<Longrightarrow> stat_of g st (fs[i := f]) =
     stat_of g st fs - stat_of g st [fs ! i] + stat_of g st [f]"
proof (induction fs arbitrary: i)
  case (Cons x xs)
  then show ?case by (cases i) simp_all
qed simp

lemma stat_of_erase: "i < length fs \<Longrightarrow> stat_of g st (erase_at i fs) = stat_of g st fs - stat_of g st [fs ! i]"
proof (induction fs arbitrary: i)
  case (Cons x xs)
  then show ?case by (cases i) (simp_all add: erase_at_def)
qed simp

locale ledger =
  fixes num :: "'s \<Rightarrow> char \<Rightarrow> int"
    and total :: "'s \<Rightarrow> char \<Rightarrow> int"
    and enter :: "char \<Rightarrow> int \<Rightarrow> 's \<Rightarrow> 's"
    and move :: "char \<Rightarrow> char \<Rightarrow> int \<Rightarrow> 's \<Rightarrow> 's"
    and ok :: "'s \<Rightarrow> bool"
  assumes ok_enter: "ok s \<Longrightarrow> ok (enter st n s)"
    and ok_move: "ok s \<Longrightarrow> ok (move st st' n s)"
    and num_enter: "ok s \<Longrightarrow> st \<in> status_chars \<Longrightarrow> x \<in> ledger_chars \<Longrightarrow> \<bar>n\<bar> < 2 ^ 31 \<Longrightarrow>
      num (enter st n s) x = num s x + (if x = st then if 0 < n then 1 else -1 else 0)"
    and total_enter: "ok s \<Longrightarrow> st \<in> status_chars \<Longrightarrow> x \<in> ledger_chars \<Longrightarrow> \<bar>n\<bar> < 2 ^ 31 \<Longrightarrow>
      total (enter st n s) x = total s x + (if x = st then n else 0)"
    and num_move: "ok s \<Longrightarrow> st \<in> ledger_chars \<Longrightarrow> st' \<in> ledger_chars \<Longrightarrow> st \<noteq> st' \<Longrightarrow> x \<in> ledger_chars \<Longrightarrow>
      0 < n \<Longrightarrow> n < 2 ^ 31 \<Longrightarrow>
      num (move st st' n s) x = num s x + (if x = st then 1 else 0) - (if x = st' then 1 else 0)"
    and total_move: "ok s \<Longrightarrow> st \<in> ledger_chars \<Longrightarrow> st' \<in> ledger_chars \<Longrightarrow> st \<noteq> st' \<Longrightarrow> x \<in> ledger_chars \<Longrightarrow>
      0 < n \<Longrightarrow> n < 2 ^ 31 \<Longrightarrow>
      total (move st st' n s) x = total s x + (if x = st then n else 0) - (if x = st' then n else 0)"
begin

text \<open>The books agree with a list of files: every bucket is the count and the size of its files.\<close>

definition books :: "'s \<Rightarrow> json list \<Rightarrow> bool" where
  "books s fs \<longleftrightarrow> ok s \<and>
     (\<forall>st \<in> ledger_chars. num s st = stat_of (\<lambda>_. 1) st fs \<and> total s st = stat_of file_old_size st fs)"

lemma booksD:
  "books s fs \<Longrightarrow> x \<in> ledger_chars \<Longrightarrow> num s x = stat_of (\<lambda>_. 1) x fs"
  "books s fs \<Longrightarrow> x \<in> ledger_chars \<Longrightarrow> total s x = stat_of file_old_size x fs"
  by (simp_all add: books_def)

lemma books_stat_cong:
  assumes "\<And>g st. st \<in> ledger_chars \<Longrightarrow> g = (\<lambda>_. 1) \<or> g = file_old_size \<Longrightarrow> stat_of g st fs = stat_of g st gs"
  shows "books s fs \<longleftrightarrow> books s gs"
  using assms [OF _ disjI1 [OF refl]] assms [OF _ disjI2 [OF refl]] unfolding books_def by metis

lemma books_append:
  assumes "books s fs" and "small_file f" and "file_status f CURRENT_STATUS = st" and "st \<in> status_chars"
  shows "books (enter st (file_old_size f) s) (fs @ [f])"
  unfolding books_def
proof (intro conjI ballI)
  have ok: "ok s" using assms(1) by (simp add: books_def)
  have small: "\<bar>file_old_size f\<bar> < 2 ^ 31" using assms(2) by (simp add: small_file_def)
  show "ok (enter st (file_old_size f) s)" by (rule ok_enter [OF ok])
  fix x assume x: "x \<in> ledger_chars"
  show "num (enter st (file_old_size f) s) x = stat_of (\<lambda>_. 1) x (fs @ [f])"
    using num_enter [OF ok assms(4) x small] assms(1-3) x by (simp add: booksD small_file_def)
  show "total (enter st (file_old_size f) s) x = stat_of file_old_size x (fs @ [f])"
    using total_enter [OF ok assms(4) x small] assms(1-3) x by (simp add: booksD)
qed

text \<open>Removing one file, wherever the list is updated to take it out of its bucket.\<close>

lemma books_remove:
  assumes "books s fs" and "small_file f" and "file_status f CURRENT_STATUS = st" and "st \<in> status_chars"
    and gone: "\<And>g x. x \<in> ledger_chars \<Longrightarrow> stat_of g x gs = stat_of g x fs - stat_of g x [f]"
  shows "books (enter st (- file_old_size f) s) gs"
  unfolding books_def
proof (intro conjI ballI)
  have ok: "ok s" using assms(1) by (simp add: books_def)
  have small: "\<bar>- file_old_size f\<bar> < 2 ^ 31" using assms(2) by (simp add: small_file_def)
  show "ok (enter st (- file_old_size f) s)" by (rule ok_enter [OF ok])
  fix x assume x: "x \<in> ledger_chars"
  show "num (enter st (- file_old_size f) s) x = stat_of (\<lambda>_. 1) x gs"
    using num_enter [OF ok assms(4) x small] assms(1-3) x by (simp add: booksD small_file_def gone)
  show "total (enter st (- file_old_size f) s) x = stat_of file_old_size x gs"
    using total_enter [OF ok assms(4) x small] assms(1-3) x by (simp add: booksD gone)
qed

text \<open>A file changes its status in place.\<close>

lemma books_move:
  assumes "books s fs" and "i < length fs" and "small_file f" and "file_old_size (fs ! i) = file_old_size f"
    and "file_status (fs ! i) CURRENT_STATUS = st'" and "file_status f CURRENT_STATUS = st"
    and "st \<in> ledger_chars" and "st' \<in> ledger_chars" and "st \<noteq> st'"
  shows "books (move st st' (file_old_size f) s) (fs[i := f])"
  unfolding books_def
proof (intro conjI ballI)
  have ok: "ok s" using assms(1) by (simp add: books_def)
  have small: "0 < file_old_size f" "file_old_size f < 2 ^ 31" using assms(3) by (simp_all add: small_file_def)
  show "ok (move st st' (file_old_size f) s)" by (rule ok_move [OF ok])
  fix x assume x: "x \<in> ledger_chars"
  show "num (move st st' (file_old_size f) s) x = stat_of (\<lambda>_. 1) x (fs[i := f])"
    using num_move [OF ok assms(7-9) x small] assms(1,2,5,6) x by (simp add: booksD stat_of_upd)
  show "total (move st st' (file_old_size f) s) x = stat_of file_old_size x (fs[i := f])"
    using total_move [OF ok assms(7-9) x small] assms(1,2,4-6) x by (simp add: booksD stat_of_upd)
qed

end

lemma g_file_status_inject:
  "st \<in> status_chars \<Longrightarrow> x \<in> status_chars \<Longrightarrow> g_file_status x = g_file_status st \<longleftrightarrow> x = st"
  by (auto simp: g_file_status_def status_chars_def)

lemma cast_int_abs: "\<bar>n\<bar> < 2 ^ 31 \<Longrightarrow> cast_int n = n"
  by (rule cast_int_id) simp_all

text \<open>The statistics of the workload are such a ledger.\<close>

interpretation wl_stats: ledger
  "\<lambda>w st. spec_get (wl_spec_info w) (g_file_status st) ''num''"
  "\<lambda>w st. spec_get (wl_spec_info w) (g_file_status st) ''size''"
  set_wl_spec set_wl_spec2 "\<lambda>w. json2_ok (wl_spec_info w)"
  by unfold_locales
    (auto simp: set_wl_spec_def set_wl_spec2_def Let_def json_simps cast_int_abs g_file_status_inject ledger_status)

section \<open>Lemmas: methods keep the invariant\<close>

lemma wl_inv_frame:
  "wl_inv w \<Longrightarrow> wl_inv (w \<lparr> reported_files_idx := x \<rparr>)"
  "wl_inv w \<Longrightarrow> wl_inv (set_report_file_flag b w)" "wl_inv w \<Longrightarrow> wl_inv (set_upgrade k w)"
  "wl_inv w \<Longrightarrow> wl_inv (set_upgrade_status us w)" "wl_inv w \<Longrightarrow> wl_inv (set_account_id a w)"
  "wl_inv w \<Longrightarrow> wl_inv (set_key_pair kp w)" "wl_inv w \<Longrightarrow> wl_inv (set_mr_enclave mr w)"
  "wl_inv w \<Longrightarrow> wl_inv (set_report_height h w)" "wl_inv w \<Longrightarrow> wl_inv (set_restart_flag b w)"
  "wl_inv w \<Longrightarrow> wl_inv (report_add_validated_proof w)"
  "wl_inv w \<Longrightarrow> wl_inv (report_reduce_validated_proof w)"
  "wl_inv w \<Longrightarrow> wl_inv (clean_srd_buffer w)"
  by (auto simp: wl_inv_def set_report_file_flag_def set_upgrade_def set_upgrade_status_def
      set_account_id_def set_key_pair_def set_mr_enclave_def set_report_height_def set_restart_flag_def
      report_add_validated_proof_def report_reduce_validated_proof_def clean_srd_buffer_def omap_simps)

lemma wl_inv_spec: "wl_inv w \<Longrightarrow> wl_inv (set_wl_spec st n w)" "wl_inv w \<Longrightarrow> wl_inv (set_wl_spec2 st st' n w)"
  by (auto simp: wl_inv_def set_wl_spec_def set_wl_spec2_def Let_def json_simps)

lemma wl_inv_srd_info: "wl_inv w \<Longrightarrow> wl_inv (set_srd_info path n w)"
  by (auto simp: wl_inv_def set_srd_info_def Let_def json_simps)

lemma wl_inv_add_new_file: "wl_inv w \<Longrightarrow> wf_file f \<Longrightarrow> wl_inv (add_new_file f w)"
  by (auto simp: wl_inv_def add_new_file_def)

lemma wl_inv_new: "wl_inv (Workload_new mem)"
  by (simp add: wl_inv_def Workload_new_def json_simps omap_simps)

lemma wl_inv_files: "wl_inv w \<Longrightarrow> list_all wf_file fs \<Longrightarrow> wl_inv (w \<lparr> checked_files := fs \<rparr>)"
  by (simp add: wl_inv_def)

section \<open>Lemmas: report results\<close>

lemma length_confirm_reported [simp]: "length (confirm_reported i fs) = length fs"
  by (simp add: confirm_reported_def)

lemma length_fold_confirm [simp]: "length (fold confirm_reported is fs) = length fs"
  by (induction "is" arbitrary: fs) simp_all

lemma confirm_reported_nth:
  "j < length fs \<Longrightarrow> confirm_reported i fs ! j =
     (if j = i then set_file_status ORIGIN_STATUS (file_status (fs ! i) WAITING_STATUS) (fs ! i) else fs ! j)"
  by (simp add: confirm_reported_def)

lemma fold_confirm_nth:
  "distinct is \<Longrightarrow> j < length fs \<Longrightarrow> fold confirm_reported is fs ! j =
     (if j \<in> set is then set_file_status ORIGIN_STATUS (file_status (fs ! j) WAITING_STATUS) (fs ! j) else fs ! j)"
  by (induction "is" arbitrary: fs) (auto simp: confirm_reported_nth)

lemma wf_files_confirm: "list_all wf_file fs \<Longrightarrow> list_all wf_file (confirm_reported i fs)"
  by (auto simp: list_all_length confirm_reported_nth file_status_chars wf_file_set_status)

lemma wl_inv_handle_report_result: "wl_inv w \<Longrightarrow> wl_inv (handle_report_result w)"
proof -
  have "list_all wf_file fs \<Longrightarrow> list_all wf_file (fold confirm_reported is fs)" for "is" fs
    by (induction "is" arbitrary: fs) (auto simp: wf_files_confirm)
  then show "wl_inv w \<Longrightarrow> wl_inv (handle_report_result w)"
    by (simp add: wl_inv_def handle_report_result_def)
qed

section \<open>Properties\<close>

text \<open>
  A report result is applied to exactly the reported files: the status the chain knows becomes
  the waiting status, every other file and every other field of these files stays, and the set
  of reported files is empty afterwards.
\<close>

theorem handle_report_result_exact:
  fixes j :: nat
  assumes "wl_inv w" and "distinct (reported_files_idx w)" and "j < length (checked_files w)"
  defines "f \<equiv> checked_files w ! j" and "f' \<equiv> checked_files (handle_report_result w) ! j"
  shows "file_status f' ORIGIN_STATUS =
      (if j \<in> set (reported_files_idx w) then file_status f WAITING_STATUS else file_status f ORIGIN_STATUS) \<and>
    file_status f' CURRENT_STATUS = file_status f CURRENT_STATUS \<and>
    json_get f' FILE_HASH = json_get f FILE_HASH \<and>
    length (checked_files (handle_report_result w)) = length (checked_files w) \<and>
    reported_files_idx (handle_report_result w) = []"
proof -
  have "wf_file f" using assms(1,3) by (simp add: wl_inv_def list_all_length f_def)
  then show ?thesis
    using assms(2,3) by (simp add: f'_def f_def handle_report_result_def fold_confirm_nth wl_simps)
qed

definition demo_file :: "string \<Rightarrow> int \<Rightarrow> json" where
  "demo_file st n = JObject [(FILE_BLOCK_NUM, JIntegral 1), (FILE_HASH, JHash (replicate 32 7)),
     (FILE_OLD_HASH, JHash (replicate 32 9)), (FILE_OLD_SIZE, JIntegral n), (FILE_SIZE, JIntegral n),
     (FILE_STATUS, JString st)]"

definition demo_workload :: workload where
  "demo_workload = Workload_new \<lparr>
     srd_path2hashs_m = [], checked_files = [], new_files = [], reported_files_idx = [],
     pre_pub_key = replicate 64 0, account_id = [], id_key_pair = \<lparr> kp_pub = replicate 64 0, kp_pri = replicate 32 0 \<rparr>,
     is_set_key_pair = False, mr_enclave = replicate 32 0, report_height = 0, restart_flag = False,
     validated_proof = 0, report_files = True, srd_info_json = JNull, upgrade = False,
     upgrade_status = ENC_UPGRADE_STATUS_NONE, wl_spec_info = JNull \<rparr>"

lemma wf_demo_file: "length st = 3 \<Longrightarrow> set st \<subseteq> status_chars \<Longrightarrow> wf_file (demo_file st n)"
  by (simp add: wf_file_def demo_file_def json_simps json_ok_def omap_ok_def)


theorem handle_report_result_exact_witness:
  "file_status (checked_files (handle_report_result
     (demo_workload \<lparr> checked_files := [demo_file ''110'' 5], reported_files_idx := [0] \<rparr>)) ! 0) ORIGIN_STATUS
   = FILE_STATUS_VALID"
proof -
  let ?w = "demo_workload \<lparr> checked_files := [demo_file ''110'' 5], reported_files_idx := [0] \<rparr>"
  have "wl_inv ?w"
    by (intro wl_inv_frame(1) wl_inv_files) (simp_all add: demo_workload_def wl_inv_new wf_demo_file)
  from handle_report_result_exact [OF this, of 0] show ?thesis
    by (simp add: demo_file_def json_simps)
qed

text \<open>
  The assigned space of a directory never goes below zero: \<open>set_srd_info\<close> adds the change
  and stops at zero, and leaves every other directory alone.
\<close>

theorem set_srd_info_clamped:
  assumes "wl_inv w"
  shows "spec_get (get_srd_info (set_srd_info path change w)) p ''assigned'' =
    (if p = path then max 0 (spec_get (get_srd_info w) path ''assigned'' + change)
     else spec_get (get_srd_info w) p ''assigned'')"
  using assms by (auto simp: wl_inv_def get_srd_info_def set_srd_info_def Let_def json_simps)

theorem set_srd_info_clamped_witness:
  "spec_get (get_srd_info (set_srd_info ''d'' (-3) demo_workload)) ''d'' ''assigned'' = 0"
proof -
  have "wl_inv demo_workload" by (simp add: demo_workload_def wl_inv_new)
  from set_srd_info_clamped [OF this, of "''d''" "-3" "''d''"] show ?thesis
    by (simp add: demo_workload_def get_srd_info_def Workload_new_def spec_get_def json_simps)
qed

text \<open>
  A file of 2 GiB or more is counted backwards: entering a size between \<open>2 ^ 31\<close> and
  \<open>2 ^ 32\<close> lowers the number of files of its status by one and its total size by
  \<open>2 ^ 32\<close> minus the size, because the parameter of \<open>set_wl_spec\<close> is a 32-bit integer.
\<close>

theorem set_wl_spec_large_file:
  fixes st :: char
  assumes "wl_inv w" and "2 ^ 31 \<le> sz" and "sz < 2 ^ 32"
  defines "info \<equiv> get_wl_spec w" and "info' \<equiv> get_wl_spec (set_wl_spec st sz w)"
  shows "spec_get info' (g_file_status st) ''num'' = spec_get info (g_file_status st) ''num'' - 1 \<and>
    spec_get info' (g_file_status st) ''size'' = spec_get info (g_file_status st) ''size'' + sz - 2 ^ 32"
proof -
  have "cast_int sz = sz - 2 ^ 32"
  proof -
    have "(sz + 2 ^ 31) mod 2 ^ 32 = (sz - 2 ^ 31 + 2 ^ 32) mod 2 ^ 32" by (simp add: add.commute)
    also have "\<dots> = sz - 2 ^ 31" using assms(2,3) by (subst mod_add_self2) (simp add: mod_pos_pos_trivial)
    finally show ?thesis by (simp add: cast_int_def)
  qed
  then show ?thesis
    using assms by (simp add: set_wl_spec_def get_wl_spec_def wl_inv_def json_simps)
qed

theorem set_wl_spec_large_file_witness:
  "spec_get (get_wl_spec (set_wl_spec FILE_STATUS_VALID 3000000000 demo_workload)) ''valid'' ''num'' = -1"
proof -
  have "wl_inv demo_workload" by (simp add: demo_workload_def wl_inv_new)
  moreover have "spec_get (get_wl_spec demo_workload) ''valid'' ''num'' = 0"
    by (simp add: g_file_status_def demo_workload_def Workload_new_def get_wl_spec_def json_simps)
  ultimately show ?thesis
    using set_wl_spec_large_file [of demo_workload 3000000000 FILE_STATUS_VALID]
    by (simp add: g_file_status_def)
qed

text \<open>
  The checks before an upgrade, exactly: the work is reportable when the era has passed in
  64-bit arithmetic, the data is validated, the enclave was not just restarted and the files can
  be reported; each failed check has its own status, in this order.
\<close>

theorem try_report_work_success_iff:
  "try_report_work h w = CRUST_SUCCESS \<longleftrightarrow>
     h \<noteq> 0 \<and> 300 \<le> h - report_height w - 10 \<and> 0 < validated_proof w \<and> \<not> restart_flag w \<and> report_files w"
  by (auto simp: try_report_work_def get_report_height_def report_has_validated_proof_def
      get_restart_flag_def get_report_file_flag_def not_less)


text \<open>
  The era check of \<open>try_report_work\<close> does not hold back a block that is less than ten
  blocks after the last report: the difference wraps around and the work counts as reportable,
  although no era has passed.
\<close>

theorem try_report_work_too_early:
  assumes "unat (report_height w) + d < 2 ^ 64" and "0 < d" and "d < 10"
    and "0 < validated_proof w" and "\<not> restart_flag w" and "report_files w"
  shows "try_report_work (report_height w + of_nat d) w = CRUST_SUCCESS"
proof -
  let ?h = "report_height w + of_nat d"
  have "unat ?h = unat (report_height w) + d"
    using assms(1) by (simp add: unat_word_ariths unat_of_nat take_bit_eq_mod)
  then have "?h \<noteq> 0" using assms(2) by (metis add_is_0 less_numeral_extra(3) unat_0)
  moreover have "300 \<le> ?h - report_height w - 10"
  proof -
    have "d \<in> {1, 2, 3, 4, 5, 6, 7, 8, 9}" using assms(2,3) by auto
    then have "(300 :: u64) \<le> of_nat d - 10" by (elim insertE) (simp_all add: word_le_nat_alt unsigned_minus_1_eq_mask mask_eq_exp_minus_1)
    then show ?thesis by simp
  qed
  ultimately show ?thesis
    using assms(4-6) by (simp add: try_report_work_def get_report_height_def report_has_validated_proof_def
        get_restart_flag_def get_report_file_flag_def not_less)
qed

theorem try_report_work_too_early_witness:
  "try_report_work 1003 (demo_workload \<lparr> report_height := 1000, validated_proof := 1 \<rparr>) = CRUST_SUCCESS"
  using try_report_work_too_early [of "demo_workload \<lparr> report_height := 1000, validated_proof := 1 \<rparr>" 3]
  by (simp add: demo_workload_def Workload_new_def)

end
