(* ===== verification/Schedule.thy ===== *)
theory Schedule
  imports Prelude "HOL-Library.Multiset"
begin

text \<open>
  The cooperative scheduler of \<open>src/enclave/schedule\<close>: every long-running entry point
  counts itself in \<open>g_func_m\<close>, and the loops that hold a workload mutex ask
  \<open>sched_check\<close> whether a process they must give way to is running.  The lemmas show that
  under every interleaving of entries, exits and checks the counters are the numbers of running
  processes, so a loop gives way exactly when one of its blockers runs, and that the relation
  ``gives way to'' has no cycle.
\<close>

section \<open>Processes\<close>

datatype sched_process =
    SCHED_GET_WORKREPORT | SCHED_SRD_CHECK_RESERVED | SCHED_CONFIRM_FILE | SCHED_DELETE_FILE
  | SCHED_SEAL | SCHED_UNSEAL | SCHED_VALIDATE_SRD | SCHED_VALIDATE_FILE | SCHED_SRD_CHANGE
  | SCHED_STORE_METADATA

text \<open>The value of an enumerator, by which the maps of the scheduler are ordered.\<close>

primrec sched_index :: "sched_process \<Rightarrow> nat" where
  "sched_index SCHED_GET_WORKREPORT = 0"
| "sched_index SCHED_SRD_CHECK_RESERVED = 1"
| "sched_index SCHED_CONFIRM_FILE = 2"
| "sched_index SCHED_DELETE_FILE = 3"
| "sched_index SCHED_SEAL = 4"
| "sched_index SCHED_UNSEAL = 5"
| "sched_index SCHED_VALIDATE_SRD = 6"
| "sched_index SCHED_VALIDATE_FILE = 7"
| "sched_index SCHED_SRD_CHANGE = 8"
| "sched_index SCHED_STORE_METADATA = 9"

lemma sched_index_inject: "sched_index p = sched_index q \<Longrightarrow> p = q"
  by (cases p; cases q) simp_all

instantiation sched_process :: linorder
begin

definition less_eq_sched_process :: "sched_process \<Rightarrow> sched_process \<Rightarrow> bool" where
  "less_eq_sched_process p q \<longleftrightarrow> sched_index p \<le> sched_index q"

definition less_sched_process :: "sched_process \<Rightarrow> sched_process \<Rightarrow> bool" where
  "less_sched_process p q \<longleftrightarrow> sched_index p < sched_index q"

instance
  by standard (auto simp: less_eq_sched_process_def less_sched_process_def intro: sched_index_inject)

end

section \<open>Operations\<close>

text \<open>The processes a process gives way to; a process with no entry has none.\<close>

fun g_block_func_m :: "sched_process \<Rightarrow> sched_process list" where
  "g_block_func_m SCHED_VALIDATE_SRD = [SCHED_GET_WORKREPORT, SCHED_SRD_CHECK_RESERVED]"
| "g_block_func_m SCHED_VALIDATE_FILE = [SCHED_GET_WORKREPORT, SCHED_CONFIRM_FILE, SCHED_DELETE_FILE]"
| "g_block_func_m SCHED_SRD_CHANGE = [SCHED_GET_WORKREPORT, SCHED_SRD_CHECK_RESERVED]"
| "g_block_func_m SCHED_SRD_CHECK_RESERVED = [SCHED_GET_WORKREPORT]"
| "g_block_func_m _ = []"

type_synonym func_map = "(sched_process, int) omap"

text \<open>Reading \<open>g_func_m[id]\<close>, which enters a missing process with count 0.\<close>

definition func_count :: "func_map \<Rightarrow> sched_process \<Rightarrow> int" where
  "func_count m pid = (case map_of m pid of Some n \<Rightarrow> n | None \<Rightarrow> 0)"

definition func_touch :: "sched_process \<Rightarrow> func_map \<Rightarrow> func_map" where
  "func_touch pid m = omap_upd pid (func_count m pid) m"

definition sched_add :: "sched_process \<Rightarrow> func_map \<Rightarrow> func_map" where
  "sched_add pid m = omap_upd pid (func_count m pid + 1) m"

definition sched_del :: "sched_process \<Rightarrow> func_map \<Rightarrow> func_map" where
  "sched_del pid m = omap_upd pid (func_count m pid - 1) m"

text \<open>
  The loop of \<open>sched_check\<close> over the blockers, with its early exit.  The result says whether
  the caller's mutex is released and taken again.
\<close>

fun sched_scan :: "sched_process list \<Rightarrow> func_map \<Rightarrow> bool \<times> func_map" where
  "sched_scan [] m = (False, m)"
| "sched_scan (proc # procs) m =
     (let m' = func_touch proc m in
      if func_count m' proc > 0 then (True, m') else sched_scan procs m')"

definition sched_check :: "sched_process \<Rightarrow> func_map \<Rightarrow> bool \<times> func_map" where
  "sched_check pid m = sched_scan (g_block_func_m pid) m"

section \<open>Interleavings\<close>

text \<open>
  A configuration is the counter map with the multiset of processes inside the enclave.  Every
  entry point adds itself when it starts and deletes itself when it ends; in between it may check.
\<close>

inductive sched_step :: "func_map \<times> sched_process multiset \<Rightarrow> func_map \<times> sched_process multiset \<Rightarrow> bool" where
  enter: "sched_step (m, A) (sched_add p m, add_mset p A)"
| leave: "p \<in># A \<Longrightarrow> sched_step (m, A) (sched_del p m, A - {#p#})"
| check: "p \<in># A \<Longrightarrow> sched_step (m, A) (snd (sched_check p m), A)"

inductive_cases sched_stepE: "sched_step (m, A) (m', A')"

inductive sched_reachable :: "func_map \<times> sched_process multiset \<Rightarrow> bool" where
  start: "sched_reachable ([], {#})"
| step: "sched_reachable c \<Longrightarrow> sched_step c c' \<Longrightarrow> sched_reachable c'"

definition sched_inv :: "func_map \<times> sched_process multiset \<Rightarrow> bool" where
  "sched_inv c \<longleftrightarrow> omap_ok (fst c) \<and> (\<forall>p. func_count (fst c) p = int (count (snd c) p))"

section \<open>Lemmas\<close>

lemma func_count_upd [omap_simps]:
  "omap_ok m \<Longrightarrow> func_count (omap_upd p n m) q = (if q = p then n else func_count m q)"
  by (simp add: func_count_def omap_simps)

lemma func_count_touch [omap_simps]:
  "omap_ok m \<Longrightarrow> func_count (func_touch p m) = func_count m" "omap_ok m \<Longrightarrow> omap_ok (func_touch p m)"
  by (auto simp: func_touch_def omap_simps)

lemma sched_scan_spec:
  "omap_ok m \<Longrightarrow> omap_ok (snd (sched_scan ps m)) \<and> func_count (snd (sched_scan ps m)) = func_count m \<and>
     (fst (sched_scan ps m) \<longleftrightarrow> (\<exists>p \<in> set ps. 0 < func_count m p))"
  by (induction ps m rule: sched_scan.induct) (auto simp: Let_def omap_simps)

lemma sched_check_frame:
  "omap_ok m \<Longrightarrow> omap_ok (snd (sched_check p m))"
  "omap_ok m \<Longrightarrow> func_count (snd (sched_check p m)) = func_count m"
  using sched_scan_spec [of m "g_block_func_m p"] by (simp_all add: sched_check_def)

lemma sched_check_fst:
  "omap_ok m \<Longrightarrow> fst (sched_check pid m) \<longleftrightarrow> (\<exists>p \<in> set (g_block_func_m pid). 0 < func_count m p)"
  using sched_scan_spec [of m "g_block_func_m pid"] by (simp add: sched_check_def)

lemma sched_inv_step: "sched_inv c \<Longrightarrow> sched_step c c' \<Longrightarrow> sched_inv c'"
  by (cases c; cases c'; simp; erule sched_stepE)
    (auto simp: sched_inv_def sched_add_def sched_del_def omap_simps sched_check_frame of_nat_diff Suc_leI)

lemma sched_inv_reachable: "sched_reachable c \<Longrightarrow> sched_inv c"
  by (induction rule: sched_reachable.induct)
    (auto simp: sched_inv_def [of "([], {#})"] omap_simps func_count_def intro: sched_inv_step)

section \<open>Properties\<close>

text \<open>
  Under every interleaving, \<open>sched_check\<close> releases the caller's mutex exactly when one of
  the processes the caller must give way to is inside the enclave, and no counter is negative.
\<close>

theorem sched_check_releases_iff_blocked:
  assumes "sched_reachable (m, A)"
  shows "(fst (sched_check pid m) \<longleftrightarrow> (\<exists>p \<in> set (g_block_func_m pid). p \<in># A)) \<and>
    (\<forall>p. 0 \<le> func_count m p)"
  using sched_inv_reachable [OF assms] by (simp add: sched_inv_def sched_check_fst)

theorem sched_check_releases_iff_blocked_witness:
  "fst (sched_check SCHED_VALIDATE_FILE (sched_add SCHED_GET_WORKREPORT []))"
proof -
  have "sched_reachable (sched_add SCHED_GET_WORKREPORT [], {#SCHED_GET_WORKREPORT#})"
    using sched_reachable.step [OF sched_reachable.start sched_step.enter] .
  from sched_check_releases_iff_blocked [OF this, of SCHED_VALIDATE_FILE] show ?thesis by simp
qed

text \<open>
  ``Gives way to'' is well-founded: no chain of processes, each waiting for the next one to
  finish, comes back to where it started, and the work report waits for nobody.
\<close>

theorem sched_no_cyclic_waiting:
  "acyclic {(p, q). q \<in> set (g_block_func_m p)} \<and> g_block_func_m SCHED_GET_WORKREPORT = []"
proof -
  have "{(p, q). q \<in> set (g_block_func_m p)} \<subseteq> (measure sched_index)\<inverse>"
  proof clarify
    fix p q assume "q \<in> set (g_block_func_m p)"
    then show "(q, p) \<in> measure sched_index" by (cases p) auto
  qed
  moreover have "acyclic ((measure sched_index)\<inverse>)"
    by (simp add: acyclic_converse wf_acyclic)
  ultimately show ?thesis by (auto intro: acyclic_subset)
qed

end
