(* ===== verification/Env.thy ===== *)
theory Env
  imports JsonText "HOL-Library.Monad_Syntax"
begin

text \<open>
  The outside of the enclave.  The OCALLs the enclave makes and the functions of the SGX runtime
  it relies on are parameters of every definition that calls them: functions over a state
  \<open>'h\<close> of the world outside (database, files, network, entropy).  The host is not trusted, so
  nothing is assumed of these functions unless a theorem says so.

  A computation that the hardware or the C++ runtime would abort (null dereference, write behind
  an allocated buffer, uncaught exception) has the value \<^term>\<open>None\<close>; computations are
  composed with \<open>do\<close> of the option monad.
\<close>

section \<open>OCALLs\<close>

record 'h ocalls =
  ocall_persist_add :: "string \<Rightarrow> bytes \<Rightarrow> 'h \<Rightarrow> crust_status \<times> 'h"
  ocall_persist_add_keys :: "string \<Rightarrow> string \<Rightarrow> 'h \<Rightarrow> crust_status \<times> 'h"
  ocall_persist_del :: "string \<Rightarrow> 'h \<Rightarrow> crust_status \<times> 'h"
  ocall_persist_del_keys :: "string \<Rightarrow> string \<Rightarrow> 'h \<Rightarrow> crust_status \<times> 'h"
  ocall_persist_set :: "string \<Rightarrow> bytes \<Rightarrow> 'h \<Rightarrow> crust_status \<times> 'h"
  ocall_persist_get :: "string \<Rightarrow> 'h \<Rightarrow> (crust_status \<times> bytes) \<times> 'h"
  ocall_free_outer_buffer :: "'h \<Rightarrow> crust_status \<times> 'h"
  ocall_create_dir :: "string \<Rightarrow> 'h \<Rightarrow> crust_status \<times> 'h"
  ocall_rename_dir :: "string \<Rightarrow> string \<Rightarrow> 'h \<Rightarrow> crust_status \<times> 'h"
  ocall_save_file :: "string \<Rightarrow> bytes \<Rightarrow> 'h \<Rightarrow> crust_status \<times> 'h"
  ocall_get_file :: "string \<Rightarrow> 'h \<Rightarrow> (crust_status \<times> bytes option) \<times> 'h"
  ocall_delete_folder_or_file :: "string \<Rightarrow> 'h \<Rightarrow> crust_status \<times> 'h"
  ocall_get_storage_file :: "string \<Rightarrow> 'h \<Rightarrow> (crust_status \<times> bytes option) \<times> 'h"
  ocall_replace_file :: "string \<Rightarrow> string \<Rightarrow> bytes \<Rightarrow> 'h \<Rightarrow> crust_status \<times> 'h"
  ocall_store_sealed_merkletree :: "string \<Rightarrow> string \<Rightarrow> 'h \<Rightarrow> 'h"
  ocall_validate_init :: "'h \<Rightarrow> crust_status \<times> 'h"
  ocall_validate_get_file :: "string \<Rightarrow> string \<Rightarrow> 'h \<Rightarrow> (crust_status \<times> bytes) \<times> 'h"
  ocall_validate_close :: "'h \<Rightarrow> 'h"
  ocall_usleep :: "int \<Rightarrow> 'h \<Rightarrow> 'h"
  ocall_upload_workreport :: "string \<Rightarrow> 'h \<Rightarrow> crust_status \<times> 'h"
  ocall_srd_info_lock :: "'h \<Rightarrow> 'h"
  ocall_srd_info_unlock :: "'h \<Rightarrow> 'h"
  ocall_store_workload :: "string \<Rightarrow> bool \<Rightarrow> 'h \<Rightarrow> 'h"
  ocall_store_upgrade_data :: "bytes \<Rightarrow> bool \<Rightarrow> 'h \<Rightarrow> 'h"
  ocall_store_enclave_id_info :: "string \<Rightarrow> 'h \<Rightarrow> 'h"
  ocall_get_block_hash :: "u64 \<Rightarrow> 'h \<Rightarrow> (crust_status \<times> string) \<times> 'h"
  ocall_entry_network :: "'h \<Rightarrow> crust_status \<times> 'h"
  ocall_upload_identity :: "string \<Rightarrow> 'h \<Rightarrow> crust_status \<times> 'h"

section \<open>The SGX runtime\<close>

text \<open>The fields of a report the enclave reads or hands on.\<close>

record sgx_report =
  body_mr_enclave :: bytes
  body_report_data :: bytes

text \<open>
  Allocation, hashing, sealing, entropy, keys, signatures and reports.  Where the code tests only
  whether a call failed, a failed call gives \<^term>\<open>None\<close>; where it hands the status on, the
  status is part of the result.  A created key pair is the private and the public key; a report is
  made for a target and carries the given data.
\<close>

record 'h sgx =
  alloc :: malloc
  sha256 :: "bytes \<Rightarrow> bytes"
  sgx_calc_sealed_data_size :: "nat \<Rightarrow> nat"
  sgx_seal_data_ex :: "bytes \<Rightarrow> 'h \<Rightarrow> bytes option \<times> 'h"
  sgx_seal_data :: "bytes \<Rightarrow> 'h \<Rightarrow> bytes option \<times> 'h"
  sgx_get_encrypt_txt_len :: "bytes \<Rightarrow> nat"
  sgx_unseal_data :: "bytes \<Rightarrow> bytes option"
  sgx_read_rand :: "nat \<Rightarrow> 'h \<Rightarrow> bytes \<times> 'h"
  sgx_ecc256_open_context :: "'h \<Rightarrow> sgx_status \<times> 'h"
  sgx_ecc256_create_key_pair :: "'h \<Rightarrow> (sgx_status \<times> bytes \<times> bytes) \<times> 'h"
  sgx_ecdsa_sign :: "bytes \<Rightarrow> bytes \<Rightarrow> 'h \<Rightarrow> bytes option \<times> 'h"
  sgx_ecdsa_verify :: "bytes \<Rightarrow> bytes \<Rightarrow> bytes \<Rightarrow> bool option"
  sgx_create_report :: "bytes \<Rightarrow> bytes \<Rightarrow> 'h \<Rightarrow> (sgx_status \<times> sgx_report) \<times> 'h"

text \<open>Parsing inside the enclave: an exception or a read past the buffer ends the enclave.\<close>

definition Load :: "malloc \<Rightarrow> bool \<Rightarrow> string \<Rightarrow> json option" where
  "Load mm raw s = (case json_Load mm raw s of Inl _ \<Rightarrow> None | Inr j \<Rightarrow> Some j)"

section \<open>Sealing\<close>

text \<open>
  Both sealing functions narrow the length of the source to 32 bits, allocate the result, try
  the same allocation once more and call the runtime.  The variant for the signer tests the
  wrong pointer after the first allocation, so a failure there is a null dereference.
\<close>

definition Sgx_seal_data_ex :: "'h sgx \<Rightarrow> bytes \<Rightarrow> nat \<Rightarrow> 'h \<Rightarrow> bytes option \<times> 'h" where
  "Sgx_seal_data_ex S src sz h =
     (if \<not> enc_malloc (alloc S) sz then (None, h) else sgx_seal_data_ex S src h)"

definition Sgx_seal_data :: "'h sgx \<Rightarrow> bytes \<Rightarrow> nat \<Rightarrow> 'h \<Rightarrow> bytes option \<times> 'h" where
  "Sgx_seal_data S src sz h =
     (if \<not> enc_malloc (alloc S) sz then (None, h) else sgx_seal_data S src h)"

definition seal_data_mrenclave :: "'h sgx \<Rightarrow> bytes \<Rightarrow> 'h \<Rightarrow> (crust_status \<times> bytes) \<times> 'h" where
  "seal_data_mrenclave S src h =
     (let src' = take (uint32 (length src)) src;
          sealed_data_sz = sgx_calc_sealed_data_size S (length src')
      in if \<not> enc_malloc (alloc S) sealed_data_sz then ((CRUST_MALLOC_FAILED, []), h)
         else case Sgx_seal_data_ex S src' sealed_data_sz h of
           (None, h1) \<Rightarrow> ((CRUST_SEAL_DATA_FAILED, []), h1)
         | (Some d, h1) \<Rightarrow> ((CRUST_SUCCESS, d), h1))"

definition seal_data_mrsigner :: "'h sgx \<Rightarrow> bytes \<Rightarrow> 'h \<Rightarrow> ((crust_status \<times> bytes) \<times> 'h) option" where
  "seal_data_mrsigner S src h =
     (let src' = take (uint32 (length src)) src;
          sealed_data_sz = sgx_calc_sealed_data_size S (length src')
      in if \<not> enc_malloc (alloc S) sealed_data_sz then None
         else case Sgx_seal_data S src' sealed_data_sz h of
           (None, h1) \<Rightarrow> Some ((CRUST_SEAL_DATA_FAILED, []), h1)
         | (Some d, h1) \<Rightarrow> Some ((CRUST_SUCCESS, d), h1))"

text \<open>
  What the SGX documentation promises of sealing: the sealed buffer has the announced size and
  knows the size of its text, and unsealing it in the same enclave gives the text back.
\<close>

definition sealing_ok :: "'h sgx \<Rightarrow> bool" where
  "sealing_ok S \<longleftrightarrow> (\<forall>src h d h'. sgx_seal_data_ex S src h = (Some d, h') \<longrightarrow>
     length d = sgx_calc_sealed_data_size S (length src) \<and> sgx_get_encrypt_txt_len S d = length src \<and>
     sgx_unseal_data S d = Some src)"

lemma sealing_okD:
  assumes "sealing_ok S" and "sgx_seal_data_ex S src h = (Some d, h')"
  shows "length d = sgx_calc_sealed_data_size S (length src)" and "sgx_unseal_data S d = Some src"
  using assms unfolding sealing_ok_def by blast+

section \<open>A quiet outside\<close>

text \<open>
  An outside that accepts everything and changes nothing, and a runtime with unlimited memory whose
  cryptography is the identity.  They only serve to evaluate the definitions on concrete inputs.
\<close>

definition quiet_ocalls :: "'h ocalls" where
  "quiet_ocalls = \<lparr>
     ocall_persist_add = (\<lambda>_ _ h. (CRUST_SUCCESS, h)), ocall_persist_add_keys = (\<lambda>_ _ h. (CRUST_SUCCESS, h)),
     ocall_persist_del = (\<lambda>_ h. (CRUST_SUCCESS, h)), ocall_persist_del_keys = (\<lambda>_ _ h. (CRUST_SUCCESS, h)),
     ocall_persist_set = (\<lambda>_ _ h. (CRUST_SUCCESS, h)),
     ocall_persist_get = (\<lambda>_ h. ((CRUST_PERSIST_GET_FAILED, []), h)),
     ocall_free_outer_buffer = (\<lambda>h. (CRUST_SUCCESS, h)), ocall_create_dir = (\<lambda>_ h. (CRUST_SUCCESS, h)),
     ocall_rename_dir = (\<lambda>_ _ h. (CRUST_SUCCESS, h)), ocall_save_file = (\<lambda>_ _ h. (CRUST_SUCCESS, h)),
     ocall_get_file = (\<lambda>_ h. ((CRUST_SUCCESS, None), h)),
     ocall_delete_folder_or_file = (\<lambda>_ h. (CRUST_SUCCESS, h)),
     ocall_get_storage_file = (\<lambda>_ h. ((CRUST_SUCCESS, None), h)),
     ocall_replace_file = (\<lambda>_ _ _ h. (CRUST_SUCCESS, h)), ocall_store_sealed_merkletree = (\<lambda>_ _ h. h),
     ocall_validate_init = (\<lambda>h. (CRUST_SUCCESS, h)),
     ocall_validate_get_file = (\<lambda>_ _ h. ((CRUST_SUCCESS, []), h)), ocall_validate_close = (\<lambda>h. h),
     ocall_usleep = (\<lambda>_ h. h), ocall_upload_workreport = (\<lambda>_ h. (CRUST_SUCCESS, h)),
     ocall_srd_info_lock = (\<lambda>h. h), ocall_srd_info_unlock = (\<lambda>h. h), ocall_store_workload = (\<lambda>_ _ h. h),
     ocall_store_upgrade_data = (\<lambda>_ _ h. h), ocall_store_enclave_id_info = (\<lambda>_ h. h),
     ocall_get_block_hash = (\<lambda>_ h. ((CRUST_SUCCESS, replicate 64 (CHR ''0'')), h)),
     ocall_entry_network = (\<lambda>h. (CRUST_SUCCESS, h)),
     ocall_upload_identity = (\<lambda>_ h. (CRUST_SUCCESS, h)) \<rparr>"

definition quiet_sgx :: "'h sgx" where
  "quiet_sgx = \<lparr>
     alloc = mem_ok, sha256 = (\<lambda>b. replicate HASH_LENGTH 0), sgx_calc_sealed_data_size = (\<lambda>n. n),
     sgx_seal_data_ex = (\<lambda>src h. (Some src, h)), sgx_seal_data = (\<lambda>src h. (Some src, h)),
     sgx_get_encrypt_txt_len = length, sgx_unseal_data = Some, sgx_read_rand = (\<lambda>n h. (replicate n 0, h)),
     sgx_ecc256_open_context = (\<lambda>h. (SGX_SUCCESS, h)),
     sgx_ecc256_create_key_pair = (\<lambda>h. ((SGX_SUCCESS, replicate 32 1, replicate 64 2), h)),
     sgx_ecdsa_sign = (\<lambda>_ _ h. (Some (replicate 64 3), h)), sgx_ecdsa_verify = (\<lambda>_ _ _. Some True),
     sgx_create_report = (\<lambda>_ d h. ((SGX_SUCCESS, \<lparr> body_mr_enclave = replicate 32 0, body_report_data = d \<rparr>), h)) \<rparr>"

lemma quiet_sgx_simps [simp]:
  "alloc quiet_sgx = mem_ok" "sha256 quiet_sgx b = replicate HASH_LENGTH 0" "sgx_read_rand quiet_sgx n h = (replicate n 0, h)"
  "sgx_seal_data quiet_sgx src h = (Some src, h)" "sgx_calc_sealed_data_size quiet_sgx k = k"
  "sgx_unseal_data quiet_sgx d = Some d" "sgx_get_encrypt_txt_len quiet_sgx d = length d"
  by (simp_all add: quiet_sgx_def)

end
