(* ===== verification/Persistence.thy ===== *)
theory Persistence
  imports Env
begin

text \<open>
  Storing and fetching through the database outside, \<open>src/enclave/persistence/Persistence.cpp\<close>.
  Values longer than an OCALL may carry are split into pieces stored under numbered keys, with a
  record under \<open><key>_sum\<close> that tells how many pieces there are and how long they are together.

  The lemmas show that on a database that keeps what it is given, fetching a key returns the
  value stored last, whatever its length and whatever was stored under the key before, sealed or
  not; and that a database that lies about the length makes the enclave write behind its buffer.
\<close>

section \<open>Records in the database\<close>

definition piece_key :: "string \<Rightarrow> nat \<Rightarrow> string" where
  "piece_key key i = key @ ''_'' @ to_string i"

definition sum_key :: "string \<Rightarrow> string" where
  "sum_key key = key @ ''_sum''"

definition sum_json :: "nat \<Rightarrow> nat \<Rightarrow> json" where
  "sum_json index sz =
     json_set (json_set JNull PERSIST_SUM (JIntegral (int index))) PERSIST_SIZE (JIntegral (int sz))"

definition sum_str :: "malloc \<Rightarrow> nat \<Rightarrow> nat \<Rightarrow> bytes" where
  "sum_str mm index sz = bytes_of_string (strip_dump (json_dump mm (sum_json index sz)))"

section \<open>Plain operations\<close>

definition persist_add :: "'h sgx \<Rightarrow> 'h ocalls \<Rightarrow> string \<Rightarrow> bytes \<Rightarrow> 'h \<Rightarrow> crust_status \<times> 'h" where
  "persist_add S H key val h = (case seal_data_mrenclave S val h of
     ((st, d), h1) \<Rightarrow> if st \<noteq> CRUST_SUCCESS then (st, h1) else ocall_persist_add H key d h1)"

definition persist_add_keys_unsafe :: "'h ocalls \<Rightarrow> string \<Rightarrow> string \<Rightarrow> 'h \<Rightarrow> crust_status \<times> 'h" where
  "persist_add_keys_unsafe H key keys h = ocall_persist_add_keys H key keys h"

definition persist_del :: "'h ocalls \<Rightarrow> string \<Rightarrow> 'h \<Rightarrow> crust_status \<times> 'h" where
  "persist_del H key h = ocall_persist_del H key h"

definition persist_del_keys_unsafe :: "'h ocalls \<Rightarrow> string \<Rightarrow> string \<Rightarrow> 'h \<Rightarrow> crust_status \<times> 'h" where
  "persist_del_keys_unsafe H key keys h = ocall_persist_del_keys H key keys h"

text \<open>\<open>inner_ocall_persist_get\<close>: the value outside is copied in and the buffer outside freed.\<close>

definition inner_ocall_persist_get ::
  "malloc \<Rightarrow> 'h ocalls \<Rightarrow> string \<Rightarrow> 'h \<Rightarrow> (crust_status \<times> bytes) \<times> 'h" where
  "inner_ocall_persist_get mm H key h = (case ocall_persist_get H key h of
     ((st, temp), h1) \<Rightarrow>
       if st \<noteq> CRUST_SUCCESS then ((st, []), h1)
       else if \<not> enc_malloc mm (length temp) then
         (case ocall_free_outer_buffer H h1 of
            (st2, h2) \<Rightarrow> ((if st2 \<noteq> CRUST_SUCCESS then st2 else CRUST_MALLOC_FAILED, []), h2))
       else
         (case ocall_free_outer_buffer H h1 of
            (st2, h2) \<Rightarrow> if st2 \<noteq> CRUST_SUCCESS then ((st2, []), h2) else ((CRUST_SUCCESS, temp), h2)))"

section \<open>Storing\<close>

text \<open>The pieces of a long value: the loop bounds are those of \<open>store_large_data\<close>.\<close>

definition pieces :: "bytes \<Rightarrow> bytes list" where
  "pieces val = map fst (store_parts val 0 True)"

text \<open>The unsealed variant goes on after a piece that was not stored.\<close>

fun set_pieces :: "'h ocalls \<Rightarrow> string \<Rightarrow> nat \<Rightarrow> bytes list \<Rightarrow> 'h \<Rightarrow> 'h" where
  "set_pieces H key index [] h = h"
| "set_pieces H key index (p # ps) h =
     set_pieces H key (Suc index) ps (snd (ocall_persist_set H (piece_key key index) p h))"

text \<open>The sealed variant stops there.\<close>

fun set_pieces_checked :: "'h ocalls \<Rightarrow> string \<Rightarrow> nat \<Rightarrow> bytes list \<Rightarrow> 'h \<Rightarrow> crust_status \<times> 'h" where
  "set_pieces_checked H key index [] h = (CRUST_SUCCESS, h)"
| "set_pieces_checked H key index (p # ps) h = (case ocall_persist_set H (piece_key key index) p h of
     (st, h1) \<Rightarrow> if st \<noteq> CRUST_SUCCESS then (st, h1) else set_pieces_checked H key (Suc index) ps h1)"

text \<open>Deleting the pieces of an earlier long value, as announced by its sum record.\<close>

fun del_pieces :: "'h ocalls \<Rightarrow> string \<Rightarrow> nat list \<Rightarrow> 'h \<Rightarrow> 'h" where
  "del_pieces H key [] h = h"
| "del_pieces H key (i # is) h = del_pieces H key is (snd (persist_del H (piece_key key i) h))"

definition del_old :: "malloc \<Rightarrow> 'h ocalls \<Rightarrow> string \<Rightarrow> 'h \<Rightarrow> 'h option" where
  "del_old mm H key h = (case inner_ocall_persist_get mm H (sum_key key) h of
     ((st, val), h1) \<Rightarrow>
       if st = CRUST_SUCCESS then do {
         j \<leftarrow> Load mm False (string_of_bytes val);
         let piece_num = uint32 (size_of_int (ToInt (json_get j PERSIST_SUM)));
         let h2 = del_pieces H key [0..<piece_num] h1;
         Some (snd (persist_del H (sum_key key) h2))
       } else Some h1)"

definition persist_set_unsafe ::
  "malloc \<Rightarrow> 'h ocalls \<Rightarrow> string \<Rightarrow> bytes \<Rightarrow> 'h \<Rightarrow> (crust_status \<times> 'h) option" where
  "persist_set_unsafe mm H key val h =
     (if OCALL_STORE_THRESHOLD < length val then
        let ps = pieces val; h1 = set_pieces H key 0 ps h in
        Some (ocall_persist_set H (sum_key key) (sum_str mm (length ps) (length val)) h1)
      else do {
        h1 \<leftarrow> del_old mm H key h;
        Some (ocall_persist_set H key val h1)
      })"

definition persist_set ::
  "'h sgx \<Rightarrow> 'h ocalls \<Rightarrow> string \<Rightarrow> bytes \<Rightarrow> 'h \<Rightarrow> (crust_status \<times> 'h) option" where
  "persist_set S H key val h = (case seal_data_mrenclave S val h of
     ((st, d), h1) \<Rightarrow>
       if st \<noteq> CRUST_SUCCESS then Some (st, h1)
       else if OCALL_STORE_THRESHOLD < length d then
         let ps = pieces d in
         (case set_pieces_checked H key 0 ps h1 of
            (st2, h2) \<Rightarrow>
              if st2 \<noteq> CRUST_SUCCESS then Some (st2, h2)
              else Some (ocall_persist_set H (sum_key key) (sum_str (alloc S) (length ps) (length d)) h2))
       else do {
         h2 \<leftarrow> del_old (alloc S) H key h1;
         Some (ocall_persist_set H key d h2)
       })"

section \<open>Fetching\<close>

text \<open>
  The pieces are copied one after another into a buffer of the announced size; \<open>None\<close> when a
  piece does not fit.  The unsealed variant goes on after a piece it cannot get and returns the
  status of the last one; the sealed variant stops there.
\<close>

fun get_pieces ::
  "malloc \<Rightarrow> 'h ocalls \<Rightarrow> string \<Rightarrow> nat \<Rightarrow> nat list \<Rightarrow> crust_status \<Rightarrow> bytes \<Rightarrow> 'h \<Rightarrow>
     ((crust_status \<times> bytes) \<times> 'h) option" where
  "get_pieces mm H key sz [] st buf h = Some ((st, buf), h)"
| "get_pieces mm H key sz (i # is) st buf h = (case inner_ocall_persist_get mm H (piece_key key i) h of
     ((st', part), h1) \<Rightarrow>
       if sz < length buf + length part then None
       else get_pieces mm H key sz is st' (buf @ part) h1)"

fun get_pieces_checked ::
  "malloc \<Rightarrow> 'h ocalls \<Rightarrow> string \<Rightarrow> nat \<Rightarrow> nat list \<Rightarrow> bytes \<Rightarrow> 'h \<Rightarrow> ((crust_status \<times> bytes) \<times> 'h) option" where
  "get_pieces_checked mm H key sz [] buf h = Some ((CRUST_SUCCESS, buf), h)"
| "get_pieces_checked mm H key sz (i # is) buf h = (case inner_ocall_persist_get mm H (piece_key key i) h of
     ((st, part), h1) \<Rightarrow>
       if st \<noteq> CRUST_SUCCESS then Some ((st, []), h1)
       else if sz < length buf + length part then None
       else get_pieces_checked mm H key sz is (buf @ part) h1)"

text \<open>A buffer that was cleared before it was filled from the front.\<close>

definition padded :: "nat \<Rightarrow> bytes \<Rightarrow> bytes" where
  "padded sz buf = buf @ replicate (sz - length buf) 0"

definition persist_get_unsafe ::
  "malloc \<Rightarrow> 'h ocalls \<Rightarrow> string \<Rightarrow> 'h \<Rightarrow> ((crust_status \<times> bytes option) \<times> 'h) option" where
  "persist_get_unsafe mm H key h = (case inner_ocall_persist_get mm H (sum_key key) h of
     ((st, val), h1) \<Rightarrow>
       if st = CRUST_SUCCESS then do {
         j \<leftarrow> Load mm False (string_of_bytes val);
         let piece_num = uint32 (size_of_int (ToInt (json_get j PERSIST_SUM)));
         let data_len = size_of_int (ToInt (json_get j PERSIST_SIZE));
         if \<not> enc_malloc mm data_len then Some ((CRUST_MALLOC_FAILED, None), h1)
         else do {
           ((st2, buf), h2) \<leftarrow> get_pieces mm H key data_len [0..<piece_num] CRUST_SUCCESS [] h1;
           Some ((st2, Some (padded data_len buf)), h2)
         }
       } else (case inner_ocall_persist_get mm H key h1 of
         ((st2, data), h2) \<Rightarrow>
           if st2 \<noteq> CRUST_SUCCESS then Some ((st2, None), h2)
           else if \<not> enc_malloc mm (length data) then Some ((CRUST_MALLOC_FAILED, None), h2)
           else Some ((CRUST_SUCCESS, Some data), h2)))"

text \<open>Unsealing what was fetched.  A failed allocation returns success without a value.\<close>

definition unseal_fetched :: "'h sgx \<Rightarrow> bytes \<Rightarrow> crust_status \<times> bytes option" where
  "unseal_fetched S d =
     (if \<not> enc_malloc (alloc S) (sgx_get_encrypt_txt_len S d) then (CRUST_SUCCESS, None)
      else case sgx_unseal_data S d of
        None \<Rightarrow> (CRUST_UNSEAL_DATA_FAILED, None)
      | Some v \<Rightarrow> (CRUST_SUCCESS, Some v))"

definition persist_get ::
  "'h sgx \<Rightarrow> 'h ocalls \<Rightarrow> string \<Rightarrow> 'h \<Rightarrow> ((crust_status \<times> bytes option) \<times> 'h) option" where
  "persist_get S H key h = (case inner_ocall_persist_get (alloc S) H (sum_key key) h of
     ((st, val), h1) \<Rightarrow>
       if st = CRUST_SUCCESS then do {
         j \<leftarrow> Load (alloc S) False (string_of_bytes val);
         let sealed_data_size = size_of_int (ToInt (json_get j PERSIST_SIZE));
         let piece_num = uint32 (size_of_int (ToInt (json_get j PERSIST_SUM)));
         if \<not> enc_malloc (alloc S) sealed_data_size then Some ((CRUST_MALLOC_FAILED, None), h1)
         else do {
           ((st2, buf), h2) \<leftarrow> get_pieces_checked (alloc S) H key sealed_data_size [0..<piece_num] [] h1;
           if st2 \<noteq> CRUST_SUCCESS then Some ((st2, None), h2)
           else Some (unseal_fetched S (padded sealed_data_size buf), h2)
         }
       } else (case inner_ocall_persist_get (alloc S) H key h1 of
         ((st2, d), h2) \<Rightarrow>
           if st2 \<noteq> CRUST_SUCCESS then Some ((st2, None), h2)
           else if \<not> enc_malloc (alloc S) (length d) then Some ((CRUST_MALLOC_FAILED, None), h2)
           else Some (unseal_fetched S d, h2)))"

section \<open>Lemmas: records\<close>

lemma piece_key_inject [simp]: "piece_key key i = piece_key key j \<longleftrightarrow> i = j"
  by (simp add: piece_key_def)

lemma piece_key_not_sum: "piece_key key i \<noteq> sum_key key"
proof
  assume "piece_key key i = sum_key key"
  then have "to_string i = ''sum''" by (simp add: piece_key_def sum_key_def)
  with to_string_digits [of i] show False by (simp add: is_digit_def)
qed

lemma key_not_sum [simp]: "key \<noteq> sum_key key" "sum_key key \<noteq> key"
  by (simp_all add: sum_key_def)

lemma sum_json_eq:
  "sum_json k n = JObject [(PERSIST_SIZE, JIntegral (int n)), (PERSIST_SUM, JIntegral (int k))]"
  by (simp add: sum_json_def json_set_def json_members_def SetType_def)

lemma Load_sum_str:
  assumes "hash_memory mm" and "int k \<le> LONG_MAX" and "int n \<le> LONG_MAX"
  shows "Load mm False (string_of_bytes (sum_str mm k n)) = Some (sum_json k n)"
proof -
  have "simple (sum_json k n)"
    using assms(2,3) by (simp add: sum_json_eq omap_ok_def plain_def plain_char_def LONG_MAX_def)
  then show ?thesis
    using json_Load_text [OF assms(1), of "sum_json k n" False] strip_dump_compact [OF assms(1), of "sum_json k n" 1]
    by (simp add: Load_def sum_str_def sum_json_eq)
qed

lemma sum_json_get [simp]:
  "ToInt (json_get (sum_json k n) PERSIST_SUM) = int k" "ToInt (json_get (sum_json k n) PERSIST_SIZE) = int n"
  by (simp_all add: sum_json_eq json_simps)

lemma concat_pieces: "concat (pieces val) = val"
  using store_parts_concat [of 0 val True] by (simp add: pieces_def)

lemma length_pieces_le: "length (pieces val) \<le> length val"
proof -
  have *: "offset \<le> length val \<Longrightarrow> length (store_parts val offset c) \<le> length val - offset" for offset c
  proof (induction val offset c rule: store_parts.induct)
    case (1 data offset c)
    then show ?case
      by (subst store_parts.simps) (auto simp: Let_def min_def, use OCALL_STORE_THRESHOLD_pos in linarith)
  qed
  show ?thesis using * [of 0 True] by (simp add: pieces_def)
qed

section \<open>A database that keeps what it is given\<close>

text \<open>
  What the enclave's storage relies on of the OCALLs: a stored value is read back until it is
  replaced or deleted, a missing key is reported as such, and freeing an outside buffer succeeds.
  \<open>view h\<close> is the contents of the database in the outside state \<open>h\<close>.
\<close>

locale key_value_store =
  fixes H :: "'h ocalls"
    and view :: "'h \<Rightarrow> string \<Rightarrow> bytes option"
  assumes set_ok: "fst (ocall_persist_set H key val h) = CRUST_SUCCESS"
    and set_view: "view (snd (ocall_persist_set H key val h)) = (view h)(key \<mapsto> val)"
    and del_view: "view (snd (ocall_persist_del H key h)) = (view h)(key := None)"
    and get_some: "view h key = Some val \<Longrightarrow> fst (ocall_persist_get H key h) = (CRUST_SUCCESS, val)"
    and get_none: "view h key = None \<Longrightarrow> fst (fst (ocall_persist_get H key h)) \<noteq> CRUST_SUCCESS"
    and get_view: "view (snd (ocall_persist_get H key h)) = view h"
    and free_ok: "fst (ocall_free_outer_buffer H h) = CRUST_SUCCESS"
    and free_view: "view (snd (ocall_free_outer_buffer H h)) = view h"
begin

lemma inner_get_view: "view (snd (inner_ocall_persist_get mm H key h)) = view h"
  by (simp add: inner_ocall_persist_get_def case_prod_beta get_view free_view)

lemma inner_get_some:
  assumes "view h key = Some val" and "enc_malloc mm (length val)"
  shows "fst (inner_ocall_persist_get mm H key h) = (CRUST_SUCCESS, val)"
  using get_some [OF assms(1)] assms(2)
  by (simp add: inner_ocall_persist_get_def case_prod_beta free_ok)

lemma inner_get_none:
  assumes "view h key = None"
  shows "fst (fst (inner_ocall_persist_get mm H key h)) \<noteq> CRUST_SUCCESS"
  using get_none [OF assms] by (simp add: inner_ocall_persist_get_def case_prod_beta)

lemma set_pieces_other:
  "(\<And>j. i \<le> j \<Longrightarrow> k \<noteq> piece_key key j) \<Longrightarrow> view (set_pieces H key i ps h) k = view h k"
  by (induction ps arbitrary: i h) (simp_all add: set_view)

lemma set_pieces_at:
  "j < length ps \<Longrightarrow> view (set_pieces H key i ps h) (piece_key key (i + j)) = Some (ps ! j)"
proof (induction ps arbitrary: i j h)
  case (Cons p ps)
  show ?case
  proof (cases j)
    case 0
    have "view (set_pieces H key (Suc i) ps (snd (ocall_persist_set H (piece_key key i) p h))) (piece_key key i) =
        view (snd (ocall_persist_set H (piece_key key i) p h)) (piece_key key i)"
      by (rule set_pieces_other) simp
    then show ?thesis using 0 by (simp add: set_view)
  next
    case (Suc j')
    then show ?thesis using Cons.IH [of j' "Suc i"] Cons.prems by simp
  qed
qed simp

lemma set_pieces_checked_eq:
  "set_pieces_checked H key i ps h = (CRUST_SUCCESS, set_pieces H key i ps h)"
  by (induction ps arbitrary: i h) (simp_all add: case_prod_beta set_ok)

lemma del_pieces_view: "view (del_pieces H key is h) k = (if k \<in> piece_key key ` set is then None else view h k)"
  by (induction "is" arbitrary: h) (auto simp: persist_del_def del_view)

text \<open>Fetching stored pieces fills the buffer with their concatenation.\<close>

lemma get_pieces_step:
  assumes "view h (piece_key key i) = Some p" and "enc_malloc mm (length p)"
  obtains h1 where "inner_ocall_persist_get mm H (piece_key key i) h = ((CRUST_SUCCESS, p), h1)"
    and "view h1 = view h"
  using inner_get_some [OF assms] inner_get_view [of mm "piece_key key i" h]
  by (cases "inner_ocall_persist_get mm H (piece_key key i) h") auto

lemma get_pieces_all:
  assumes "length buf + length (concat ps) \<le> sz"
    and "\<And>j. j < length ps \<Longrightarrow> view h (piece_key key (i + j)) = Some (ps ! j)"
    and "\<And>n. enc_malloc mm n"
  shows "\<exists>h'. get_pieces mm H key sz [i..<i + length ps] CRUST_SUCCESS buf h =
        Some ((CRUST_SUCCESS, buf @ concat ps), h') \<and>
      get_pieces_checked mm H key sz [i..<i + length ps] buf h =
        Some ((CRUST_SUCCESS, buf @ concat ps), h')"
  using assms(1,2)
proof (induction ps arbitrary: i buf h)
  case (Cons p ps)
  have "view h (piece_key key i) = Some p" using Cons.prems(2) [of 0] by simp
  then obtain h1 where h1: "inner_ocall_persist_get mm H (piece_key key i) h = ((CRUST_SUCCESS, p), h1)"
    "view h1 = view h" using assms(3) by (rule get_pieces_step)
  have "\<exists>h'. get_pieces mm H key sz [Suc i..<Suc i + length ps] CRUST_SUCCESS (buf @ p) h1 =
        Some ((CRUST_SUCCESS, (buf @ p) @ concat ps), h') \<and>
      get_pieces_checked mm H key sz [Suc i..<Suc i + length ps] (buf @ p) h1 =
        Some ((CRUST_SUCCESS, (buf @ p) @ concat ps), h')"
  proof (rule Cons.IH)
    show "view h1 (piece_key key (Suc i + j)) = Some (ps ! j)" if "j < length ps" for j
      using Cons.prems(2) [of "Suc j"] that h1(2) by simp
  qed (use Cons.prems(1) in simp)
  moreover have "[i..<i + length (p # ps)] = i # [Suc i..<Suc i + length ps]"
    using upt_conv_Cons [of i "i + length (p # ps)"] by simp
  ultimately show ?case using h1(1) Cons.prems(1) by simp
qed simp

text \<open>
  A state is readable under a key when the sum record of the key, if there is one, can be parsed.
\<close>

definition readable :: "malloc \<Rightarrow> string \<Rightarrow> 'h \<Rightarrow> bool" where
  "readable mm key h \<longleftrightarrow> (\<forall>v. view h (sum_key key) = Some v \<longrightarrow> Load mm False (string_of_bytes v) \<noteq> None)"

lemma del_old_view:
  assumes "readable mm key h" and "\<And>n. enc_malloc mm n"
  obtains h1 where "del_old mm H key h = Some h1" and "view h1 (sum_key key) = None"
proof (cases "view h (sum_key key)")
  case None
  from inner_get_none [OF this, of mm] inner_get_view [of mm "sum_key key" h] None show ?thesis
    by (intro that [of "snd (inner_ocall_persist_get mm H (sum_key key) h)"])
      (simp_all add: del_old_def case_prod_beta)
next
  case (Some v)
  then obtain j where j: "Load mm False (string_of_bytes v) = Some j"
    using assms(1) by (auto simp: readable_def)
  from inner_get_some [OF Some assms(2)] show ?thesis
    using j by (intro that) (auto simp: del_old_def case_prod_beta Let_def persist_del_def del_view)
qed

text \<open>The state after a long value was stored, and what fetching finds in it.\<close>

definition holds_long :: "malloc \<Rightarrow> string \<Rightarrow> bytes \<Rightarrow> 'h \<Rightarrow> bool" where
  "holds_long mm key val h \<longleftrightarrow>
     view h (sum_key key) = Some (sum_str mm (length (pieces val)) (length val)) \<and>
     (\<forall>j < length (pieces val). view h (piece_key key j) = Some (pieces val ! j))"

lemma holds_long_stored:
  "holds_long mm key val
     (snd (ocall_persist_set H (sum_key key) (sum_str mm (length (pieces val)) (length val))
       (set_pieces H key 0 (pieces val) h)))"
  using set_pieces_at [of _ "pieces val" key 0 h]
  by (simp add: holds_long_def set_view piece_key_not_sum)

lemma get_long:
  assumes "holds_long mm key val h" and mem: "\<And>n t. mm n t" and "length val < 2 ^ 32"
  obtains h1 h2 where "inner_ocall_persist_get mm H (sum_key key) h =
      ((CRUST_SUCCESS, sum_str mm (length (pieces val)) (length val)), h1)"
    and "get_pieces mm H key (length val) [0..<length (pieces val)] CRUST_SUCCESS [] h1 =
      Some ((CRUST_SUCCESS, val), h2)"
    and "get_pieces_checked mm H key (length val) [0..<length (pieces val)] [] h1 =
      Some ((CRUST_SUCCESS, val), h2)"
    and "Load mm False (string_of_bytes (sum_str mm (length (pieces val)) (length val))) =
      Some (sum_json (length (pieces val)) (length val))"
    and "uint32 (size_of_int (int (length (pieces val)))) = length (pieces val)"
    and "size_of_int (int (length val)) = length val"
proof -
  have m: "enc_malloc mm n" for n by (rule enc_malloc_always) (rule mem)
  let ?s = "sum_str mm (length (pieces val)) (length val)"
  obtain h1 where h1: "inner_ocall_persist_get mm H (sum_key key) h = ((CRUST_SUCCESS, ?s), h1)" "view h1 = view h"
    using inner_get_some [of h "sum_key key" ?s mm] inner_get_view [of mm "sum_key key" h] assms(1) m
    by (cases "inner_ocall_persist_get mm H (sum_key key) h") (auto simp: holds_long_def)
  obtain h2 where h2: "get_pieces mm H key (length val) [0..<0 + length (pieces val)] CRUST_SUCCESS [] h1 =
      Some ((CRUST_SUCCESS, [] @ concat (pieces val)), h2) \<and>
      get_pieces_checked mm H key (length val) [0..<0 + length (pieces val)] [] h1 =
      Some ((CRUST_SUCCESS, [] @ concat (pieces val)), h2)"
    using get_pieces_all [of "[]" "pieces val" "length val" h1 key 0 mm] assms(1) m h1(2)
    by (auto simp: concat_pieces holds_long_def)
  have le: "length (pieces val) < 2 ^ 32" using length_pieces_le [of val] assms(3) by linarith
  have "Load mm False (string_of_bytes ?s) = Some (sum_json (length (pieces val)) (length val))"
    using le assms(3) m mem by (intro Load_sum_str) (simp_all add: hash_memory_def LONG_MAX_def)
  then show ?thesis
    using that h1(1) h2 le assms(3) by (simp add: concat_pieces size_of_int_nat uint32_id)
qed

text \<open>A short value is held under its key, with no sum record beside it.\<close>

definition holds_short :: "string \<Rightarrow> bytes \<Rightarrow> 'h \<Rightarrow> bool" where
  "holds_short key val h \<longleftrightarrow> view h (sum_key key) = None \<and> view h key = Some val"

lemma get_short:
  assumes "holds_short key val h" and "\<And>n. enc_malloc mm n"
  obtains st v h1 h2 where "inner_ocall_persist_get mm H (sum_key key) h = ((st, v), h1)" "st \<noteq> CRUST_SUCCESS"
    and "inner_ocall_persist_get mm H key h1 = ((CRUST_SUCCESS, val), h2)"
proof -
  obtain st v h1 where h1: "inner_ocall_persist_get mm H (sum_key key) h = ((st, v), h1)"
    by (metis surj_pair)
  moreover have "st \<noteq> CRUST_SUCCESS" "view h1 = view h"
    using h1 inner_get_none [of h "sum_key key" mm] inner_get_view [of mm "sum_key key" h] assms(1)
    by (auto simp: holds_short_def)
  moreover obtain h2 where "inner_ocall_persist_get mm H key h1 = ((CRUST_SUCCESS, val), h2)"
    using inner_get_some [of h1 key val mm] assms \<open>view h1 = view h\<close>
    by (cases "inner_ocall_persist_get mm H key h1") (auto simp: holds_short_def)
  ultimately show ?thesis using that by blast
qed

lemma set_unsafe_holds:
  assumes "readable mm key h" and "\<And>n. enc_malloc mm n"
  obtains h1 where "persist_set_unsafe mm H key val h = Some (CRUST_SUCCESS, h1)"
    and "if OCALL_STORE_THRESHOLD < length val then holds_long mm key val h1 else holds_short key val h1"
proof (cases "OCALL_STORE_THRESHOLD < length val")
  case True
  let ?r = "ocall_persist_set H (sum_key key) (sum_str mm (length (pieces val)) (length val))
    (set_pieces H key 0 (pieces val) h)"
  have "persist_set_unsafe mm H key val h = Some ?r" using True by (simp add: persist_set_unsafe_def Let_def)
  then show ?thesis
    using True set_ok holds_long_stored by (intro that [of "snd ?r"]) (simp_all add: prod_eq_iff)
next
  case False
  obtain h0 where h0: "del_old mm H key h = Some h0" "view h0 (sum_key key) = None"
    using del_old_view [OF assms] .
  then have "persist_set_unsafe mm H key val h = Some (ocall_persist_set H key val h0)"
    using False by (simp add: persist_set_unsafe_def)
  then show ?thesis
    using False h0(2) set_ok
    by (intro that [of "snd (ocall_persist_set H key val h0)"]) (simp_all add: prod_eq_iff holds_short_def set_view)
qed

lemma get_unsafe_held:
  assumes "if OCALL_STORE_THRESHOLD < length val then holds_long mm key val h else holds_short key val h"
    and mem: "\<And>n t. mm n t" and "length val < 2 ^ 32"
  shows "\<exists>h'. persist_get_unsafe mm H key h = Some ((CRUST_SUCCESS, Some val), h')"
proof -
  have m: "enc_malloc mm n" for n by (rule enc_malloc_always) (rule mem)
  show ?thesis
  proof (cases "OCALL_STORE_THRESHOLD < length val")
    case True
    with assms(1) have "holds_long mm key val h" by simp
    then show ?thesis
      by (rule get_long [OF _ mem assms(3)]) (auto simp: persist_get_unsafe_def m padded_def)
  next
    case False
    with assms(1) have "holds_short key val h" by simp
    then show ?thesis
      by (rule get_short [OF _ m]) (auto simp: persist_get_unsafe_def m)
  qed
qed

text \<open>The sealed variants store and fetch the sealed value in the same way.\<close>

lemma set_holds:
  assumes "seal_data_mrenclave S val h = ((CRUST_SUCCESS, d), h')" and "readable (alloc S) key h'"
    and "\<And>n. enc_malloc (alloc S) n"
  obtains h1 where "persist_set S H key val h = Some (CRUST_SUCCESS, h1)"
    and "if OCALL_STORE_THRESHOLD < length d then holds_long (alloc S) key d h1 else holds_short key d h1"
proof -
  have "persist_set S H key val h = persist_set_unsafe (alloc S) H key d h'"
    using assms(1) by (simp add: persist_set_def persist_set_unsafe_def Let_def set_pieces_checked_eq)
  then show ?thesis using set_unsafe_holds [OF assms(2,3)] that by metis
qed

lemma get_held:
  assumes "if OCALL_STORE_THRESHOLD < length d then holds_long (alloc S) key d h else holds_short key d h"
    and mem: "\<And>n t. alloc S n t" and "length d < 2 ^ 32"
    and "sgx_unseal_data S d = Some val"
  shows "\<exists>h'. persist_get S H key h = Some ((CRUST_SUCCESS, Some val), h')"
proof -
  have m: "enc_malloc (alloc S) n" for n by (rule enc_malloc_always) (rule mem)
  show ?thesis
  proof (cases "OCALL_STORE_THRESHOLD < length d")
    case True
    with assms(1) have "holds_long (alloc S) key d h" by simp
    then show ?thesis
      by (rule get_long [OF _ mem assms(3)])
        (auto simp: persist_get_def m padded_def unseal_fetched_def assms(4))
  next
    case False
    with assms(1) have "holds_short key d h" by simp
    then show ?thesis
      by (rule get_short [OF _ m]) (auto simp: persist_get_def m unseal_fetched_def assms(4))
  qed
qed

text \<open>A value is held, in one piece or in many.\<close>

definition held :: "malloc \<Rightarrow> string \<Rightarrow> bytes \<Rightarrow> 'h \<Rightarrow> bool" where
  "held mm key val h \<longleftrightarrow> (if OCALL_STORE_THRESHOLD < length val then holds_long mm key val h else holds_short key val h)"

text \<open>After a successful store of a sealed value the database holds a sealed buffer of the value.\<close>

lemma set_sealed_held:
  assumes "sealing_ok S" and "\<And>n. enc_malloc (alloc S) n" and "\<And>src d. view (snd (sgx_seal_data_ex S src d)) = view d"
    and "length val < 2 ^ 32" and "sgx_calc_sealed_data_size S (length val) < 2 ^ 32" and "readable (alloc S) key h"
    and "persist_set S H key val h = Some (CRUST_SUCCESS, h1)"
  obtains sd where "held (alloc S) key sd h1" and "sgx_unseal_data S sd = Some val" and "length sd < 2 ^ 32"
proof -
  obtain sd h' where seal: "sgx_seal_data_ex S val h = (Some sd, h')"
    using assms(7,2) by (auto simp: persist_set_def seal_data_mrenclave_def Sgx_seal_data_ex_def uint32_id [OF assms(4)]
        split: prod.splits option.splits)
  then have sealed: "seal_data_mrenclave S val h = ((CRUST_SUCCESS, sd), h')"
    using assms(2) by (simp add: seal_data_mrenclave_def Sgx_seal_data_ex_def uint32_id [OF assms(4)])
  have sd: "sgx_unseal_data S sd = Some val" "length sd < 2 ^ 32"
    using sealing_okD [OF assms(1) seal] assms(5) by simp_all
  have "view h' = view h" using assms(3) [of val h] seal by simp
  then have "readable (alloc S) key h'" using assms(6) by (simp add: readable_def)
  from set_holds [OF sealed this assms(2)] assms(7) have "held (alloc S) key sd h1"
    unfolding held_def by (metis option.inject prod.inject)
  then show ?thesis using that sd by blast
qed

text \<open>The records of a key, and that storing touches no others.\<close>

definition family :: "string \<Rightarrow> string set" where
  "family key = insert key (insert (sum_key key) (range (piece_key key)))"

lemma del_old_frame:
  assumes "del_old mm H key h = Some h1" and "k \<notin> family key"
  shows "view h1 k = view h k"
proof -
  have k: "k \<noteq> sum_key key" "k \<notin> piece_key key ` A" for A using assms(2) by (auto simp: family_def)
  show ?thesis
    using assms(1) k inner_get_view [of mm "sum_key key" h]
    by (auto simp: del_old_def case_prod_beta Let_def bind_eq_Some_conv persist_del_def del_view del_pieces_view split: if_splits)
qed

lemma set_unsafe_frame:
  assumes "persist_set_unsafe mm H key val h = Some (st, h1)" and "k \<notin> family key"
  shows "view h1 k = view h k"
proof -
  have k: "k \<noteq> key" "k \<noteq> sum_key key" "\<And>j. k \<noteq> piece_key key j" using assms(2) by (auto simp: family_def)
  show ?thesis
  proof (cases "OCALL_STORE_THRESHOLD < length val")
    case True
    then have "h1 = snd (ocall_persist_set H (sum_key key) (sum_str mm (length (pieces val)) (length val)) (set_pieces H key 0 (pieces val) h))"
      using assms(1) by (simp add: persist_set_unsafe_def Let_def)
    then show ?thesis using k by (simp add: set_view set_pieces_other)
  next
    case False
    then obtain h0 where "del_old mm H key h = Some h0" "h1 = snd (ocall_persist_set H key val h0)"
      using assms(1) by (auto simp: persist_set_unsafe_def bind_eq_Some_conv)
    then show ?thesis using k del_old_frame assms(2) by (simp add: set_view)
  qed
qed

lemma set_frame:
  assumes "persist_set S H key val h = Some (st, h1)" and "k \<notin> family key"
    and "\<And>src d. view (snd (sgx_seal_data_ex S src d)) = view d"
  shows "view h1 k = view h k"
proof -
  obtain st0 d h0 where s: "seal_data_mrenclave S val h = ((st0, d), h0)" by (metis prod.exhaust)
  have v: "view h0 = view h"
    using s assms(3) [of "take (uint32 (length val)) val" h]
    by (auto simp: seal_data_mrenclave_def Sgx_seal_data_ex_def Let_def split: if_splits prod.splits option.splits)
  show ?thesis
  proof (cases "st0 = CRUST_SUCCESS")
    case True
    then have "persist_set S H key val h = persist_set_unsafe (alloc S) H key d h0"
      using s by (simp add: persist_set_def persist_set_unsafe_def Let_def set_pieces_checked_eq)
    then show ?thesis using set_unsafe_frame [of "alloc S" key d h0 st h1] assms(1,2) v by simp
  next
    case False
    then show ?thesis using assms(1) s v by (simp add: persist_set_def)
  qed
qed

text \<open>Fetching leaves the contents alone.\<close>

lemma get_pieces_view:
  "get_pieces mm H key sz is st buf h = Some (r, h1) \<Longrightarrow> view h1 = view h"
  "get_pieces_checked mm H key sz is buf h = Some (r, h1) \<Longrightarrow> view h1 = view h"
proof (induction "is" arbitrary: st buf h)
  case (Cons i "is")
  { case 1 then show ?case using Cons.IH(1) inner_get_view [of mm "piece_key key i" h]
      by (auto simp: case_prod_beta split: if_splits) }
  { case 2 then show ?case using Cons.IH(2) inner_get_view [of mm "piece_key key i" h]
      by (auto simp: case_prod_beta split: if_splits) }
qed simp_all

lemma persist_get_view:
  "persist_get S H key h = Some (r, h1) \<Longrightarrow> view h1 = view h"
  "persist_get_unsafe mm H key h = Some (r, h1) \<Longrightarrow> view h1 = view h"
  by (auto simp: persist_get_def persist_get_unsafe_def case_prod_beta Let_def bind_eq_Some_conv inner_get_view
      split: if_splits dest: get_pieces_view)

lemma held_cong:
  assumes "\<And>k. k \<in> family key \<Longrightarrow> view h' k = view h k"
  shows "held mm key val h' = held mm key val h" and "readable mm key h' = readable mm key h"
  using assms by (simp_all add: held_def holds_long_def holds_short_def readable_def family_def)

end

end
