(* ===== verification/EnclaveState.thy ===== *)
theory EnclaveState
  imports Workload Schedule Persistence
begin

text \<open>
  The state of the running enclave: the workload object, the global variables of the components
  and the world outside.  A component's operation is a function on this state; one that may abort
  has an optional result.
\<close>

record 'h enclave =
  wl :: workload
  g_srd_change :: int
  g_func_m :: func_map
  g_base_rand_buffer :: "bytes option"
  g_work_report :: string
  g_upgrade_buffer :: bytes
  g_upgrade_buffer_offset :: nat
  hst :: 'h

text \<open>Applying a method of the workload, and making an OCALL.\<close>

definition on_wl :: "(workload \<Rightarrow> workload) \<Rightarrow> 'h enclave \<Rightarrow> 'h enclave" where
  "on_wl f s = s \<lparr> wl := f (wl s) \<rparr>"

definition on_host :: "('h \<Rightarrow> 'h) \<Rightarrow> 'h enclave \<Rightarrow> 'h enclave" where
  "on_host f s = s \<lparr> hst := f (hst s) \<rparr>"

definition call_host :: "('h \<Rightarrow> 'a \<times> 'h) \<Rightarrow> 'h enclave \<Rightarrow> 'a \<times> 'h enclave" where
  "call_host f s = (case f (hst s) of (r, h) \<Rightarrow> (r, s \<lparr> hst := h \<rparr>))"

definition try_host :: "('h \<Rightarrow> ('a \<times> 'h) option) \<Rightarrow> 'h enclave \<Rightarrow> ('a \<times> 'h enclave) option" where
  "try_host f s = map_option (\<lambda>(r, h). (r, s \<lparr> hst := h \<rparr>)) (f (hst s))"

text \<open>
  \<open>sched_check\<close> in a loop that holds a mutex.  When a blocker runs the mutex is released for a
  millisecond; \<open>yld\<close> is what the other threads do to the state in that time.
\<close>

definition sched_yield ::
  "'h ocalls \<Rightarrow> ('h enclave \<Rightarrow> 'h enclave) \<Rightarrow> sched_process \<Rightarrow> 'h enclave \<Rightarrow> 'h enclave" where
  "sched_yield H yld pid s = (case sched_check pid (g_func_m s) of
     (release_lock, m) \<Rightarrow>
       let s' = s \<lparr> g_func_m := m \<rparr> in
       if release_lock then yld (on_host (ocall_usleep H 1000) s') else s')"

text \<open>Random bytes as an unsigned number, least significant byte first.\<close>

fun le_value :: "bytes \<Rightarrow> nat" where
  "le_value [] = 0"
| "le_value (b # bs) = unat b + 256 * le_value bs"

definition rand_u32 :: "'h sgx \<Rightarrow> 'h enclave \<Rightarrow> nat \<times> 'h enclave" where
  "rand_u32 S s = (case call_host (sgx_read_rand S 4) s of (bs, s') \<Rightarrow> (le_value (take 4 bs), s'))"

definition rand_u64 :: "'h sgx \<Rightarrow> 'h enclave \<Rightarrow> u64 \<times> 'h enclave" where
  "rand_u64 S s = (case call_host (sgx_read_rand S 8) s of (bs, s') \<Rightarrow> (of_nat (le_value (take 8 bs)), s'))"

section \<open>Lemmas\<close>

lemma on_wl_simps [frame_simps]:
  "wl (on_wl f s) = f (wl s)" "g_srd_change (on_wl f s) = g_srd_change s" "g_func_m (on_wl f s) = g_func_m s"
  "hst (on_wl f s) = hst s" "g_work_report (on_wl f s) = g_work_report s"
  by (simp_all add: on_wl_def)

lemma on_host_simps [frame_simps]:
  "wl (on_host f s) = wl s" "g_srd_change (on_host f s) = g_srd_change s" "g_func_m (on_host f s) = g_func_m s"
  "hst (on_host f s) = f (hst s)" "g_work_report (on_host f s) = g_work_report s"
  by (simp_all add: on_host_def)

lemma call_host_wl [frame_simps]:
  "wl (snd (call_host f s)) = wl s" "g_srd_change (snd (call_host f s)) = g_srd_change s"
  "g_func_m (snd (call_host f s)) = g_func_m s"
  by (simp_all add: call_host_def case_prod_beta)

lemma rand_wl [frame_simps]:
  "wl (snd (rand_u32 S s)) = wl s" "wl (snd (rand_u64 S s)) = wl s"
  "g_srd_change (snd (rand_u32 S s)) = g_srd_change s" "g_srd_change (snd (rand_u64 S s)) = g_srd_change s"
  by (simp_all add: rand_u32_def rand_u64_def case_prod_beta frame_simps)

lemma call_host_eq: "call_host f s = (r, s') \<Longrightarrow> wl s' = wl s \<and> g_srd_change s' = g_srd_change s \<and> g_func_m s' = g_func_m s"
  using call_host_wl [of f s] by simp

lemma rand_eq:
  "rand_u32 S s = (n, s') \<Longrightarrow> wl s' = wl s \<and> g_srd_change s' = g_srd_change s"
  "rand_u64 S s = (i, s') \<Longrightarrow> wl s' = wl s \<and> g_srd_change s' = g_srd_change s"
  using rand_wl [of S s] by simp_all

lemmas frame_eqs = call_host_eq rand_eq

lemma try_host_wl: "try_host f s = Some (r, s') \<Longrightarrow> wl s' = wl s \<and> g_srd_change s' = g_srd_change s"
  by (auto simp: try_host_def)

lemma sched_yield_rule:
  assumes "P (s \<lparr> g_func_m := snd (sched_check pid (g_func_m s)) \<rparr>)"
    and "\<And>s. P s \<Longrightarrow> P (on_host (ocall_usleep H 1000) s)" and "\<And>s. P s \<Longrightarrow> P (yld s)"
  shows "P (sched_yield H yld pid s)"
  using assms by (simp add: sched_yield_def Let_def case_prod_beta)

text \<open>A state to evaluate the definitions on.\<close>

definition demo_enclave :: "workload \<Rightarrow> 'h \<Rightarrow> 'h enclave" where
  "demo_enclave w h = \<lparr> wl = w, g_srd_change = 0, g_func_m = [], g_base_rand_buffer = None, g_work_report = [],
     g_upgrade_buffer = [], g_upgrade_buffer_offset = 0, hst = h \<rparr>"

lemma demo_enclave_simps [simp]: "wl (demo_enclave w h) = w" "hst (demo_enclave w h) = h"
  by (simp_all add: demo_enclave_def)

end
