(* ===== verification/Report.thy ===== *)
theory Report
  imports EnclaveState
begin

text \<open>
  The work report, \<open>src/enclave/report/Report.cpp\<close>: once per era the enclave signs what it
  stores, the srd and the files, and hands the text to the host for the chain.  The lemmas show what
  a report says: its size and its file root cover the same files, these are the files the chain
  knows as valid once the report is accepted, and no two reports fall into one era.
\<close>

section \<open>When a report is made\<close>

definition get_generated_work_report :: "'h enclave \<Rightarrow> string" where
  "get_generated_work_report s = g_work_report s"

text \<open>The condition on the block; the difference of the heights wraps around.\<close>

definition height_expired :: "u64 \<Rightarrow> workload \<Rightarrow> bool" where
  "height_expired block_height w \<longleftrightarrow>
     block_height = 0 \<or> block_height - get_report_height w < of_nat ERA_LENGTH"

definition report_condition :: "workload \<Rightarrow> crust_status" where
  "report_condition w =
     (if get_restart_flag w then CRUST_FIRST_WORK_REPORT_AFTER_REPORT
      else if \<not> report_has_validated_proof w then CRUST_WORK_REPORT_NOT_VALIDATED
      else if \<not> get_report_file_flag w then CRUST_NO_KARST
      else CRUST_SUCCESS)"

text \<open>What every attempt does at its end, successful or not.\<close>

definition report_cleanup :: "u64 \<Rightarrow> workload \<Rightarrow> workload" where
  "report_cleanup block_height w =
     report_reduce_validated_proof (set_report_file_flag True (set_restart_flag False (set_report_height block_height w)))"

section \<open>The random data\<close>

definition srd_report :: "'h sgx \<Rightarrow> workload \<Rightarrow> (nat \<times> bytes) option" where
  "srd_report S w =
     (let m = srd_path2hashs_m w; hashs = srd_hashs_buffer m in
      if \<not> enc_malloc (alloc S) (srd_num m * HASH_LENGTH) then None
      else if length hashs = 0 then Some (0, replicate HASH_LENGTH 0)
      else Some ((length hashs div HASH_LENGTH) * 1024 * 1024 * 1024 mod 2 ^ 64, sgx_sha256_msg (sha256 S) hashs))"

section \<open>The files\<close>

text \<open>Deleted files the chain does not know as valid leave the list.\<close>

definition dropped_file :: "json \<Rightarrow> bool" where
  "dropped_file f \<longleftrightarrow> file_status f CURRENT_STATUS = FILE_STATUS_DELETED \<and>
     (file_status f ORIGIN_STATUS = FILE_STATUS_LOST \<or> file_status f ORIGIN_STATUS = FILE_STATUS_DELETED \<or>
      file_status f ORIGIN_STATUS = FILE_STATUS_UNCONFIRMED)"

text \<open>A file whose status the chain has to learn.\<close>

definition reportable :: "json \<Rightarrow> bool" where
  "reportable f \<longleftrightarrow>
     (let cur = file_status f CURRENT_STATUS; org = file_status f ORIGIN_STATUS in
      cur = FILE_STATUS_VALID \<and> org = FILE_STATUS_UNCONFIRMED \<or> cur = FILE_STATUS_VALID \<and> org = FILE_STATUS_LOST \<or>
      cur = FILE_STATUS_LOST \<and> org = FILE_STATUS_VALID \<or> cur = FILE_STATUS_DELETED \<and> org = FILE_STATUS_VALID)"

definition file_str :: "malloc \<Rightarrow> json \<Rightarrow> string" where
  "file_str mm f =
     ''{'' @ [dquote] @ FILE_HASH @ [dquote] @ '':'' @ [dquote] @ ToString mm (json_get f FILE_OLD_HASH) @ [dquote] @ '','' @
     [dquote] @ FILE_SIZE @ [dquote] @ '':'' @ to_string_int (file_old_size f) @ ''}''"

text \<open>The local variables of the loop over the files.\<close>

record report_acc =
  ra_files :: "json list"
  added_files :: string
  deleted_files :: string
  reported_files_acc :: nat
  report_valid_idx_s :: "nat list"
  files_size :: int
  ra_reported_idx :: "nat list"

definition append_item :: "string \<Rightarrow> string \<Rightarrow> string" where
  "append_item item text = (if length text \<noteq> 1 then text @ '','' else text) @ item"

text \<open>A file is put on the list of added or deleted files.\<close>

definition report_change :: "malloc \<Rightarrow> nat \<Rightarrow> json \<Rightarrow> report_acc \<Rightarrow> report_acc" where
  "report_change mm i f a =
     (let cur = file_status f CURRENT_STATUS;
          a1 = (if cur = FILE_STATUS_LOST \<or> cur = FILE_STATUS_DELETED
            then a \<lparr> deleted_files := append_item (file_str mm f) (deleted_files a),
                     report_valid_idx_s := oset_erase i (report_valid_idx_s a),
                     files_size := files_size a - file_old_size f \<rparr>
            else if cur = FILE_STATUS_VALID
            then a \<lparr> added_files := append_item (file_str mm f) (added_files a),
                     report_valid_idx_s := oset_insert i (report_valid_idx_s a),
                     files_size := files_size a + file_old_size f \<rparr>
            else a)
      in a1 \<lparr> ra_reported_idx := oset_insert i (ra_reported_idx a1), reported_files_acc := Suc (reported_files_acc a1) \<rparr>)"

definition count_valid :: "nat \<Rightarrow> json \<Rightarrow> report_acc \<Rightarrow> report_acc" where
  "count_valid i f a =
     a \<lparr> report_valid_idx_s := oset_insert i (report_valid_idx_s a), files_size := files_size a + file_old_size f \<rparr>"

text \<open>The current status is written to the waiting status.\<close>

definition waiting :: "json \<Rightarrow> json" where
  "waiting f = set_file_status WAITING_STATUS (file_status f CURRENT_STATUS) f"

definition report_file :: "malloc \<Rightarrow> bool \<Rightarrow> nat \<Rightarrow> report_acc \<Rightarrow> report_acc" where
  "report_file mm is_upgrading i a =
     (let f = ra_files a ! i in
      if is_upgrading then
        (if file_status f CURRENT_STATUS = FILE_STATUS_VALID \<and> file_status f ORIGIN_STATUS = FILE_STATUS_VALID
         then count_valid i f a else a)
      else
        let f = waiting f;
            a1 = a \<lparr> ra_files := (ra_files a)[i := f] \<rparr>;
            a2 = (if file_status f ORIGIN_STATUS = FILE_STATUS_VALID then count_valid i f a1 else a1)
        in if reported_files_acc a2 < WORKREPORT_FILE_LIMIT \<and> reportable f then report_change mm i f a2 else a2)"

definition report_start :: "json list \<Rightarrow> report_acc" where
  "report_start fs = \<lparr> ra_files = fs, added_files = ''['', deleted_files = ''['', reported_files_acc = 0,
     report_valid_idx_s = [], files_size = 0, ra_reported_idx = [] \<rparr>"

definition scan_files :: "malloc \<Rightarrow> bool \<Rightarrow> json list \<Rightarrow> report_acc" where
  "scan_files mm is_upgrading fs = fold (report_file mm is_upgrading) [0..<length fs] (report_start fs)"

text \<open>
  The root of the listed files.  The outer option is the fault of a file without hash bytes, the
  inner one the failed allocation.
\<close>

definition files_root :: "'h sgx \<Rightarrow> report_acc \<Rightarrow> bytes option option" where
  "files_root S a =
     (let n = length (report_valid_idx_s a) * HASH_LENGTH in
      if n = 0 then Some (Some (replicate HASH_LENGTH 0))
      else if \<not> enc_malloc (alloc S) n then Some None
      else map_option (\<lambda>buf. Some (sgx_sha256_msg (sha256 S) buf))
             (file_hashs_buffer (map (nth (ra_files a)) (report_valid_idx_s a))))"

section \<open>The report\<close>

record report_data =
  rd_block_height :: u64
  rd_block_hash :: string
  rd_reserved :: nat
  rd_srd_root :: bytes
  rd_acc :: report_acc
  rd_files_root :: bytes

definition rd_added :: "report_data \<Rightarrow> string" where
  "rd_added r = added_files (rd_acc r) @ '']''"

definition rd_deleted :: "report_data \<Rightarrow> string" where
  "rd_deleted r = deleted_files (rd_acc r) @ '']''"

text \<open>What is signed; the block hash is given as its bytes.\<close>

definition sigbuf :: "workload \<Rightarrow> report_data \<Rightarrow> bytes \<Rightarrow> bytes" where
  "sigbuf w r block_hash_u =
     get_pub_key w @ (if is_upgrade w then pre_pub_key w else []) @
     bytes_of_string (to_string (unat (rd_block_height r))) @ take HASH_LENGTH block_hash_u @
     bytes_of_string (to_string (rd_reserved r)) @ bytes_of_string (to_string_int (files_size (rd_acc r))) @
     rd_srd_root r @ rd_files_root r @ bytes_of_string (rd_added r) @ bytes_of_string (rd_deleted r)"

definition json_field :: "string \<Rightarrow> string \<Rightarrow> string" where
  "json_field k v = [dquote] @ k @ [dquote] @ '':'' @ v"

definition wr_str :: "malloc \<Rightarrow> workload \<Rightarrow> report_data \<Rightarrow> bytes \<Rightarrow> string" where
  "wr_str mm w r sig =
     (let q = (\<lambda>s. [dquote] @ s @ [dquote]) in
      ''{'' @ json_field WORKREPORT_PUB_KEY (q (hexstring_safe mm (get_pub_key w))) @ '','' @
      json_field WORKREPORT_PRE_PUB_KEY (q (if is_upgrade w then hexstring_safe mm (pre_pub_key w) else [])) @ '','' @
      json_field WORKREPORT_BLOCK_HEIGHT (q (to_string (unat (rd_block_height r)))) @ '','' @
      json_field WORKREPORT_BLOCK_HASH (q (take (HASH_LENGTH * 2) (rd_block_hash r))) @ '','' @
      json_field WORKREPORT_RESERVED (to_string (rd_reserved r)) @ '','' @
      json_field WORKREPORT_FILES_SIZE (to_string_int (files_size (rd_acc r))) @ '','' @
      json_field WORKREPORT_RESERVED_ROOT (q (hexstring_safe mm (take HASH_LENGTH (rd_srd_root r)))) @ '','' @
      json_field WORKREPORT_FILES_ROOT (q (hexstring_safe mm (take HASH_LENGTH (rd_files_root r)))) @ '','' @
      json_field WORKREPORT_FILES_ADDED (rd_added r) @ '','' @
      json_field WORKREPORT_FILES_DELETED (rd_deleted r) @ '','' @
      json_field WORKREPORT_SIG (q (hexstring_safe mm sig)) @ ''}'')"

text \<open>
  Signing and storing the text.  The buffer is allocated before the block hash is converted; its
  length does not depend on the hash.
\<close>

definition sign_report :: "'h sgx \<Rightarrow> report_data \<Rightarrow> 'h enclave \<Rightarrow> crust_status \<times> 'h enclave" where
  "sign_report S r s =
     (if \<not> enc_malloc (alloc S) (length (sigbuf (wl s) r (replicate HASH_LENGTH 0))) then (CRUST_MALLOC_FAILED, s)
      else case hex_string_to_bytes (alloc S) (rd_block_hash r) (HASH_LENGTH * 2) of
        None \<Rightarrow> (CRUST_UNEXPECTED_ERROR, s)
      | Some block_hash_u \<Rightarrow>
          let buf = sigbuf (wl s) r block_hash_u in
          (case call_host (sgx_ecc256_open_context S) s of (sgx_st, s1) \<Rightarrow>
            if sgx_st \<noteq> SGX_SUCCESS then (CRUST_SGX_SIGN_FAILED, s1)
            else case call_host (sgx_ecdsa_sign S (take (uint32 (length buf)) buf) (get_pri_key (wl s))) s1 of
              (None, s2) \<Rightarrow> (CRUST_SGX_SIGN_FAILED, s2)
            | (Some sig, s2) \<Rightarrow> (CRUST_SUCCESS, s2 \<lparr> g_work_report := wr_str (alloc S) (wl s) r sig \<rparr>)))"

definition report_body :: "'h sgx \<Rightarrow> string \<Rightarrow> u64 \<Rightarrow> bool \<Rightarrow> 'h enclave \<Rightarrow> (crust_status \<times> 'h enclave) option" where
  "report_body S block_hash block_height is_upgrading s =
     (case srd_report S (wl s) of
       None \<Rightarrow> Some (CRUST_MALLOC_FAILED, s)
     | Some (srd_workload, srd_root) \<Rightarrow>
         let a = scan_files (alloc S) is_upgrading (filter (\<lambda>f. \<not> dropped_file f) (checked_files (wl s)));
             s1 = on_wl (\<lambda>w. w \<lparr> checked_files := ra_files a, reported_files_idx := ra_reported_idx a \<rparr>) s
         in (case files_root S a of
           None \<Rightarrow> None
         | Some None \<Rightarrow> Some (CRUST_MALLOC_FAILED, s1)
         | Some (Some root_hash) \<Rightarrow>
             Some (sign_report S \<lparr> rd_block_height = block_height, rd_block_hash = block_hash, rd_reserved = srd_workload,
               rd_srd_root = srd_root, rd_acc = a, rd_files_root = root_hash \<rparr> s1)))"

definition gen_work_report :: "'h sgx \<Rightarrow> string \<Rightarrow> u64 \<Rightarrow> bool \<Rightarrow> 'h enclave \<Rightarrow> (crust_status \<times> 'h enclave) option" where
  "gen_work_report S block_hash block_height is_upgrading s =
     (if height_expired block_height (wl s) then Some (CRUST_BLOCK_HEIGHT_EXPIRED, s)
      else if report_condition (wl s) \<noteq> CRUST_SUCCESS
      then Some (report_condition (wl s), on_wl (report_cleanup block_height) s)
      else map_option (\<lambda>(st, s'). (st, on_wl (report_cleanup block_height) s'))
             (report_body S block_hash block_height is_upgrading s))"

definition gen_and_upload_work_report ::
  "'h sgx \<Rightarrow> 'h ocalls \<Rightarrow> string \<Rightarrow> u64 \<Rightarrow> int \<Rightarrow> bool \<Rightarrow> 'h enclave \<Rightarrow> (crust_status \<times> 'h enclave) option" where
  "gen_and_upload_work_report S H block_hash block_height wait_time is_upgrading s = do {
     (st, s1) \<leftarrow> gen_work_report S block_hash block_height is_upgrading s;
     if st \<noteq> CRUST_SUCCESS then Some (st, s1)
     else
       let s2 = (if wait_time \<noteq> 0 then on_host (ocall_usleep H (cast_int (wait_time * 1000000))) s1 else s1) in
       (case call_host (ocall_upload_workreport H (g_work_report s2)) s2 of
         (st2, s3) \<Rightarrow> Some (st2, if st2 = CRUST_SUCCESS then on_wl handle_report_result s3 else s3))
   }"

section \<open>Lemmas: the loop over the files\<close>

text \<open>What the loop has established after \<open>k\<close> files.\<close>

definition scanned :: "json list \<Rightarrow> nat \<Rightarrow> report_acc \<Rightarrow> bool" where
  "scanned fs k a \<longleftrightarrow>
     ra_files a = map waiting (take k fs) @ drop k fs \<and>
     oset_ok (report_valid_idx_s a) \<and> oset_ok (ra_reported_idx a) \<and>
     length (ra_reported_idx a) = reported_files_acc a \<and> reported_files_acc a \<le> WORKREPORT_FILE_LIMIT \<and>
     set (report_valid_idx_s a) \<subseteq> {..<k} \<and> set (ra_reported_idx a) \<subseteq> {..<k} \<and>
     files_size a = (\<Sum>i \<in> set (report_valid_idx_s a). file_old_size (fs ! i)) \<and>
     (\<forall>j < k. j \<in> set (report_valid_idx_s a) \<longleftrightarrow>
        (if j \<in> set (ra_reported_idx a) then file_status (fs ! j) CURRENT_STATUS else file_status (fs ! j) ORIGIN_STATUS)
          = FILE_STATUS_VALID) \<and>
     (\<forall>j \<in> set (ra_reported_idx a). reportable (fs ! j)) \<and>
     (reported_files_acc a < WORKREPORT_FILE_LIMIT \<longrightarrow> (\<forall>j < k. reportable (fs ! j) \<longrightarrow> j \<in> set (ra_reported_idx a)))"

lemma waiting_simps [wl_simps]:
  assumes "wf_file f"
  shows "file_status (waiting f) CURRENT_STATUS = file_status f CURRENT_STATUS"
    and "file_status (waiting f) ORIGIN_STATUS = file_status f ORIGIN_STATUS"
    and "file_status (waiting f) (Suc 0) = file_status f CURRENT_STATUS"
    and "k \<noteq> FILE_STATUS \<Longrightarrow> json_get (waiting f) k = json_get f k"
    and "reportable (waiting f) = reportable f" and "wf_file (waiting f)"
  using assms by (simp_all add: waiting_def wl_simps reportable_def file_status_chars)

text \<open>One more file: whether it counts (\<open>v\<close>) and whether it is reported (\<open>r\<close>).\<close>

lemma scanned_Suc:
  assumes "scanned fs k a" and "ra_files b = map waiting (take (Suc k) fs) @ drop (Suc k) fs"
    and "oset_ok (report_valid_idx_s b)" and "set (report_valid_idx_s b) = (if v then {k} else {}) \<union> set (report_valid_idx_s a)"
    and "files_size b = files_size a + (if v then file_old_size (fs ! k) else 0)"
    and "ra_reported_idx b = (if r then oset_insert k (ra_reported_idx a) else ra_reported_idx a)"
    and "reported_files_acc b = reported_files_acc a + (if r then 1 else 0)"
    and "v \<longleftrightarrow> (if r then file_status (fs ! k) CURRENT_STATUS else file_status (fs ! k) ORIGIN_STATUS) = FILE_STATUS_VALID"
    and "r \<longleftrightarrow> reported_files_acc a < WORKREPORT_FILE_LIMIT \<and> reportable (fs ! k)"
  shows "scanned fs (Suc k) b"
proof -
  note facts = assms(1) [unfolded scanned_def]
  have k: "k \<notin> set (report_valid_idx_s a)" "k \<notin> set (ra_reported_idx a)" using facts by auto
  have less: "(\<forall>j < Suc k. P j) \<longleftrightarrow> (\<forall>j < k. P j) \<and> P k" for P by (auto simp: less_Suc_eq)
  have idx: "oset_ok (ra_reported_idx b)" "length (ra_reported_idx b) = reported_files_acc b"
    "set (ra_reported_idx b) = (if r then {k} else {}) \<union> set (ra_reported_idx a)"
    using facts k by (simp_all add: assms(6,7) length_oset_insert)
  have lim: "reported_files_acc b \<le> WORKREPORT_FILE_LIMIT" using facts assms(9) by (auto simp: assms(7))
  have "files_size b = (\<Sum>i \<in> set (report_valid_idx_s b). file_old_size (fs ! i))"
    using facts k(1) by (auto simp: assms(4,5))
  moreover have "\<forall>j < Suc k. j \<in> set (report_valid_idx_s b) \<longleftrightarrow>
        (if j \<in> set (ra_reported_idx b) then file_status (fs ! j) CURRENT_STATUS else file_status (fs ! j) ORIGIN_STATUS) = FILE_STATUS_VALID"
    unfolding less assms(4) idx(3) using facts k assms(8) by auto
  moreover have "\<forall>j \<in> set (ra_reported_idx b). reportable (fs ! j)" using facts assms(9) by (auto simp: idx(3))
  moreover have "reported_files_acc b < WORKREPORT_FILE_LIMIT \<longrightarrow> (\<forall>j < Suc k. reportable (fs ! j) \<longrightarrow> j \<in> set (ra_reported_idx b))"
    unfolding less idx(3) using facts assms(7,9) by auto
  moreover have "set (report_valid_idx_s b) \<subseteq> {..<Suc k}" "set (ra_reported_idx b) \<subseteq> {..<Suc k}"
    using facts by (auto simp: assms(4) idx(3) intro: less_SucI)
  ultimately show ?thesis unfolding scanned_def using assms(2,3) idx(1,2) lim by blast
qed

lemma scanned_step:
  assumes "scanned fs k a" and "k < length fs" and "wf_file (fs ! k)"
  shows "scanned fs (Suc k) (report_file mm False k a)"
proof -
  let ?f = "fs ! k" and ?v = "set (report_valid_idx_s a)"
  have files: "ra_files a = map waiting (take k fs) @ drop k fs" and sub: "?v \<subseteq> {..<k}" "set (ra_reported_idx a) \<subseteq> {..<k}"
    using assms(1) unfolding scanned_def by blast+
  have k: "k \<notin> ?v" "k \<notin> set (ra_reported_idx a)" using sub by auto
  have nth: "ra_files a ! k = ?f" using assms(2) by (simp add: files nth_append)
  have upd: "(ra_files a)[k := waiting ?f] = map waiting (take (Suc k) fs) @ drop (Suc k) fs"
    using assms(2) by (simp add: files list_update_append take_Suc_conv_app_nth Cons_nth_drop_Suc [symmetric])
  have rep: "reportable ?f \<longleftrightarrow>
      file_status ?f CURRENT_STATUS = FILE_STATUS_VALID \<and> file_status ?f ORIGIN_STATUS \<in> {FILE_STATUS_UNCONFIRMED, FILE_STATUS_LOST} \<or>
      file_status ?f CURRENT_STATUS \<in> {FILE_STATUS_LOST, FILE_STATUS_DELETED} \<and> file_status ?f ORIGIN_STATUS = FILE_STATUS_VALID"
    by (auto simp: reportable_def Let_def)
  note facts = assms(1) [unfolded scanned_def]
  have old: "file_old_size (waiting ?f) = file_old_size ?f" using assms(3) by (simp add: wl_simps)
  note red = report_file_def nth Let_def waiting_simps(1,2,5) [OF assms(3)] old count_valid_def report_change_def
  have ok: "oset_ok (report_valid_idx_s a)" "oset_ok (ra_reported_idx a)" "finite ?v" using facts by simp_all
  have drop: "set (oset_erase k (oset_insert k (report_valid_idx_s a))) = ?v" using k(1) by auto
  let ?r = "reported_files_acc a < WORKREPORT_FILE_LIMIT \<and> reportable ?f"
  let ?v = "(if ?r then file_status ?f CURRENT_STATUS else file_status ?f ORIGIN_STATUS) = FILE_STATUS_VALID"
  show ?thesis
  proof (rule scanned_Suc [OF assms(1), where v = ?v and r = ?r])
    show "ra_files (report_file mm False k a) = map waiting (take (Suc k) fs) @ drop (Suc k) fs"
      using upd by (simp add: red)
    show "oset_ok (report_valid_idx_s (report_file mm False k a))" using ok by (simp add: red)
    show "set (report_valid_idx_s (report_file mm False k a)) = (if ?v then {k} else {}) \<union> set (report_valid_idx_s a)"
      using k(1) rep by (cases ?r) (auto simp: red)
    show "files_size (report_file mm False k a) = files_size a + (if ?v then file_old_size ?f else 0)"
      using rep by (cases ?r) (auto simp: red)
  qed (simp_all add: red)
qed

lemma scan_files_ok:
  assumes "list_all wf_file fs"
  shows "scanned fs (length fs) (scan_files mm False fs)"
proof -
  have "k \<le> length fs \<Longrightarrow> scanned fs k (fold (report_file mm False) [0..<k] (report_start fs))" for k
  proof (induction k)
    case 0
    then show ?case by (simp add: scanned_def report_start_def)
  next
    case (Suc k)
    then show ?case using assms by (simp add: scanned_step list_all_length)
  qed
  then show ?thesis by (simp add: scan_files_def)
qed

text \<open>A report during an upgrade leaves the files alone.\<close>

lemma scan_upgrading:
  "ra_files (scan_files mm True fs) = fs" "ra_reported_idx (scan_files mm True fs) = []"
proof -
  have "ra_files (fold (report_file mm True) ks a) = ra_files a \<and> ra_reported_idx (fold (report_file mm True) ks a) = ra_reported_idx a"
    for ks a by (induction ks arbitrary: a) (simp_all add: report_file_def count_valid_def Let_def)
  then show "ra_files (scan_files mm True fs) = fs" "ra_reported_idx (scan_files mm True fs) = []"
    by (simp_all add: scan_files_def report_start_def)
qed

lemma scan_ra_files: "list_all wf_file fs \<Longrightarrow> ra_files (scan_files mm up fs) = (if up then fs else map waiting fs)"
  using scan_files_ok [of fs mm] by (cases up) (simp_all add: scan_upgrading scanned_def)

section \<open>Lemmas: the files after an accepted report\<close>

text \<open>The files a report covers, and the effect of accepting it on one of them.\<close>

definition covered :: "json \<Rightarrow> bool" where
  "covered f \<longleftrightarrow> file_status f ORIGIN_STATUS = FILE_STATUS_VALID"

lemma map_nth_oset:
  assumes "oset_ok xs" and "set xs = {i. i < length ys \<and> P (ys ! i)}"
  shows "map (nth ys) xs = filter P ys"
proof -
  have "xs = filter (\<lambda>i. P (ys ! i)) [0..<length ys]"
    using assms by (intro sorted_distinct_set_unique) (auto simp: oset_ok_def strict_sorted_iff sorted_wrt_filter)
  then have "map (nth ys) xs = filter P (map (nth ys) [0..<length ys])" by (simp add: filter_map o_def)
  then show ?thesis by (simp add: map_nth)
qed

lemma accepted_nth:
  assumes "scanned fs (length fs) a" and "list_all wf_file fs" and "j < length fs"
  defines "gs \<equiv> fold confirm_reported (ra_reported_idx a) (ra_files a)"
  shows "json_get (gs ! j) FILE_HASH = json_get (fs ! j) FILE_HASH" and "file_old_size (gs ! j) = file_old_size (fs ! j)"
    and "covered (gs ! j) \<longleftrightarrow> j \<in> set (report_valid_idx_s a)"
proof -
  note facts = assms(1) [unfolded scanned_def]
  have wf: "wf_file (fs ! j)" using assms(2,3) by (simp add: list_all_length)
  have files: "ra_files a = map waiting fs" and dist: "distinct (ra_reported_idx a)"
    using facts by (auto simp: oset_ok_distinct)
  have gs: "gs ! j = (if j \<in> set (ra_reported_idx a)
      then set_file_status ORIGIN_STATUS (file_status (waiting (fs ! j)) WAITING_STATUS) (waiting (fs ! j)) else waiting (fs ! j))"
    using assms(3) by (simp add: gs_def files fold_confirm_nth [OF dist])
  show "json_get (gs ! j) FILE_HASH = json_get (fs ! j) FILE_HASH" "file_old_size (gs ! j) = file_old_size (fs ! j)"
    using wf by (simp_all add: gs wl_simps)
  show "covered (gs ! j) \<longleftrightarrow> j \<in> set (report_valid_idx_s a)"
    using facts assms(3) wf by (simp add: gs covered_def wl_simps)
qed

lemma accepted_covered:
  assumes "scanned fs (length fs) a" and "list_all wf_file fs"
  defines "gs \<equiv> fold confirm_reported (ra_reported_idx a) (ra_files a)"
  shows "filter covered gs = map (nth gs) (report_valid_idx_s a)"
    and "files_size a = sum_list (map file_old_size (filter covered gs))"
    and "file_hashs_buffer (map (nth (ra_files a)) (report_valid_idx_s a)) = file_hashs_buffer (filter covered gs)"
proof -
  note facts = assms(1) [unfolded scanned_def]
  note nth = accepted_nth [OF assms(1,2), folded gs_def]
  have len: "length gs = length fs" and files: "ra_files a = map waiting fs" using facts by (simp_all add: gs_def)
  have valid: "set (report_valid_idx_s a) = {i. i < length gs \<and> covered (gs ! i)}" using facts nth(3) by (auto simp: len)
  have ok: "oset_ok (report_valid_idx_s a)" using facts by blast
  show cov: "filter covered gs = map (nth gs) (report_valid_idx_s a)" by (rule map_nth_oset [OF ok valid, symmetric])
  have "files_size a = (\<Sum>i \<in> set (report_valid_idx_s a). file_old_size (gs ! i))"
    using facts nth(2) by (auto simp: valid len intro!: sum.cong)
  also have "\<dots> = sum_list (map (\<lambda>i. file_old_size (gs ! i)) (report_valid_idx_s a))"
    by (rule sum_list_distinct_conv_sum_set [OF oset_ok_distinct [OF ok], symmetric])
  finally show "files_size a = sum_list (map file_old_size (filter covered gs))" by (simp add: cov o_def)
  have "json_get (ra_files a ! i) FILE_HASH = json_get (gs ! i) FILE_HASH" if "i \<in> set (report_valid_idx_s a)" for i
    using that nth(1) [of i] assms(2) by (simp add: valid len files list_all_length wl_simps)
  then show "file_hashs_buffer (map (nth (ra_files a)) (report_valid_idx_s a)) = file_hashs_buffer (filter covered gs)"
    by (simp add: file_hashs_buffer_def cov o_def cong: map_cong)
qed

section \<open>Lemmas: the whole report\<close>

lemma report_body_success:
  assumes "report_body S block_hash h up s = Some (CRUST_SUCCESS, s')"
  obtains r u sig g where "rd_block_height r = h" and "rd_block_hash r = block_hash"
    and "srd_report S (wl s) = Some (rd_reserved r, rd_srd_root r)"
    and "rd_acc r = scan_files (alloc S) up (filter (\<lambda>f. \<not> dropped_file f) (checked_files (wl s)))"
    and "files_root S (rd_acc r) = Some (Some (rd_files_root r))"
    and "wl s' = (wl s) \<lparr> checked_files := ra_files (rd_acc r), reported_files_idx := ra_reported_idx (rd_acc r) \<rparr>"
    and "hex_string_to_bytes (alloc S) block_hash (HASH_LENGTH * 2) = Some u"
    and "fst (sgx_ecdsa_sign S (take (uint32 (length (sigbuf (wl s') r u))) (sigbuf (wl s') r u)) (get_pri_key (wl s)) g) = Some sig"
    and "g_work_report s' = wr_str (alloc S) (wl s') r sig"
proof -
  let ?a = "scan_files (alloc S) up (filter (\<lambda>f. \<not> dropped_file f) (checked_files (wl s)))"
  let ?s1 = "on_wl (\<lambda>w. w \<lparr> checked_files := ra_files ?a, reported_files_idx := ra_reported_idx ?a \<rparr>) s"
  obtain reserved srd_root where srd: "srd_report S (wl s) = Some (reserved, srd_root)"
    using assms by (cases "srd_report S (wl s)") (auto simp: report_body_def)
  obtain fr where fr: "files_root S ?a = Some (Some fr)"
    using assms srd by (auto simp: report_body_def Let_def split: option.splits)
  let ?r = "\<lparr> rd_block_height = h, rd_block_hash = block_hash, rd_reserved = reserved,
     rd_srd_root = srd_root, rd_acc = ?a, rd_files_root = fr \<rparr>"
  have sign: "sign_report S ?r ?s1 = (CRUST_SUCCESS, s')" using assms srd fr by (simp add: report_body_def Let_def)
  then obtain u where u: "hex_string_to_bytes (alloc S) block_hash (HASH_LENGTH * 2) = Some u"
    by (auto simp: sign_report_def split: if_splits option.splits)
  let ?buf = "sigbuf (wl ?s1) ?r u"
  obtain b s2 where s2: "call_host (sgx_ecc256_open_context S) ?s1 = (b, s2)" by (metis prod.exhaust)
  obtain sg s3 where s3: "call_host (sgx_ecdsa_sign S (take (uint32 (length ?buf)) ?buf) (get_pri_key (wl ?s1))) s2 = (sg, s3)"
    by (metis prod.exhaust)
  obtain sig where sig: "sg = Some sig" "s' = s3 \<lparr> g_work_report := wr_str (alloc S) (wl ?s1) ?r sig \<rparr>"
    using sign u s2 s3 by (cases sg) (auto simp: sign_report_def Let_def split: if_splits)
  have wl: "wl s' = wl ?s1" using call_host_eq [OF s2] call_host_eq [OF s3] sig by simp
  have "fst (sgx_ecdsa_sign S (take (uint32 (length ?buf)) ?buf) (get_pri_key (wl ?s1)) (hst s2)) = Some sig"
    using s3 sig(1) by (simp add: call_host_def split: prod.splits)
  then show ?thesis
    using that [of ?r u "hst s2" sig] srd fr u sig(2) wl by (simp add: frame_simps get_pri_key_def)
qed

text \<open>With well-formed files no report faults.\<close>

lemma file_hashs_buffer_wf: "list_all wf_file fs \<Longrightarrow> \<exists>buf. file_hashs_buffer fs = Some buf"
proof (induction fs)
  case (Cons f fs)
  then obtain h where "json_get f FILE_HASH = JHash h" by (auto simp: wf_file_def)
  then show ?case using Cons by (auto simp: file_hashs_buffer_def)
qed (simp add: file_hashs_buffer_def)

lemma scan_valid_idx:
  assumes "list_all wf_file fs"
  shows "set (report_valid_idx_s (scan_files mm up fs)) \<subseteq> {..<length fs}"
proof (cases up)
  case True
  have "set (report_valid_idx_s (fold (report_file mm True) ks a)) \<subseteq> set (report_valid_idx_s a) \<union> set ks" for ks a
  proof (induction ks arbitrary: a)
    case (Cons k ks)
    have "set (report_valid_idx_s (report_file mm True k a)) \<subseteq> insert k (set (report_valid_idx_s a))"
      by (auto simp: report_file_def count_valid_def Let_def)
    then show ?case using Cons.IH [of "report_file mm True k a"] by auto
  qed simp
  from this [of "[0..<length fs]" "report_start fs"] True show ?thesis by (auto simp: scan_files_def report_start_def)
next
  case False
  then show ?thesis using scan_files_ok [OF assms, of mm] by (simp add: scanned_def)
qed

lemma wf_waiting: "list_all wf_file fs \<Longrightarrow> list_all wf_file (map waiting fs)"
  by (simp add: list_all_iff wl_simps)

lemma files_root_wf:
  assumes "list_all wf_file fs"
  shows "\<exists>r. files_root S (scan_files mm up fs) = Some r"
proof -
  let ?a = "scan_files mm up fs"
  have "list_all wf_file (ra_files ?a)" using wf_waiting [OF assms] assms by (simp add: scan_ra_files [OF assms])
  moreover have "length (ra_files ?a) = length fs" by (simp add: scan_ra_files [OF assms])
  ultimately have "list_all wf_file (map (nth (ra_files ?a)) (report_valid_idx_s ?a))"
    using scan_valid_idx [OF assms, of mm up] by (auto simp: list_all_iff)
  from file_hashs_buffer_wf [OF this] show ?thesis by (auto simp: files_root_def Let_def)
qed

lemma report_body_total:
  assumes "list_all wf_file (checked_files (wl s))"
  shows "\<exists>st s'. report_body S block_hash h up s = Some (st, s')"
proof -
  have "list_all wf_file (filter (\<lambda>f. \<not> dropped_file f) (checked_files (wl s)))" using assms by (auto simp: list_all_iff)
  from files_root_wf [OF this, of S "alloc S" up] show ?thesis
    by (auto simp: report_body_def Let_def split: option.splits)
qed

lemma gen_work_report_total:
  "wl_inv (wl s) \<Longrightarrow> \<exists>st s'. gen_work_report S block_hash h up s = Some (st, s')"
  using report_body_total [of s S block_hash h up] by (auto simp: gen_work_report_def wl_inv_def)

text \<open>An outside without failures makes the report.\<close>

lemma quiet_report:
  fixes s :: "unit enclave"
  assumes "wl_inv (wl s)" and "\<not> height_expired h (wl s)" and "report_condition (wl s) = CRUST_SUCCESS"
  shows "\<exists>s'. gen_work_report quiet_sgx block_hash h up s = Some (CRUST_SUCCESS, s')"
proof -
  have "list_all wf_file (filter (\<lambda>f. \<not> dropped_file f) (checked_files (wl s)))"
    using assms(1) by (auto simp: wl_inv_def list_all_iff)
  from files_root_wf [OF this, of quiet_sgx mem_ok up] obtain r where
    r: "files_root (quiet_sgx :: unit sgx) (scan_files mem_ok up (filter (\<lambda>f. \<not> dropped_file f) (checked_files (wl s)))) = Some r"
    by blast
  then have "r \<noteq> None" by (auto simp: files_root_def Let_def split: if_splits)
  moreover have "\<exists>s'. sign_report quiet_sgx d t = (CRUST_SUCCESS, s')" for d and t :: "unit enclave"
    by (simp add: sign_report_def hex_string_to_bytes_def Let_def call_host_def) (simp add: quiet_sgx_def call_host_def)
  ultimately show ?thesis
    using assms r by (auto simp: gen_work_report_def report_body_def srd_report_def Let_def split: option.splits)
qed

lemma gen_work_report_cases:
  assumes "gen_work_report S block_hash h up s = Some (st, s')"
  obtains (expired) "height_expired h (wl s)" "st = CRUST_BLOCK_HEIGHT_EXPIRED" "s' = s"
    | (refused) "\<not> height_expired h (wl s)" "report_condition (wl s) \<noteq> CRUST_SUCCESS" "st = report_condition (wl s)"
        "s' = on_wl (report_cleanup h) s"
    | (made) s1 where "\<not> height_expired h (wl s)" "report_condition (wl s) = CRUST_SUCCESS"
        "report_body S block_hash h up s = Some (st, s1)" "s' = on_wl (report_cleanup h) s1"
  using assms unfolding gen_work_report_def
  by (cases "height_expired h (wl s)"; cases "report_condition (wl s) = CRUST_SUCCESS") auto

lemma report_cleanup_simps [frame_simps]:
  "checked_files (report_cleanup h w) = checked_files w" "reported_files_idx (report_cleanup h w) = reported_files_idx w"
  "new_files (report_cleanup h w) = new_files w" "wl_spec_info (report_cleanup h w) = wl_spec_info w"
  "report_height (report_cleanup h w) = h" "srd_path2hashs_m (report_cleanup h w) = srd_path2hashs_m w"
  "srd_info_json (report_cleanup h w) = srd_info_json w"
  by (simp_all add: report_cleanup_def report_reduce_validated_proof_def set_report_file_flag_def
      set_restart_flag_def set_report_height_def)

lemma sigbuf_cleanup: "sigbuf (report_cleanup h w) r u = sigbuf w r u"
  "wr_str mm (report_cleanup h w) r sig = wr_str mm w r sig" "get_pri_key (report_cleanup h w) = get_pri_key w"
  by (simp_all add: sigbuf_def wr_str_def get_pub_key_def get_pri_key_def is_upgrade_def report_cleanup_def Let_def
      report_reduce_validated_proof_def set_report_file_flag_def set_restart_flag_def set_report_height_def)

section \<open>Lemmas: the report keeps the invariant\<close>

lemma wl_inv_cleanup: "wl_inv w \<Longrightarrow> wl_inv (report_cleanup h w)"
  by (simp add: report_cleanup_def wl_inv_frame)

lemma sign_report_wl: "wl (snd (sign_report S r s)) = wl s"
  by (auto simp: sign_report_def Let_def frame_simps split: option.splits prod.splits dest!: call_host_eq)

text \<open>What a body that returns did to the workload.\<close>

lemma report_body_wl:
  assumes "report_body S block_hash h up s = Some (st, s')"
  shows "wl s' = wl s \<or> (\<exists>mm. let a = scan_files mm up (filter (\<lambda>f. \<not> dropped_file f) (checked_files (wl s))) in
    wl s' = (wl s) \<lparr> checked_files := ra_files a, reported_files_idx := ra_reported_idx a \<rparr>)"
  using assms sign_report_wl [of S] unfolding report_body_def Let_def
  by (auto split: option.splits simp: frame_simps dest!: arg_cong [where f = "\<lambda>x. wl (snd x)"] intro!: exI [of _ "alloc S"])

lemma stat_of_scanned:
  assumes "list_all wf_file fs" and "st \<in> ledger_chars" and "g = (\<lambda>_. 1) \<or> g = file_old_size"
  shows "stat_of g st (ra_files (scan_files mm up (filter (\<lambda>f. \<not> dropped_file f) fs))) = stat_of g st fs"
proof -
  have wf: "list_all wf_file (filter (\<lambda>f. \<not> dropped_file f) fs)" using assms(1) by (auto simp: list_all_iff)
  have "stat_of g st (map waiting fs') = stat_of g st fs'" if "list_all wf_file fs'" for fs'
    using that assms(3) by (induction fs') (auto simp: wl_simps)
  moreover have "stat_of g st (filter (\<lambda>f. \<not> dropped_file f) fs) = stat_of g st fs"
    using assms(2) by (induction fs) (auto simp: dropped_file_def ledger_chars_def)
  ultimately show ?thesis using wf by (simp add: scan_ra_files)
qed

lemma stat_of_confirmed:
  assumes "list_all wf_file fs" and "g = (\<lambda>_. 1) \<or> g = file_old_size"
  shows "stat_of g st (fold confirm_reported is fs) = stat_of g st fs"
  using assms(1)
proof (induction "is" arbitrary: fs)
  case (Cons i "is")
  have "stat_of g st (confirm_reported i fs) = stat_of g st fs"
  proof (cases "i < length fs")
    case True
    then have "wf_file (fs ! i)" using Cons.prems by (simp add: list_all_length)
    then show ?thesis using True assms(2) by (auto simp: confirm_reported_def stat_of_upd wl_simps)
  qed (simp add: confirm_reported_def)
  then show ?case using Cons.IH [OF wf_files_confirm [OF Cons.prems]] by simp
qed simp

section \<open>Properties\<close>


definition demo_report :: workload where
  "demo_report = demo_workload \<lparr> validated_proof := 1, checked_files := [demo_file ''100'' 5, demo_file ''111'' 7] \<rparr>"

lemma demo_report_ok: "wl_inv demo_report" "\<not> height_expired 1000 demo_report" "report_condition demo_report = CRUST_SUCCESS"
proof -
  have w: "wl_inv demo_workload" by (simp add: demo_workload_def wl_inv_new)
  then have "wl_inv (demo_workload \<lparr> validated_proof := 1 \<rparr>)" by (simp add: wl_inv_def)
  then show "wl_inv demo_report" unfolding demo_report_def by (rule wl_inv_files) (simp add: wf_demo_file)
  show "\<not> height_expired 1000 demo_report" "report_condition demo_report = CRUST_SUCCESS"
    by (simp_all add: height_expired_def report_condition_def demo_report_def get_report_height_def get_restart_flag_def
        report_has_validated_proof_def get_report_file_flag_def demo_workload_def Workload_new_def)
qed


text \<open>
  C16. One report per era: after any attempt that was not refused for its block, whatever became of
  it, every attempt for a block less than an era later is refused and changes nothing.
\<close>

theorem one_report_per_era:
  assumes "gen_work_report S block_hash h up s = Some (st, s')" and "\<not> height_expired h (wl s)"
    and "unat h \<le> unat h'" and "unat h' < unat h + 300"
  shows "gen_work_report S' block_hash' h' up' s' = Some (CRUST_BLOCK_HEIGHT_EXPIRED, s')"
proof -
  from assms(1) have "report_height (wl s') = h"
    by (cases rule: gen_work_report_cases) (use assms(2) in \<open>auto simp: frame_simps\<close>)
  moreover have "h' - h < 300"
    using assms(3,4) by (simp add: word_less_nat_alt unat_sub word_le_nat_alt)
  ultimately show ?thesis by (simp add: gen_work_report_def height_expired_def get_report_height_def)
qed

theorem one_report_per_era_witness:
  "\<exists>s'. gen_work_report quiet_sgx (replicate 64 (CHR ''0'')) 1000 False (demo_enclave demo_report ()) = Some (CRUST_SUCCESS, s') \<and>
     gen_work_report quiet_sgx (replicate 64 (CHR ''0'')) 1200 True s' = Some (CRUST_BLOCK_HEIGHT_EXPIRED, s')"
proof -
  obtain s' where s': "gen_work_report quiet_sgx (replicate 64 (CHR ''0'')) 1000 False (demo_enclave demo_report ()) = Some (CRUST_SUCCESS, s')"
    using quiet_report [of "demo_enclave demo_report ()" 1000] demo_report_ok by auto
  with one_report_per_era [OF s', of 1200] demo_report_ok(2) show ?thesis by auto
qed

text \<open>
  The era check accepts the past: a block before the last report is not refused, because the
  difference of the heights wraps around.
\<close>

theorem report_for_past_block:
  assumes "0 < unat h" and "unat h < unat (report_height w)" and "unat (report_height w) < 2 ^ 63"
  shows "\<not> height_expired h w"
proof -
  have "unat (h - report_height w) = 2 ^ 64 - (unat (report_height w) - unat h)"
    using assms(2) by (simp add: unat_sub_if_size word_size)
  then have "\<not> h - report_height w < 300" using assms(3) by (simp add: word_less_nat_alt)
  then show ?thesis using assms(1) by (auto simp: height_expired_def get_report_height_def)
qed

theorem report_for_past_block_witness: "\<not> height_expired 100 (demo_workload \<lparr> report_height := 1000 \<rparr>)"
  using report_for_past_block [of 100 "demo_workload \<lparr> report_height := 1000 \<rparr>"] by simp

end
