(* ===== verification/Identity.thy ===== *)
theory Identity
  imports Report
begin

text \<open>
  The identity of the node, \<open>src/enclave/identity/Identity.cpp\<close>: the key pair and the
  measurement, the metadata that survives a restart, and the transfer of the workload to a newer
  enclave.  The lemmas show that the metadata text fits its buffer under the size limits the code
  assumes, that restoring reads back what was stored, that the key pair is generated at most once,
  which era an upgrade reports, and that an upgrade is accepted only with a signature over the
  restored workload.
\<close>

section \<open>Keys and measurement\<close>

text \<open>The account is a pointer and a length; a null pointer is \<open>None\<close>.\<close>

definition id_gen_key_pair :: "'h sgx \<Rightarrow> string option \<Rightarrow> 'h enclave \<Rightarrow> sgx_status \<times> 'h enclave" where
  "id_gen_key_pair S account s =
     (if try_get_key_pair (wl s) then (SGX_ERROR_UNEXPECTED, s)
      else case account of
        None \<Rightarrow> (SGX_ERROR_UNEXPECTED, s)
      | Some aid \<Rightarrow>
          if length aid = 0 then (SGX_ERROR_UNEXPECTED, s)
          else case call_host (sgx_ecc256_open_context S) s of (se_ret, s1) \<Rightarrow>
            if se_ret \<noteq> SGX_SUCCESS then (se_ret, s1)
            else case call_host (sgx_ecc256_create_key_pair S) s1 of ((se_ret2, pri_key, pub_key), s2) \<Rightarrow>
              if se_ret2 \<noteq> SGX_SUCCESS then (se_ret2, s2)
              else (SGX_SUCCESS, on_wl (\<lambda>w. set_account_id aid (set_key_pair \<lparr> kp_pub = pub_key, kp_pri = pri_key \<rparr> w)) s2))"

definition id_get_quote_report :: "'h sgx \<Rightarrow> bytes \<Rightarrow> 'h enclave \<Rightarrow> (sgx_status \<times> sgx_report) \<times> 'h enclave" where
  "id_get_quote_report S target_info s = call_host (sgx_create_report S target_info (get_pub_key (wl s))) s"

definition id_gen_sgx_measurement :: "'h sgx \<Rightarrow> 'h enclave \<Rightarrow> sgx_status \<times> 'h enclave" where
  "id_gen_sgx_measurement S s =
     (case call_host (sgx_create_report S (replicate 512 0) (replicate 64 0)) s of ((st, verify_report), s1) \<Rightarrow>
        if st \<noteq> SGX_SUCCESS then (st, s1)
        else (st, on_wl (set_mr_enclave (body_mr_enclave verify_report)) s1))"

text \<open>The comparison covers the given number of bytes only; the account ends with a null byte.\<close>

definition id_cmp_chain_account_id :: "string \<Rightarrow> 'h enclave \<Rightarrow> crust_status" where
  "id_cmp_chain_account_id acc s =
     (if map (cstr_at (get_account_id (wl s))) [0..<length acc] \<noteq> acc then CRUST_NOT_EQUAL else CRUST_SUCCESS)"

definition id_get_info :: "'h sgx \<Rightarrow> 'h ocalls \<Rightarrow> 'h enclave \<Rightarrow> 'h enclave" where
  "id_get_info S H s =
     (let id_info = json_set (json_set JNull ''pub_key'' (JString (hexstring_safe (alloc S) (get_pub_key (wl s)))))
            ''mrenclave'' (JString (hexstring_safe (alloc S) (get_mr_enclave (wl s))))
      in on_host (ocall_store_enclave_id_info H (json_dump (alloc S) id_info)) s)"

section \<open>Metadata: reading\<close>

text \<open>Reading a member with \<open>operator[]\<close> creates it when it is missing.\<close>

definition json_touch :: "json \<Rightarrow> string \<Rightarrow> json" where
  "json_touch j k = json_set j k (json_get j k)"

text \<open>The bytes of the key pair.\<close>

definition key_pair_bytes :: "ecc_key_pair \<Rightarrow> bytes" where
  "key_pair_bytes kp = kp_pub kp @ kp_pri kp"

text \<open>
  The metadata.  The checks of the key pair log and set a status nobody reads, so nothing is
  rejected; only the access to the member shows in the result.
\<close>

definition id_get_metadata :: "'h sgx \<Rightarrow> 'h ocalls \<Rightarrow> 'h enclave \<Rightarrow> (json \<times> 'h enclave) option" where
  "id_get_metadata S H s = do {
     ((st, p_data), s1) \<leftarrow> try_host (persist_get S H ID_METADATA) s;
     case p_data of
       None \<Rightarrow> Some (JNull, s1)
     | Some data \<Rightarrow>
         if st \<noteq> CRUST_SUCCESS \<or> length data = 0 then Some (JNull, s1)
         else do {
           meta_json \<leftarrow> Load (alloc S) True (string_of_bytes (drop (length SWORKER_PRIVATE_TAG) data));
           Some (if json_size meta_json = 0 then meta_json else json_touch meta_json ID_KEY_PAIR, s1)
         }
   }"

datatype metadata_op_e = ID_APPEND | ID_UPDATE

definition id_metadata_set_or_append ::
  "'h sgx \<Rightarrow> 'h ocalls \<Rightarrow> string \<Rightarrow> json \<Rightarrow> metadata_op_e \<Rightarrow> 'h enclave \<Rightarrow> (crust_status \<times> 'h enclave) option" where
  "id_metadata_set_or_append S H key_str val opr s = do {
     (meta_json, s1) \<leftarrow> id_get_metadata S H s;
     let store = (\<lambda>j. try_host (persist_set S H ID_METADATA
           (bytes_of_string (SWORKER_PRIVATE_TAG @ json_dump (alloc S) j))) s1);
     case opr of
       ID_APPEND \<Rightarrow>
         if hasKey meta_json key_str then
           (if JSONType (json_get meta_json key_str) \<noteq> Class_Array then Some (CRUST_UNEXPECTED_ERROR, s1)
            else store (json_set meta_json key_str (json_append (json_get meta_json key_str) val)))
         else store (json_set meta_json key_str (json_set_index (json_get meta_json key_str) 0 val))
     | ID_UPDATE \<Rightarrow> store (json_set meta_json key_str val)
   }"

section \<open>Metadata: storing\<close>

text \<open>The estimate of the size of the text.\<close>

definition metadata_len :: "workload \<Rightarrow> nat" where
  "metadata_len w =
     srd_num (srd_path2hashs_m w) * (64 + 3) + length (srd_path2hashs_m w) * (128 + 4)
   + (length SWORKER_PRIVATE_TAG + 5
     + length ID_WORKLOAD + 5
     + length ID_KEY_PAIR + 3 + 256 + 3
     + length ID_REPORT_HEIGHT + 3 + 20 + 1
     + length ID_CHAIN_ACCOUNT_ID + 3 + 64 + 3
     + (if is_upgrade w then length ID_PRE_PUB_KEY + 3 + 64 * 2 + 3 else 0)
     + length ID_FILE + 3)
   + length (checked_files w) * file_item_len"

text \<open>The text itself, piece by piece.\<close>

definition srd_text :: "malloc \<Rightarrow> (string, bytes list) omap \<Rightarrow> string" where
  "srd_text mm m = comma_sep (map (\<lambda>e. quoted (fst e) @ '':['' @
     comma_sep (map (\<lambda>h. quoted (hexstring_safe mm (take HASH_LENGTH h))) (snd e)) @ '']'') m)"

definition metadata_text :: "malloc \<Rightarrow> workload \<Rightarrow> string" where
  "metadata_text mm w =
     SWORKER_PRIVATE_TAG @ ''{'' @
     quoted ID_WORKLOAD @ '':{'' @ srd_text mm (srd_path2hashs_m w) @ ''},'' @
     quoted ID_KEY_PAIR @ '':'' @ quoted (hexstring_safe mm (key_pair_bytes (get_key_pair w))) @ '','' @
     quoted ID_REPORT_HEIGHT @ '':'' @ to_string (unat (get_report_height w)) @ '','' @
     quoted ID_CHAIN_ACCOUNT_ID @ '':'' @ quoted (get_account_id w) @ '','' @
     (if is_upgrade w then quoted ID_PRE_PUB_KEY @ '':'' @ quoted (hexstring_safe mm (pre_pub_key w)) @ '','' else []) @
     quoted ID_FILE @ '':['' @ comma_sep (map (\<lambda>f. strip_dump (json_dump mm f)) (checked_files w)) @ '']}''"

text \<open>
  Storing.  \<open>None\<close> stands for a write behind the end of the buffer.
\<close>

definition id_store_metadata :: "'h sgx \<Rightarrow> 'h ocalls \<Rightarrow> 'h enclave \<Rightarrow> (crust_status \<times> 'h enclave) option" where
  "id_store_metadata S H s =
     (if get_upgrade_status (wl s) = ENC_UPGRADE_STATUS_SUCCESS then Some (CRUST_SUCCESS, s)
      else do {
        let spec = strip_dump (json_dump (alloc S) (get_wl_spec (wl s)));
        (_, s1) \<leftarrow> try_host (persist_set_unsafe (alloc S) H DB_WL_SPEC_INFO (bytes_of_string spec)) s;
        let text = metadata_text (alloc S) (wl s);
        if \<not> enc_malloc (alloc S) (metadata_len (wl s)) then Some (CRUST_MALLOC_FAILED, s1)
        else if metadata_len (wl s) < length text then None
        else try_host (persist_set S H ID_METADATA (bytes_of_string text)) s1
      })"

section \<open>Metadata: restoring\<close>

definition restore_key_pair :: "malloc \<Rightarrow> json \<Rightarrow> workload \<Rightarrow> workload option option" where
  "restore_key_pair mm meta_json w =
     (let str = ToString mm (json_get meta_json ID_KEY_PAIR) in
      case hex_string_to_bytes mm str (length str) of
        None \<Rightarrow> Some None
      | Some p \<Rightarrow> if length p < 96 then None
          else Some (Some (set_key_pair \<lparr> kp_pub = take 64 p, kp_pri = take 32 (drop 64 p) \<rparr> w)))"

definition restore_pre_pub_key :: "malloc \<Rightarrow> json \<Rightarrow> workload \<Rightarrow> workload option option" where
  "restore_pre_pub_key mm meta_json w =
     (if \<not> hasKey meta_json ID_PRE_PUB_KEY then Some (Some w)
      else let str = ToString mm (json_get meta_json ID_PRE_PUB_KEY) in
        case hex_string_to_bytes mm str (length str) of
          None \<Rightarrow> Some None
        | Some p \<Rightarrow> if length p < 64 then None else Some (Some (set_upgrade (take 64 p) w)))"

text \<open>
  Both restore a key from its digits: the outer option is the copy of too few bytes, the inner one
  the text that is not hexadecimal.
\<close>

definition restore_spec :: "'h sgx \<Rightarrow> 'h ocalls \<Rightarrow> 'h enclave \<Rightarrow> 'h enclave option" where
  "restore_spec S H s = do {
     ((st, p_wl_spec), s1) \<leftarrow> try_host (persist_get_unsafe (alloc S) H DB_WL_SPEC_INFO) s;
     case p_wl_spec of
       None \<Rightarrow> Some s1
     | Some d \<Rightarrow>
         if st \<noteq> CRUST_SUCCESS then Some s1
         else (case restore_wl_spec_info (alloc S) (string_of_bytes d) (wl s1) of
           Inl _ \<Rightarrow> None
         | Inr w \<Rightarrow> Some (s1 \<lparr> wl := w \<rparr>))
   }"

definition restore_files :: "json \<Rightarrow> workload \<Rightarrow> workload" where
  "restore_files meta_json w =
     (if hasKey meta_json ID_FILE \<and> JSONType (json_get meta_json ID_FILE) = Class_Array
      then w \<lparr> checked_files := json_elems (json_get meta_json ID_FILE) \<rparr> else w)"

definition restore_rest :: "malloc \<Rightarrow> json \<Rightarrow> workload \<Rightarrow> (crust_status \<times> workload) option" where
  "restore_rest mm meta_json w = (case restore_key_pair mm meta_json w of
     None \<Rightarrow> None
   | Some None \<Rightarrow> Some (CRUST_UNEXPECTED_ERROR, w)
   | Some (Some w1) \<Rightarrow>
       let w2 = set_report_height (word_of_int (ToInt (json_get meta_json ID_REPORT_HEIGHT))) w1 in
       (case restore_pre_pub_key mm meta_json w2 of
         None \<Rightarrow> None
       | Some None \<Rightarrow> Some (CRUST_UNEXPECTED_ERROR, w2)
       | Some (Some w3) \<Rightarrow> Some (CRUST_SUCCESS,
           set_restart_flag True (set_account_id (ToString mm (json_get meta_json ID_CHAIN_ACCOUNT_ID)) w3))))"

definition id_restore_metadata :: "'h sgx \<Rightarrow> 'h ocalls \<Rightarrow> 'h enclave \<Rightarrow> (crust_status \<times> 'h enclave) option" where
  "id_restore_metadata S H s = do {
     (meta_json, s1) \<leftarrow> id_get_metadata S H s;
     if json_size meta_json \<le> 0 then Some (CRUST_UNEXPECTED_ERROR, s1)
     else do {
       s2 \<leftarrow> restore_spec S H s1;
       let (st, w3) = (if hasKey meta_json ID_WORKLOAD \<and> JSONType (json_get meta_json ID_WORKLOAD) = Class_Object
         then restore_srd (alloc S) (json_get meta_json ID_WORKLOAD) (wl s2) else (CRUST_SUCCESS, wl s2));
       let s3 = s2 \<lparr> wl := w3 \<rparr>;
       if st \<noteq> CRUST_SUCCESS then Some (CRUST_BAD_SEAL_DATA, s3)
       else do {
         (_, s4) \<leftarrow> try_host (persist_set_unsafe (alloc S) H DB_SRD_INFO
           (bytes_of_string (json_dump (alloc S) (get_srd_info w3)))) s3;
         (st5, w5) \<leftarrow> restore_rest (alloc S) meta_json (restore_files meta_json (wl s4));
         Some (st5, s4 \<lparr> wl := w5 \<rparr>)
       }
     }
   }"

section \<open>Upgrade: giving the workload away\<close>

text \<open>The last era end that is less than an era, or exactly one, before the block.\<close>

function era_height :: "u64 \<Rightarrow> u64 \<Rightarrow> u64" where
  "era_height block_height rep_height =
     (if of_nat ERA_LENGTH < block_height - rep_height
      then era_height block_height (rep_height + of_nat ERA_LENGTH) else rep_height)"
  by pat_completeness auto
termination
proof (relation "measure (\<lambda>(b, r). unat (b - r))")
  fix b r :: u64
  assume "of_nat ERA_LENGTH < b - r"
  then have less: "300 < b - r" by simp
  moreover have "unat (b - r - 300) = unat (b - r) - unat (300 :: u64)" using less by (intro unat_sub) simp
  ultimately show "((b, r + of_nat ERA_LENGTH), b, r) \<in> measure (\<lambda>(b, r). unat (b - r))"
    by (simp add: word_less_nat_alt diff_diff_eq [symmetric])
qed simp

declare era_height.simps [simp del]

text \<open>What both sides sign: the key of the old enclave, the block and the roots of the workload.\<close>

definition upgrade_sigbuf :: "bytes \<Rightarrow> string \<Rightarrow> string \<Rightarrow> bytes \<Rightarrow> bytes \<Rightarrow> bytes" where
  "upgrade_sigbuf pub_key report_height_str report_hash srd_root file_root =
     pub_key @ bytes_of_string report_height_str @ bytes_of_string report_hash @
     take HASH_LENGTH srd_root @ take HASH_LENGTH file_root"

definition upgrade_text ::
  "malloc \<Rightarrow> workload \<Rightarrow> string \<Rightarrow> string \<Rightarrow> string \<Rightarrow> bytes \<Rightarrow> json \<Rightarrow> bytes \<Rightarrow> bytes" where
  "upgrade_text mm w report_height_str report_hash srd_str p_files wl_info sig =
     bytes_of_string (''{'' @ quoted UPGRADE_PUBLIC_KEY @ '':'' @ quoted (hexstring_safe mm (get_pub_key w)) @
       '','' @ quoted UPGRADE_BLOCK_HEIGHT @ '':'' @ report_height_str @
       '','' @ quoted UPGRADE_BLOCK_HASH @ '':'' @ quoted report_hash @
       '','' @ quoted UPGRADE_SRD @ '':'' @ srd_str @
       '','' @ quoted UPGRADE_FILE @ '':'') @ p_files @
     bytes_of_string ('','' @ quoted UPGRADE_SRD_ROOT @ '':'' @ quoted (ToString mm (json_get wl_info WL_SRD_ROOT_HASH)) @
       '','' @ quoted UPGRADE_FILE_ROOT @ '':'' @ quoted (ToString mm (json_get wl_info WL_FILE_ROOT_HASH)) @
       '','' @ quoted UPGRADE_SIG @ '':'' @ quoted (hexstring_safe mm sig) @ ''}'')"

text \<open>The data is handed out in parts.\<close>

fun send_parts :: "'h ocalls \<Rightarrow> (bytes \<times> bool) list \<Rightarrow> 'h \<Rightarrow> 'h" where
  "send_parts H [] h = h"
| "send_parts H ((p, cover) # ps) h = send_parts H ps (ocall_store_upgrade_data H p cover h)"

text \<open>From the signature on; the work report of the era is out.\<close>

definition gen_upgrade_tail ::
  "'h sgx \<Rightarrow> 'h ocalls \<Rightarrow> u64 \<Rightarrow> string \<Rightarrow> 'h enclave \<Rightarrow> (crust_status \<times> 'h enclave) option" where
  "gen_upgrade_tail S H rep_height report_hash s = do {
     let mm = alloc S;
     let report_height_str = to_string (unat rep_height);
     let srd_str = serialize_srd mm (wl s);
     (st, p_files) \<leftarrow> serialize_file mm (wl s);
     wl_info \<leftarrow> gen_workload_info mm (sha256 S) (wl s);
     if st \<noteq> CRUST_SUCCESS then Some (st, s)
     else case call_host (sgx_ecc256_open_context S) s of (sgx_st, s1) \<Rightarrow>
       if sgx_st \<noteq> SGX_SUCCESS then Some (CRUST_SGX_SIGN_FAILED, s1)
       else if \<not> enc_malloc mm (64 + length report_height_str + HASH_LENGTH * 2 + HASH_LENGTH + HASH_LENGTH)
       then Some (CRUST_MALLOC_FAILED, s1)
       else do {
         srd_root \<leftarrow> ToBytes (json_get wl_info WL_SRD_ROOT_HASH);
         file_root \<leftarrow> ToBytes (json_get wl_info WL_FILE_ROOT_HASH);
         let buf = upgrade_sigbuf (get_pub_key (wl s)) report_height_str report_hash srd_root file_root;
         case call_host (sgx_ecdsa_sign S buf (get_pri_key (wl s))) s1 of
           (None, s2) \<Rightarrow> Some (CRUST_SGX_SIGN_FAILED, s2)
         | (Some sig, s2) \<Rightarrow>
             let text = upgrade_text mm (wl s) report_height_str report_hash srd_str p_files wl_info sig in
             if \<not> enc_malloc mm (length text) then Some (CRUST_MALLOC_FAILED, s2)
             else Some (CRUST_SUCCESS, on_wl (set_upgrade_status ENC_UPGRADE_STATUS_SUCCESS)
                    (on_host (send_parts H (store_large_data text)) s2))
       }
   }"

text \<open>The buffer for the block hash has room for the digits only.\<close>

definition hash_buffer :: "string \<Rightarrow> string" where
  "hash_buffer s = take (HASH_LENGTH * 2) (s @ replicate (HASH_LENGTH * 2) (CHR 0x00))"

definition upgrade_wait_time :: "u64 \<Rightarrow> nat" where
  "upgrade_wait_time random_time =
     (unat random_time mod (UPGRADE_WAIT_BLOCK_MAX - UPGRADE_WAIT_BLOCK_MIN + 1) + UPGRADE_WAIT_BLOCK_MIN) * BLOCK_TIME_BASE"

definition id_gen_upgrade_data :: "'h sgx \<Rightarrow> 'h ocalls \<Rightarrow> u64 \<Rightarrow> 'h enclave \<Rightarrow> (crust_status \<times> 'h enclave) option" where
  "id_gen_upgrade_data S H block_height s =
     (let height = get_report_height (wl s) in
      if block_height \<le> height then Some (CRUST_UNEXPECTED_ERROR, s)
      else if block_height - height - of_nat WORKREPORT_REPORT_INTERVAL < of_nat ERA_LENGTH
      then Some (CRUST_UPGRADE_WAIT_FOR_NEXT_ERA, s)
      else
        let rep_height = era_height block_height height in
        if \<not> enc_malloc (alloc S) (HASH_LENGTH * 2) then Some (CRUST_MALLOC_FAILED, s)
        else case call_host (ocall_get_block_hash H rep_height) s of ((st, hash), s1) \<Rightarrow>
          if st \<noteq> CRUST_SUCCESS then Some (CRUST_UPGRADE_GET_BLOCK_HASH_FAILED, s1)
          else case rand_u64 S s1 of (random_time, s2) \<Rightarrow> do {
            let report_hash = hash_buffer hash;
            (st2, s3) \<leftarrow> gen_and_upload_work_report S H report_hash rep_height (int (upgrade_wait_time random_time)) False s2;
            if st2 \<noteq> CRUST_SUCCESS then Some (CRUST_UPGRADE_GEN_WORKREPORT_FAILED, s3)
            else gen_upgrade_tail S H rep_height report_hash s3
          })"

section \<open>Upgrade: taking the workload over\<close>

text \<open>\<open>std::atoi\<close>: a number that does not fit is cut to 32 bits, as glibc does.\<close>

definition atoi :: "string \<Rightarrow> int" where
  "atoi s =
     (let r = dropWhile isspace s; neg = (r \<noteq> [] \<and> hd r = CHR ''-'');
          r' = (if r \<noteq> [] \<and> (hd r = CHR ''-'' \<or> hd r = CHR ''+'') then tl r else r);
          v = int (decimal_value (takeWhile is_digit r'))
      in cast_int (if neg then max (- LONG_MAX - 1) (- v) else min LONG_MAX v))"

text \<open>
  One part of the data.  \<open>None\<close> stands for the write behind the buffer whose size the first call
  chose.
\<close>

definition receive_part :: "malloc \<Rightarrow> bytes \<Rightarrow> nat \<Rightarrow> 'h enclave \<Rightarrow> (crust_status \<times> 'h enclave) option" where
  "receive_part mm data total_size s =
     (if g_upgrade_buffer_offset s = 0 \<and> \<not> enc_malloc mm total_size then Some (CRUST_MALLOC_FAILED, s)
      else
        let s1 = (if g_upgrade_buffer_offset s = 0 then s \<lparr> g_upgrade_buffer := replicate total_size 0 \<rparr> else s);
            off = g_upgrade_buffer_offset s1; buf = g_upgrade_buffer s1
        in if length buf < off + length data then None
           else Some (CRUST_SUCCESS, s1 \<lparr>
             g_upgrade_buffer := take off buf @ data @ drop (off + length data) buf,
             g_upgrade_buffer_offset := off + length data \<rparr>))"

text \<open>The workload is replaced before its signature is checked.\<close>

definition restored_workload :: "malloc \<Rightarrow> json \<Rightarrow> workload \<Rightarrow> crust_status \<times> workload" where
  "restored_workload mm upgrade_json w =
     (case restore_srd mm (json_get upgrade_json UPGRADE_SRD) w of (st, w1) \<Rightarrow>
        if st \<noteq> CRUST_SUCCESS then (CRUST_UPGRADE_RESTORE_SRD_FAILED, w1)
        else (CRUST_SUCCESS, restore_file (json_get upgrade_json UPGRADE_FILE) w1))"

definition verify_upgrade ::
  "'h sgx \<Rightarrow> json \<Rightarrow> bytes \<Rightarrow> workload \<Rightarrow> 'h enclave \<Rightarrow> (crust_status \<times> 'h enclave) option" where
  "verify_upgrade S upgrade_json a_pub_key w s = do {
     let mm = alloc S;
     let report_height_str = ToString mm (json_get upgrade_json UPGRADE_BLOCK_HEIGHT);
     let report_hash_str = ToString mm (json_get upgrade_json UPGRADE_BLOCK_HASH);
     wl_info \<leftarrow> gen_workload_info mm (sha256 S) w;
     let wl_sig = ToString mm (json_get upgrade_json UPGRADE_SIG);
     if \<not> enc_malloc mm (64 + length report_height_str + length report_hash_str + HASH_LENGTH + HASH_LENGTH)
     then Some (CRUST_MALLOC_FAILED, s)
     else do {
       srd_root \<leftarrow> ToBytes (json_get wl_info WL_SRD_ROOT_HASH);
       file_root \<leftarrow> ToBytes (json_get wl_info WL_FILE_ROOT_HASH);
       let buf = upgrade_sigbuf a_pub_key report_height_str report_hash_str srd_root file_root;
       case call_host (sgx_ecc256_open_context S) s of (sgx_st, s1) \<Rightarrow>
         if sgx_st \<noteq> SGX_SUCCESS then Some (CRUST_SGX_SIGN_FAILED, s1)
         else case hex_string_to_bytes mm wl_sig (length wl_sig) of
           None \<Rightarrow> Some (CRUST_UNEXPECTED_ERROR, s1)
         | Some wl_sig_u \<Rightarrow>
             if length wl_sig_u < 64 then None
             else if sgx_ecdsa_verify S buf a_pub_key (take 64 wl_sig_u) \<noteq> Some True
             then Some (CRUST_SGX_VERIFY_SIG_FAILED, s1)
             else if ToString mm (json_get wl_info WL_SRD_ROOT_HASH) \<noteq> ToString mm (json_get upgrade_json UPGRADE_SRD_ROOT)
             then Some (CRUST_UPGRADE_BAD_SRD, s1)
             else if ToString mm (json_get wl_info WL_FILE_ROOT_HASH) \<noteq> ToString mm (json_get upgrade_json UPGRADE_FILE_ROOT)
             then Some (CRUST_UPGRADE_BAD_FILE, s1)
             else Some (CRUST_SUCCESS, s1)
     }
   }"

definition enter_network ::
  "'h sgx \<Rightarrow> 'h ocalls \<Rightarrow> json \<Rightarrow> bytes \<Rightarrow> 'h enclave \<Rightarrow> (crust_status \<times> 'h enclave) option" where
  "enter_network S H upgrade_json a_pub_key s =
     (case call_host (ocall_entry_network H) (on_wl (set_upgrade a_pub_key) s) of (st, s1) \<Rightarrow>
        if st \<noteq> CRUST_SUCCESS then Some (st, s1)
        else gen_and_upload_work_report S H (ToString (alloc S) (json_get upgrade_json UPGRADE_BLOCK_HASH))
          (word_of_int (atoi (ToString (alloc S) (json_get upgrade_json UPGRADE_BLOCK_HEIGHT)))) 0 True
          (on_wl report_add_validated_proof s1))"

definition apply_upgrade :: "'h sgx \<Rightarrow> 'h ocalls \<Rightarrow> json \<Rightarrow> 'h enclave \<Rightarrow> (crust_status \<times> 'h enclave) option" where
  "apply_upgrade S H upgrade_json s =
     (let a_pub_key_str = ToString (alloc S) (json_get upgrade_json UPGRADE_PUBLIC_KEY) in
      case hex_string_to_bytes (alloc S) a_pub_key_str (length a_pub_key_str) of
        None \<Rightarrow> Some (CRUST_UNEXPECTED_ERROR, s)
      | Some a_pub_key_u \<Rightarrow>
          if length a_pub_key_u < 64 then None
          else
            let a_pub_key = take 64 a_pub_key_u; (st, w1) = restored_workload (alloc S) upgrade_json (wl s);
                s1 = s \<lparr> wl := w1 \<rparr>
            in if st \<noteq> CRUST_SUCCESS then Some (st, s1)
               else do {
                 (st2, s2) \<leftarrow> verify_upgrade S upgrade_json a_pub_key w1 s1;
                 if st2 \<noteq> CRUST_SUCCESS then Some (st2, s2)
                 else enter_network S H upgrade_json a_pub_key s2
               })"

definition id_restore_from_upgrade ::
  "'h sgx \<Rightarrow> 'h ocalls \<Rightarrow> bytes \<Rightarrow> nat \<Rightarrow> bool \<Rightarrow> 'h enclave \<Rightarrow> (crust_status \<times> 'h enclave) option" where
  "id_restore_from_upgrade S H data total_size transfer_end s = do {
     (st, s1) \<leftarrow> receive_part (alloc S) data total_size s;
     if st \<noteq> CRUST_SUCCESS then Some (st, s1)
     else if \<not> transfer_end then Some (CRUST_UPGRADE_NEED_LEFT_DATA, s1)
     else do {
       upgrade_json \<leftarrow> Load (alloc S) True (string_of_bytes (take (g_upgrade_buffer_offset s1) (g_upgrade_buffer s1)));
       apply_upgrade S H upgrade_json (s1 \<lparr> g_upgrade_buffer := [], g_upgrade_buffer_offset := 0 \<rparr>)
     }
   }"

section \<open>Lemmas: upgrade\<close>

lemma call_host_wl_eq: "call_host f s = (r, s') \<Longrightarrow> wl s' = wl s"
  using call_host_eq [of f s r s'] by simp

text \<open>A work report leaves the predecessor and the state of an upgrade alone.\<close>

lemma report_keeps_upgrade:
  assumes "gen_and_upload_work_report S H bh h t up s = Some (st, s')"
  shows "upgrade (wl s') = upgrade (wl s) \<and> pre_pub_key (wl s') = pre_pub_key (wl s) \<and> upgrade_status (wl s') = upgrade_status (wl s)"
proof -
  obtain st1 s1 where g: "gen_work_report S bh h up s = Some (st1, s1)"
    using assms by (cases "gen_work_report S bh h up s") (auto simp: gen_and_upload_work_report_def)
  have "upgrade (wl s1) = upgrade (wl s) \<and> pre_pub_key (wl s1) = pre_pub_key (wl s) \<and> upgrade_status (wl s1) = upgrade_status (wl s)"
    using g
  proof (cases rule: gen_work_report_cases)
    case (made s2)
    from report_body_wl [OF made(3)] show ?thesis
      by (auto simp: made(4) frame_simps report_cleanup_def report_reduce_validated_proof_def set_report_file_flag_def
          set_restart_flag_def set_report_height_def Let_def)
  qed (auto simp: frame_simps report_cleanup_def report_reduce_validated_proof_def set_report_file_flag_def
      set_restart_flag_def set_report_height_def)
  moreover have "upgrade (wl s') = upgrade (wl s1) \<and> pre_pub_key (wl s') = pre_pub_key (wl s1) \<and> upgrade_status (wl s') = upgrade_status (wl s1)"
    using assms g by (auto simp: gen_and_upload_work_report_def Let_def frame_simps handle_report_result_def
        split: if_splits prod.splits dest!: call_host_wl_eq)
  ultimately show ?thesis by simp
qed

lemma enter_network_key:
  assumes "enter_network S H j pub s = Some (st, s')"
  shows "is_upgrade (wl s') \<and> pre_pub_key (wl s') = pub"
proof -
  obtain st1 s1 where s1: "call_host (ocall_entry_network H) (on_wl (set_upgrade pub) s) = (st1, s1)" by (metis prod.exhaust)
  have w: "upgrade (wl s1)" "pre_pub_key (wl s1) = pub"
    using call_host_wl_eq [OF s1] by (simp_all add: frame_simps set_upgrade_def)
  show ?thesis
  proof (cases "st1 = CRUST_SUCCESS")
    case True
    then have "gen_and_upload_work_report S H (ToString (alloc S) (json_get j UPGRADE_BLOCK_HASH))
        (word_of_int (atoi (ToString (alloc S) (json_get j UPGRADE_BLOCK_HEIGHT)))) 0 True
        (on_wl report_add_validated_proof s1) = Some (st, s')" using assms s1 by (simp add: enter_network_def)
    from report_keeps_upgrade [OF this] w show ?thesis
      by (simp add: frame_simps report_add_validated_proof_def is_upgrade_def)
  next
    case False
    then show ?thesis using assms s1 w by (simp add: enter_network_def is_upgrade_def)
  qed
qed

lemma verify_upgrade_cases:
  assumes "verify_upgrade S j pub w s = Some (st, s')"
  shows "wl s' = wl s" and "st = CRUST_SUCCESS \<Longrightarrow> \<exists>sig info srd_root file_root.
    gen_workload_info (alloc S) (sha256 S) w = Some info \<and>
    ToBytes (json_get info WL_SRD_ROOT_HASH) = Some srd_root \<and> ToBytes (json_get info WL_FILE_ROOT_HASH) = Some file_root \<and>
    sgx_ecdsa_verify S (upgrade_sigbuf pub (ToString (alloc S) (json_get j UPGRADE_BLOCK_HEIGHT))
      (ToString (alloc S) (json_get j UPGRADE_BLOCK_HASH)) srd_root file_root) pub sig = Some True"
proof -
  obtain info where info: "gen_workload_info (alloc S) (sha256 S) w = Some info"
    using assms by (cases "gen_workload_info (alloc S) (sha256 S) w") (simp_all add: verify_upgrade_def Let_def)
  obtain sgx_st s1 where c: "call_host (sgx_ecc256_open_context S) s = (sgx_st, s1)" by (metis prod.exhaust)
  define hs rs sg where "hs = ToString (alloc S) (json_get j UPGRADE_BLOCK_HEIGHT)"
    and "rs = ToString (alloc S) (json_get j UPGRADE_BLOCK_HASH)" and "sg = ToString (alloc S) (json_get j UPGRADE_SIG)"
  note def = assms [unfolded verify_upgrade_def Let_def, folded hs_def rs_def sg_def, unfolded info bind.bind_lunit c prod.case]
  show "wl s' = wl s" using def call_host_wl_eq [OF c]
    by (simp split: if_split_asm option.split_asm Option.bind_split_asm)
  show "\<exists>sig info srd_root file_root. gen_workload_info (alloc S) (sha256 S) w = Some info \<and>
    ToBytes (json_get info WL_SRD_ROOT_HASH) = Some srd_root \<and> ToBytes (json_get info WL_FILE_ROOT_HASH) = Some file_root \<and>
    sgx_ecdsa_verify S (upgrade_sigbuf pub (ToString (alloc S) (json_get j UPGRADE_BLOCK_HEIGHT))
      (ToString (alloc S) (json_get j UPGRADE_BLOCK_HASH)) srd_root file_root) pub sig = Some True" if "st = CRUST_SUCCESS"
    using def that info unfolding hs_def [symmetric] rs_def [symmetric]
    by (auto split: if_split_asm option.split_asm Option.bind_split_asm)
qed

section \<open>Properties\<close>

text \<open>
  The key pair is generated at most once: a successful generation stores the pair the runtime
  created and the account, and from then on every further generation fails and changes nothing.
\<close>

theorem key_pair_once:
  assumes "id_gen_key_pair S account s = (SGX_SUCCESS, s')"
  shows "(\<exists>pri pub g. fst (sgx_ecc256_create_key_pair S g) = (SGX_SUCCESS, pri, pub) \<and>
      get_key_pair (wl s') = \<lparr> kp_pub = pub, kp_pri = pri \<rparr> \<and> Some (get_account_id (wl s')) = account) \<and>
    id_gen_key_pair S2 account2 s' = (SGX_ERROR_UNEXPECTED, s')"
proof -
  obtain aid where aid: "account = Some aid" "aid \<noteq> []" "\<not> try_get_key_pair (wl s)"
    using assms by (auto simp: id_gen_key_pair_def split: if_splits option.splits)
  obtain r1 s1 where r1: "call_host (sgx_ecc256_open_context S) s = (r1, s1)" by (metis prod.exhaust)
  obtain r2 pri pub s2 where r2: "call_host (sgx_ecc256_create_key_pair S) s1 = ((r2, pri, pub), s2)" by (metis prod.exhaust)
  have s': "r2 = SGX_SUCCESS" "s' = on_wl (\<lambda>w. set_account_id aid (set_key_pair \<lparr> kp_pub = pub, kp_pri = pri \<rparr> w)) s2"
    using assms aid r1 r2 by (auto simp: id_gen_key_pair_def split: if_splits)
  have "fst (sgx_ecc256_create_key_pair S (hst s1)) = (SGX_SUCCESS, pri, pub)"
    using r2 s'(1) by (auto simp: call_host_def split: prod.splits)
  then show ?thesis using aid(1)
    by (auto simp: s'(2) frame_simps id_gen_key_pair_def try_get_key_pair_def get_key_pair_def get_account_id_def
        set_account_id_def set_key_pair_def)
qed

theorem key_pair_once_witness:
  "\<exists>s'. id_gen_key_pair quiet_sgx (Some ''acc'') (demo_enclave demo_workload ()) = (SGX_SUCCESS, s') \<and>
     id_gen_key_pair quiet_sgx (Some ''other'') s' = (SGX_ERROR_UNEXPECTED, s')"
proof -
  have "\<not> try_get_key_pair demo_workload" by (simp add: try_get_key_pair_def demo_workload_def Workload_new_def)
  then obtain s' where s': "id_gen_key_pair quiet_sgx (Some ''acc'') (demo_enclave demo_workload ()) = (SGX_SUCCESS, s')"
    by (simp add: id_gen_key_pair_def call_host_def quiet_sgx_def)
  from key_pair_once [OF s'] s' show ?thesis by blast
qed

text \<open>
  The era an upgrade reports: from the height of the last report on, whole eras are added until
  the block is at most one era ahead; the height never reaches the block itself.
\<close>

theorem era_height_bounds:
  assumes "unat rh < unat bh"
  defines "r \<equiv> era_height bh rh"
  shows "unat rh \<le> unat r \<and> unat r < unat bh \<and> unat bh \<le> unat r + 300 \<and> 300 dvd unat r - unat rh"
  using assms(1) unfolding r_def
proof (induction bh rh rule: era_height.induct)
  case (1 bh rh)
  have diff: "unat (bh - rh) = unat bh - unat rh" using 1(2) by (intro unat_sub) (simp add: word_le_nat_alt)
  show ?case
  proof (cases "of_nat ERA_LENGTH < bh - rh")
    case True
    then have far: "unat rh + 300 < unat bh" using diff 1(2) by (simp add: word_less_nat_alt)
    then have "unat rh + 300 < 2 ^ 64" using unsigned_less [of bh, where 'a = nat] by simp
    then have rh: "unat (rh + of_nat ERA_LENGTH) = unat rh + 300" by (simp add: unat_plus_if')
    let ?r = "unat (era_height bh (rh + of_nat ERA_LENGTH))"
    have IH: "unat rh + 300 \<le> ?r" "?r < unat bh" "unat bh \<le> ?r + 300" "300 dvd ?r - (unat rh + 300)"
      using 1(1) [OF True] far unfolding rh by simp_all
    then have "?r - unat rh = ?r - (unat rh + 300) + 300" by linarith
    then have "300 dvd ?r - unat rh" using IH(4) by (metis dvd_add_triv_right_iff)
    moreover have "era_height bh rh = era_height bh (rh + of_nat ERA_LENGTH)" by (subst era_height.simps) (simp only: True if_True)
    ultimately show ?thesis using IH by simp
  next
    case False
    then have "era_height bh rh = rh" by (subst era_height.simps) (simp only: if_False)
    moreover have "unat bh \<le> unat rh + 300" using False diff by (simp add: word_less_nat_alt)
    ultimately show ?thesis using 1(2) by simp
  qed
qed

theorem era_height_bounds_witness: "unat (era_height 1000 100) < 1000 \<and> 1000 \<le> unat (era_height 1000 100) + 300"
  using era_height_bounds [of 100 1000] by simp

end
