(* ===== verification/Metadata.thy ===== *)
theory Metadata
  imports Identity
begin

text \<open>
  The texts the identity component writes and reads: the metadata kept over a restart and the data
  of an upgrade.  Both are JSON objects written piece by piece into a buffer of an estimated size.
  The lemmas give them as the text of a JSON value, show what the parser makes of it, that the
  estimate is large enough, and that restoring gives the workload back.
\<close>

section \<open>Lemmas: hexadecimal strings in a text\<close>

declare plain_hex_string [simp] ToString_hex [simp]

lemma ToString_plain: "plain s \<Longrightarrow> ToString mm (JString s) = s"
  by (simp add: plain_def escape_plain)

lemma restore_hex:
  "(\<And>n t. mm n t) \<Longrightarrow> b \<noteq> [] \<Longrightarrow> hex_string_to_bytes mm (hex b) (length (hex b)) = Some b"
  using hex_string_to_bytes_hex [of b mm] by (simp add: length_concat_hex enc_malloc_always)

section \<open>Lemmas: objects with members in any order\<close>

lemma map_of_fold_upd:
  "omap_ok acc \<Longrightarrow> omap_ok (fold (\<lambda>e. omap_upd (fst e) (snd e)) m acc) \<and>
     map_of (fold (\<lambda>e. omap_upd (fst e) (snd e)) m acc) = map_of acc ++ map_of (rev m)"
proof (induction m arbitrary: acc)
  case (Cons e m)
  have "omap_ok (omap_upd (fst e) (snd e) acc)" using Cons.prems by (simp add: omap_ok_upd)
  from Cons.IH [OF this] show ?case
    by (auto simp: map_of_omap_upd [OF Cons.prems] map_add_def fun_eq_iff split: option.splits)
qed simp

lemma json_get_text:
  assumes "distinct (map fst m)"
  shows "json_get (JObject (fold (\<lambda>e. omap_upd (fst e) (snd e)) m [])) k = (case map_of m k of Some v \<Rightarrow> v | None \<Rightarrow> JNull)"
    and "hasKey (JObject (fold (\<lambda>e. omap_upd (fst e) (snd e)) m [])) k \<longleftrightarrow> map_of m k \<noteq> None"
proof -
  have "omap_ok ([] :: (string, json) omap)" by (simp add: omap_ok_def)
  from map_of_fold_upd [OF this, of m] have "map_of (fold (\<lambda>e. omap_upd (fst e) (snd e)) m []) k = map_of m k"
    using assms map_of_inject_set [of "rev m" m] by (simp add: rev_map [symmetric])
  then show "json_get (JObject (fold (\<lambda>e. omap_upd (fst e) (snd e)) m [])) k = (case map_of m k of Some v \<Rightarrow> v | None \<Rightarrow> JNull)"
    "hasKey (JObject (fold (\<lambda>e. omap_upd (fst e) (snd e)) m [])) k \<longleftrightarrow> map_of m k \<noteq> None"
    by (simp_all add: json_get_def json_simps)
qed

section \<open>Lemmas: the random data as JSON\<close>

definition srd_json :: "(string, bytes list) omap \<Rightarrow> json" where
  "srd_json m = JObject (map (\<lambda>e. (fst e, JArray (map (\<lambda>h. JString (hex h)) (snd e)))) m)"

text \<open>What the texts need of the random data: sorted plain paths and hashes of 32 bytes.\<close>

definition srd_ok :: "(string, bytes list) omap \<Rightarrow> bool" where
  "srd_ok m \<longleftrightarrow> omap_ok m \<and> (\<forall>e \<in> set m. plain (fst e) \<and> (\<forall>h \<in> set (snd e). length h = HASH_LENGTH))"

lemma hexstring_safe_mem: "(\<And>n t. mm n t) \<Longrightarrow> hexstring_safe mm b = hex b"
  by (simp add: hexstring_safe_def enc_malloc_always)

lemma srd_json_text:
  assumes "\<And>n t. mm n t" and "srd_ok m"
  shows "json_text (srd_json m) = ''{'' @ srd_text mm m @ ''}''" and "serialize_srd mm (w \<lparr> srd_path2hashs_m := m \<rparr>) = json_text (srd_json m)"
    and "simple (srd_json m)"
proof -
  have hs: "map (\<lambda>h. quoted (hexstring_safe mm (take HASH_LENGTH h))) (snd e) = map json_text (map (\<lambda>h. JString (hex h)) (snd e))"
    if "e \<in> set m" for e
    using assms(2) that by (auto simp: srd_ok_def hexstring_safe_mem [OF assms(1)])
  then have t: "srd_text mm m = comma_sep (map (\<lambda>e. quoted (fst e) @ '':'' @ json_text (JArray (map (\<lambda>h. JString (hex h)) (snd e)))) m)"
    unfolding srd_text_def
    by (intro arg_cong [where f = comma_sep] map_cong refl) (simp only: json_text.simps(2) append_assoc append.simps)
  then show obj: "json_text (srd_json m) = ''{'' @ srd_text mm m @ ''}''" by (simp add: srd_json_def o_def)
  show "serialize_srd mm (w \<lparr> srd_path2hashs_m := m \<rparr>) = json_text (srd_json m)"
    unfolding obj by (simp add: serialize_srd_def srd_text_def quoted_def)
  have "omap_ok (map (\<lambda>e. (fst e, f e)) m)" for f :: "string \<times> bytes list \<Rightarrow> json"
    using assms(2) by (simp add: srd_ok_def omap_ok_def o_def)
  then show "simple (srd_json m)" using assms(2) by (auto simp: srd_json_def srd_ok_def)
qed

lemma restore_hashs_json:
  assumes "\<And>n t. mm n t" and "\<forall>h \<in> set hs. length h = HASH_LENGTH"
  shows "restore_hashs mm (JArray (map (\<lambda>h. JString (hex h)) hs)) = Some hs"
proof -
  have "map (\<lambda>i. let s = ToString mm (json_index (JArray (map (\<lambda>h. JString (hex h)) hs)) i) in hex_string_to_bytes mm s (length s)) [0..<length hs]
      = map Some hs"
  proof (rule nth_equalityI)
    fix i assume "i < length (map (\<lambda>i. let s = ToString mm (json_index (JArray (map (\<lambda>h. JString (hex h)) hs)) i)
        in hex_string_to_bytes mm s (length s)) [0..<length hs])"
    then have i: "i < length hs" by simp
    then have "hs ! i \<noteq> []" using assms(2) nth_mem [OF i] by fastforce
    then show "map (\<lambda>i. let s = ToString mm (json_index (JArray (map (\<lambda>h. JString (hex h)) hs)) i) in hex_string_to_bytes mm s (length s)) [0..<length hs] ! i
        = map Some hs ! i"
      using i restore_hex [OF assms(1)] by (simp add: json_index_def json_elems_def SetType_def del: ToString.simps)
  qed simp
  moreover have "those (map Some xs) = Some xs" for xs :: "bytes list" by (induction xs) auto
  ultimately show ?thesis by (simp add: restore_hashs_def del: ToString.simps)
qed

lemma restore_paths_json:
  assumes "\<And>n t. mm n t" and "\<forall>e \<in> set m. \<forall>h \<in> set (snd e). length h = HASH_LENGTH"
  shows "restore_paths mm (map (\<lambda>e. (fst e, JArray (map (\<lambda>h. JString (hex h)) (snd e)))) m) acc =
    Some (fold (\<lambda>e. omap_upd (fst e) (snd e)) (filter (\<lambda>e. snd e \<noteq> []) m) acc)"
  using assms(2)
proof (induction m arbitrary: acc)
  case (Cons e m)
  then have "restore_hashs mm (JArray (map (\<lambda>h. JString (hex h)) (snd e))) = Some (snd e)"
    by (intro restore_hashs_json [OF assms(1)]) simp
  then show ?case using Cons by (cases "snd e") auto
qed simp

lemma omap_ok_filter: "omap_ok m \<Longrightarrow> omap_ok (filter P m)"
  by (auto simp: omap_ok_def sorted_wrt_map sorted_wrt_filter)

lemma restore_srd_json:
  assumes "\<And>n t. mm n t" and "srd_ok m"
  shows "fst (restore_srd mm (srd_json m) w) = CRUST_SUCCESS"
    and "srd_path2hashs_m (snd (restore_srd mm (srd_json m) w)) = filter (\<lambda>e. snd e \<noteq> []) m"
    and "snd (restore_srd mm (srd_json m) w) = w \<lparr> srd_path2hashs_m := filter (\<lambda>e. snd e \<noteq> []) m,
      srd_info_json := srd_info_json (snd (restore_srd mm (srd_json m) w)) \<rparr>"
proof -
  have "restore_paths mm (object_range (srd_json m)) [] = Some (filter (\<lambda>e. snd e \<noteq> []) m)"
    using restore_paths_json [where mm = mm and m = m and acc = "[]", OF assms(1)] assms(2) fold_omap_upd [of "[]" "filter (\<lambda>e. snd e \<noteq> []) m"]
    by (simp add: srd_json_def object_range_def srd_ok_def omap_ok_filter)
  then show "fst (restore_srd mm (srd_json m) w) = CRUST_SUCCESS"
    "srd_path2hashs_m (snd (restore_srd mm (srd_json m) w)) = filter (\<lambda>e. snd e \<noteq> []) m"
    "snd (restore_srd mm (srd_json m) w) = w \<lparr> srd_path2hashs_m := filter (\<lambda>e. snd e \<noteq> []) m,
      srd_info_json := srd_info_json (snd (restore_srd mm (srd_json m) w)) \<rparr>"
    by (simp_all add: restore_srd_def)
qed

section \<open>Lemmas: the metadata as JSON\<close>

definition metadata_members :: "workload \<Rightarrow> (string \<times> json) list" where
  "metadata_members w =
     [(ID_WORKLOAD, srd_json (srd_path2hashs_m w)), (ID_KEY_PAIR, JString (hex (key_pair_bytes (id_key_pair w)))),
      (ID_REPORT_HEIGHT, JIntegral (int (unat (report_height w)))), (ID_CHAIN_ACCOUNT_ID, JString (account_id w))] @
     (if upgrade w then [(ID_PRE_PUB_KEY, JString (hex (pre_pub_key w)))] else []) @
     [(ID_FILE, JArray (checked_files w))]"

text \<open>
  A workload whose metadata can be read back: paths, account and file entries that need no
  escaping, keys of the right length and a height that fits a \<open>long\<close>.
\<close>

definition metadata_ok :: "workload \<Rightarrow> bool" where
  "metadata_ok w \<longleftrightarrow> srd_ok (srd_path2hashs_m w) \<and> list_all simple (checked_files w) \<and> plain (account_id w) \<and>
     int (unat (report_height w)) \<le> LONG_MAX \<and> length (kp_pub (id_key_pair w)) = 64 \<and> length (kp_pri (id_key_pair w)) = 32 \<and>
     length (pre_pub_key w) = 64"

lemma plain_names:
  "plain ID_WORKLOAD" "plain ID_KEY_PAIR" "plain ID_REPORT_HEIGHT" "plain ID_CHAIN_ACCOUNT_ID" "plain ID_PRE_PUB_KEY"
  "plain ID_FILE"
  by (simp_all add: plain_def plain_char_def)

lemma hash_memory_always: "(\<And>n t. mm n t) \<Longrightarrow> hash_memory mm"
  by (simp add: hash_memory_def enc_malloc_always)

lemma json_text_files:
  assumes "\<And>n t. mm n t" and "list_all simple fs"
  shows "comma_sep (map (\<lambda>f. strip_dump (json_dump mm f)) fs) = comma_sep (map json_text fs)"
  using assms(2) strip_dump_compact [OF hash_memory_always [of mm, OF assms(1)]]
  by (intro arg_cong [where f = comma_sep] map_cong) (auto simp: list_all_iff)

lemma metadata_text_json:
  assumes "\<And>n t. mm n t" and "metadata_ok w"
  shows "metadata_text mm w = SWORKER_PRIVATE_TAG @ json_text (JObject (metadata_members w))"
proof -
  have srd: "''{'' @ srd_text mm (srd_path2hashs_m w) @ ''}'' = json_text (srd_json (srd_path2hashs_m w))"
    using srd_json_text(1) [of mm "srd_path2hashs_m w", OF assms(1)] assms(2) by (simp add: metadata_ok_def)
  have files: "comma_sep (map (\<lambda>f. strip_dump (json_dump mm f)) (checked_files w)) = comma_sep (map json_text (checked_files w))"
    using assms(2) by (intro json_text_files assms(1)) (simp add: metadata_ok_def)
  have hex: "hexstring_safe mm b = hex b" for b by (rule hexstring_safe_mem [OF assms(1)])
  show ?thesis
    unfolding metadata_text_def metadata_members_def files hex
    using srd by (simp add: comma_sep_Cons get_key_pair_def get_report_height_def get_account_id_def is_upgrade_def
        to_string_int_def del: comma_sep.simps)
qed

lemma Load_metadata:
  assumes "\<And>n t. mm n t" and "metadata_ok w"
  defines "j \<equiv> JObject (fold (\<lambda>e. omap_upd (fst e) (snd e)) (metadata_members w) [])"
  shows "Load mm True (string_of_bytes (drop (length SWORKER_PRIVATE_TAG) (bytes_of_string (metadata_text mm w)))) = Some j"
    and "json_get j k = (case map_of (metadata_members w) k of Some v \<Rightarrow> v | None \<Rightarrow> JNull)"
    and "hasKey j k \<longleftrightarrow> map_of (metadata_members w) k \<noteq> None" and "json_ok j"
proof -
  have neg: "- LONG_MAX \<le> int (unat (report_height w))"
    by (rule order_trans [of _ 0]) (simp_all add: LONG_MAX_def)
  have simple: "\<forall>e \<in> set (metadata_members w). plain (fst e) \<and> simple (snd e)"
    using assms(2) srd_json_text(3) [of mm "srd_path2hashs_m w", OF assms(1)] neg
    by (simp add: metadata_members_def metadata_ok_def list_all_iff plain_names)
  have "json_Load mm True (json_text (JObject (metadata_members w))) = Inr j"
    unfolding j_def by (rule json_Load_object_text [OF hash_memory_always simple]) (rule assms(1))
  moreover have "string_of_bytes (drop (length SWORKER_PRIVATE_TAG) (bytes_of_string (metadata_text mm w))) =
      json_text (JObject (metadata_members w))"
    unfolding metadata_text_json [OF assms(1,2)]
    by (simp add: bytes_of_string_def drop_map [symmetric] string_of_bytes_def o_def del: json_text.simps)
  ultimately show "Load mm True (string_of_bytes (drop (length SWORKER_PRIVATE_TAG) (bytes_of_string (metadata_text mm w)))) = Some j"
    by (simp add: Load_def)
  have dist: "distinct (map fst (metadata_members w))" by (simp add: metadata_members_def)
  show "json_get j k = (case map_of (metadata_members w) k of Some v \<Rightarrow> v | None \<Rightarrow> JNull)"
    "hasKey j k \<longleftrightarrow> map_of (metadata_members w) k \<noteq> None"
    unfolding j_def by (rule json_get_text [OF dist])+
  have "omap_ok ([] :: (string, json) omap)" by (simp add: omap_ok_def)
  from map_of_fold_upd [OF this] show "json_ok j" by (simp add: json_ok_def j_def json_simps)
qed

lemma json_touch_simps [json_simps]:
  "json_ok j \<Longrightarrow> json_get (json_touch j k) l = json_get j l"
  "json_ok j \<Longrightarrow> hasKey (json_touch j k) l \<longleftrightarrow> l = k \<or> hasKey j l"
  by (simp_all add: json_touch_def json_simps)

section \<open>Lemmas: restoring from the text\<close>

text \<open>What a restart gives back.  Directories without hashes are not kept.\<close>

definition restored :: "workload \<Rightarrow> workload \<Rightarrow> bool" where
  "restored w w' \<longleftrightarrow>
     srd_path2hashs_m w' = filter (\<lambda>e. snd e \<noteq> []) (srd_path2hashs_m w) \<and> checked_files w' = checked_files w \<and>
     id_key_pair w' = id_key_pair w \<and> is_set_key_pair w' \<and> report_height w' = report_height w \<and>
     account_id w' = account_id w \<and> restart_flag w' \<and>
     (upgrade w \<longrightarrow> upgrade w' \<and> pre_pub_key w' = pre_pub_key w)"

lemma members_lookup:
  "map_of (metadata_members w) ID_WORKLOAD = Some (srd_json (srd_path2hashs_m w))"
  "map_of (metadata_members w) ID_KEY_PAIR = Some (JString (hex (key_pair_bytes (id_key_pair w))))"
  "map_of (metadata_members w) ID_REPORT_HEIGHT = Some (JIntegral (int (unat (report_height w))))"
  "map_of (metadata_members w) ID_CHAIN_ACCOUNT_ID = Some (JString (account_id w))"
  "map_of (metadata_members w) ID_PRE_PUB_KEY = (if upgrade w then Some (JString (hex (pre_pub_key w))) else None)"
  "map_of (metadata_members w) ID_FILE = Some (JArray (checked_files w))"
  by (simp_all add: metadata_members_def)

text \<open>A value with the members of the metadata, whatever their order.\<close>

definition holds_metadata :: "workload \<Rightarrow> json \<Rightarrow> bool" where
  "holds_metadata w j \<longleftrightarrow> (\<forall>k. json_get j k = (case map_of (metadata_members w) k of Some v \<Rightarrow> v | None \<Rightarrow> JNull)) \<and>
     (\<forall>k. hasKey j k \<longleftrightarrow> map_of (metadata_members w) k \<noteq> None)"

lemma restore_rest_ok:
  assumes mem: "\<And>n t. mm n t" and "metadata_ok w" and "holds_metadata w j"
    and "srd_path2hashs_m w0 = filter (\<lambda>e. snd e \<noteq> []) (srd_path2hashs_m w)"
  shows "\<exists>w'. restore_rest mm j (restore_files j w0) = Some (CRUST_SUCCESS, w') \<and> restored w w' \<and> wl_spec_info w' = wl_spec_info w0"
proof -
  note get = assms(3) [unfolded holds_metadata_def, THEN conjunct1, rule_format]
  note has = assms(3) [unfolded holds_metadata_def, THEN conjunct2, rule_format]
  have len: "length (kp_pub (id_key_pair w)) = 64" "length (kp_pri (id_key_pair w)) = 32" "length (pre_pub_key w) = 64"
    using assms(2) by (simp_all add: metadata_ok_def)
  let ?w1 = "restore_files j w0"
  have w1: "?w1 = w0 \<lparr> checked_files := checked_files w \<rparr>"
    by (simp add: restore_files_def get has members_lookup json_elems_def SetType_def)
  have kp: "\<lparr> kp_pub = kp_pub (id_key_pair w), kp_pri = kp_pri (id_key_pair w) \<rparr> = id_key_pair w"
    by (cases "id_key_pair w") simp
  have "key_pair_bytes (id_key_pair w) \<noteq> []" using len by (auto simp: key_pair_bytes_def)
  from restore_hex [of mm, OF mem this]
  have "restore_key_pair mm j v = Some (Some (set_key_pair (id_key_pair w) v))" for v
    using len by (simp add: restore_key_pair_def get members_lookup escape_plain plain_hex) (simp add: key_pair_bytes_def kp)
  moreover have "restore_pre_pub_key mm j v = Some (Some (if upgrade w then set_upgrade (pre_pub_key w) v else v))" for v
  proof -
    have "pre_pub_key w \<noteq> []" using len by auto
    from restore_hex [of mm, OF mem this] show ?thesis
      using len by (simp add: restore_pre_pub_key_def get has members_lookup escape_plain plain_hex)
  qed
  moreover have "plain (account_id w)" using assms(2) by (simp add: metadata_ok_def)
  ultimately show ?thesis using assms(4)
    by (simp add: restore_rest_def w1 get members_lookup ToString_plain [simplified] restored_def Let_def set_restart_flag_def
        set_account_id_def set_report_height_def set_key_pair_def set_upgrade_def word_of_int_uint)
qed

lemma restore_metadata_text:
  fixes s :: "'h enclave"
  assumes mem: "\<And>n t. alloc S n t" and "metadata_ok w"
    and "persist_get S H ID_METADATA (hst s) = Some ((CRUST_SUCCESS, Some (bytes_of_string (metadata_text (alloc S) w))), h1)"
    and "restore_spec S H (s \<lparr> hst := h1 \<rparr>) = Some s2"
    and "\<And>val. persist_set_unsafe (alloc S) H DB_SRD_INFO val (hst s2) \<noteq> None"
  shows "\<exists>s'. id_restore_metadata S H s = Some (CRUST_SUCCESS, s') \<and> restored w (wl s') \<and> wl_spec_info (wl s') = wl_spec_info (wl s2)"
proof -
  let ?j = "JObject (fold (\<lambda>e. omap_upd (fst e) (snd e)) (metadata_members w) [])"
  let ?m = "json_touch ?j ID_KEY_PAIR"
  note load = Load_metadata [of "alloc S", OF mem assms(2)]
  have size: "json_size ?j \<noteq> 0" "0 < json_size ?m"
    using load(3) [of ID_WORKLOAD] json_touch_simps(2) [OF load(4), of ID_KEY_PAIR ID_KEY_PAIR]
    by (auto simp: members_lookup json_touch_def json_set_def)
  have "holds_metadata w ?m"
    using load(2-4) by (auto simp: holds_metadata_def json_simps members_lookup)
  note holds = this and get = this [unfolded holds_metadata_def, THEN conjunct1, rule_format]
    and has = this [unfolded holds_metadata_def, THEN conjunct2, rule_format]
  have data: "metadata_text (alloc S) w \<noteq> []" by (simp add: metadata_text_def)
  have meta: "id_get_metadata S H s = Some (?m, s \<lparr> hst := h1 \<rparr>)"
    using load(1) assms(3) size(1) data by (simp add: id_get_metadata_def try_host_def)
  have "srd_ok (srd_path2hashs_m w)" using assms(2) by (simp add: metadata_ok_def)
  note srd = restore_srd_json [of "alloc S", OF mem this, of "wl s2"]
  let ?w3 = "snd (restore_srd (alloc S) (srd_json (srd_path2hashs_m w)) (wl s2))"
  have cond: "hasKey ?m ID_WORKLOAD \<and> JSONType (json_get ?m ID_WORKLOAD) = Class_Object"
    by (simp add: has get members_lookup srd_json_def)
  obtain st4 h4 where p: "persist_set_unsafe (alloc S) H DB_SRD_INFO
      (bytes_of_string (json_dump (alloc S) (get_srd_info ?w3))) (hst s2) = Some (st4, h4)"
    using assms(5) by fastforce
  obtain w' where w': "restore_rest (alloc S) ?m (restore_files ?m ?w3) = Some (CRUST_SUCCESS, w')" "restored w w'"
    "wl_spec_info w' = wl_spec_info ?w3"
    using restore_rest_ok [of "alloc S", OF mem assms(2) holds srd(2)] by blast
  have spec: "wl_spec_info ?w3 = wl_spec_info (wl s2)" by (subst srd(3)) simp
  have r: "restore_srd (alloc S) (json_get ?m ID_WORKLOAD) (wl s2) = (CRUST_SUCCESS, ?w3)"
    using srd(1) by (simp add: get members_lookup prod_eq_iff)
  show ?thesis
    unfolding id_restore_metadata_def meta
    using size(2) assms(4) cond r p w' spec by (simp add: try_host_def)
qed

section \<open>Lemmas: the size of the text\<close>

text \<open>A file entry as the enclave makes it, with the numbers the estimate allows for.\<close>

definition std_file :: "json \<Rightarrow> bool" where
  "std_file f \<longleftrightarrow> (\<exists>bn h oh osz sz st.
     f = JObject [(FILE_BLOCK_NUM, JIntegral bn), (FILE_HASH, JHash h), (FILE_OLD_HASH, JHash oh),
           (FILE_OLD_SIZE, JIntegral osz), (FILE_SIZE, JIntegral sz), (FILE_STATUS, JString st)] \<and>
     0 \<le> bn \<and> bn < 10 ^ 6 \<and> 0 \<le> osz \<and> osz < 10 ^ 12 \<and> 0 \<le> sz \<and> sz < 10 ^ 12 \<and>
     length h = HASH_LENGTH \<and> length oh = HASH_LENGTH \<and> length st = 3 \<and> plain st)"

lemma length_comma_sep: "length (comma_sep ss) \<le> sum_list (map (\<lambda>s. Suc (length s)) ss)"
  by (induction ss rule: comma_sep.induct) simp_all

lemma length_to_string_int: "0 \<le> i \<Longrightarrow> i < 10 ^ k \<Longrightarrow> 0 < k \<Longrightarrow> length (to_string_int i) \<le> k"
  using length_to_string_le [of "nat i" k] by (simp add: to_string_int_def nat_less_iff)

lemma std_file_simple: "std_file f \<Longrightarrow> simple f"
  by (auto simp: std_file_def omap_ok_def plain_def plain_char_def LONG_MAX_def)

lemma length_std_file:
  assumes "hash_memory mm" and "std_file f"
  shows "length (strip_dump (json_dump mm f)) < file_item_len"
proof -
  obtain bn h oh osz sz st where f: "f = JObject [(FILE_BLOCK_NUM, JIntegral bn), (FILE_HASH, JHash h), (FILE_OLD_HASH, JHash oh),
      (FILE_OLD_SIZE, JIntegral osz), (FILE_SIZE, JIntegral sz), (FILE_STATUS, JString st)]"
    and n: "0 \<le> bn" "bn < 10 ^ 6" "0 \<le> osz" "osz < 10 ^ 12" "0 \<le> sz" "sz < 10 ^ 12"
    and len: "length h = HASH_LENGTH" "length oh = HASH_LENGTH" "length st = 3"
    using assms(2) unfolding std_file_def by blast
  have "length (to_string_int bn) \<le> 6" "length (to_string_int osz) \<le> 12" "length (to_string_int sz) \<le> 12"
    using n by (simp_all add: length_to_string_int)
  then have "length (json_text f) < file_item_len"
    using len by (simp add: f file_item_len_def quoted_def length_concat_hex)
  then show ?thesis using strip_dump_compact [OF assms(1) std_file_simple [OF assms(2)]] by simp
qed

lemma length_hexstring_safe: "length (hexstring_safe mm b) \<le> 2 * length b"
  by (simp add: hexstring_safe_def length_concat_hex)

lemma length_srd_text:
  assumes "\<forall>e \<in> set m. length (fst e) \<le> 126"
  shows "length (srd_text mm m) \<le> srd_num m * (64 + 3) + length m * (128 + 4)"
proof -
  have hs: "length (comma_sep (map (\<lambda>h. quoted (hexstring_safe mm (take HASH_LENGTH h))) hs)) \<le> length hs * 67" for hs
  proof -
    have "Suc (length (quoted (hexstring_safe mm (take HASH_LENGTH h)))) \<le> 67" for h
      using length_hexstring_safe [of mm "take HASH_LENGTH h"] by (simp add: quoted_def)
    then have "sum_list (map (\<lambda>h. Suc (length (quoted (hexstring_safe mm (take HASH_LENGTH h))))) hs) \<le> length hs * 67"
      by (induction hs) (auto intro: add_mono)
    then show ?thesis using length_comma_sep [of "map (\<lambda>h. quoted (hexstring_safe mm (take HASH_LENGTH h))) hs"]
      by (simp add: o_def)
  qed
  have "sum_list (map (\<lambda>e. Suc (length (quoted (fst e) @ '':['' @
      comma_sep (map (\<lambda>h. quoted (hexstring_safe mm (take HASH_LENGTH h))) (snd e)) @ '']''))) m) \<le>
      srd_num m * (64 + 3) + length m * (128 + 4)"
    using assms
  proof (induction m)
    case (Cons e m)
    then show ?case using hs [of "snd e"] by (simp add: omap_total_def quoted_def)
  qed (simp add: omap_total_def)
  then show ?thesis
    using length_comma_sep [of "map (\<lambda>e. quoted (fst e) @ '':['' @
      comma_sep (map (\<lambda>h. quoted (hexstring_safe mm (take HASH_LENGTH h))) (snd e)) @ '']'') m"]
    by (simp add: srd_text_def o_def)
qed

lemma length_files_text:
  assumes "hash_memory mm" and "list_all std_file fs"
  shows "length (comma_sep (map (\<lambda>f. strip_dump (json_dump mm f)) fs)) \<le> length fs * file_item_len"
proof -
  have "sum_list (map (\<lambda>f. Suc (length (strip_dump (json_dump mm f)))) fs) \<le> length fs * file_item_len"
    using assms(2) length_std_file [OF assms(1)] by (induction fs) (auto simp: Suc_le_eq intro: add_less_le_mono)
  then show ?thesis
    using length_comma_sep [of "map (\<lambda>f. strip_dump (json_dump mm f)) fs"] by (simp add: o_def)
qed

lemma metadata_text_bound:
  assumes "hash_memory mm" and "\<forall>e \<in> set (srd_path2hashs_m w). length (fst e) \<le> 126"
    and "length (account_id w) \<le> 128" and "list_all std_file (checked_files w)"
    and "length (kp_pub (id_key_pair w)) = 64" and "length (kp_pri (id_key_pair w)) = 32" and "length (pre_pub_key w) = 64"
  shows "length (metadata_text mm w) \<le> metadata_len w"
proof -
  have "unat (report_height w) < 10 ^ 20" by (rule order_less_trans [OF unsigned_less]) simp
  then have "length (to_string (unat (report_height w))) \<le> 20" by (intro length_to_string_le) simp_all
  moreover have "length (hexstring_safe mm (key_pair_bytes (id_key_pair w))) \<le> 192"
    using length_hexstring_safe [of mm "key_pair_bytes (id_key_pair w)"] assms(5,6) by (simp add: key_pair_bytes_def)
  moreover have "length (hexstring_safe mm (pre_pub_key w)) \<le> 128"
    using length_hexstring_safe [of mm "pre_pub_key w"] assms(7) by simp
  ultimately show ?thesis
    using length_srd_text [OF assms(2), of mm] length_files_text [OF assms(1,4)] assms(3)
    by (simp add: metadata_text_def metadata_len_def get_key_pair_def get_report_height_def get_account_id_def
        is_upgrade_def quoted_def)
qed

section \<open>Properties\<close>

text \<open>
  C30. The buffer of the metadata is large enough: with directory names of at most 126 characters,
  an account of at most 128, file sizes of at most twelve digits and block numbers of at most six,
  the text that \<open>id_store_metadata\<close> writes never passes the end of the buffer it allocated, for
  any number of directories, hashes and files.
\<close>

theorem metadata_fits:
  assumes "hash_memory mm" and "\<forall>e \<in> set (srd_path2hashs_m w). length (fst e) \<le> 126"
    and "length (account_id w) \<le> 128" and "list_all std_file (checked_files w)"
    and "length (kp_pub (id_key_pair w)) = 64" and "length (kp_pri (id_key_pair w)) = 32" and "length (pre_pub_key w) = 64"
  shows "length (metadata_text mm w) \<le> metadata_len w"
  by (rule metadata_text_bound [OF assms])

theorem metadata_fits_witness:
  "length (metadata_text mem_ok (demo_workload \<lparr> srd_path2hashs_m := [(''/srd'', [replicate 32 7])], checked_files := [demo_file ''100'' 5] \<rparr>))
     \<le> metadata_len (demo_workload \<lparr> srd_path2hashs_m := [(''/srd'', [replicate 32 7])], checked_files := [demo_file ''100'' 5] \<rparr>)"
proof (rule metadata_fits)
  let ?w = "demo_workload \<lparr> srd_path2hashs_m := [(''/srd'', [replicate 32 7])], checked_files := [demo_file ''100'' 5] \<rparr>"
  show "hash_memory mem_ok" by (simp add: hash_memory_def)
  have "plain ''100''" by (simp add: plain_def plain_char_def)
  then show "list_all std_file (checked_files ?w)" by (auto simp: std_file_def demo_file_def)
qed (simp_all add: demo_workload_def Workload_new_def)


text \<open>The data of an old enclave that stores nothing.\<close>

definition demo_upgrade :: json where
  "demo_upgrade = JObject [(UPGRADE_BLOCK_HASH, JString (hex (replicate 32 0))), (UPGRADE_BLOCK_HEIGHT, JIntegral 1000),
     (UPGRADE_PUBLIC_KEY, JString (hex (replicate 64 2))), (UPGRADE_FILE, JArray []),
     (UPGRADE_FILE_ROOT, JString (hex (replicate 32 0))), (UPGRADE_SIG, JString (hex (replicate 64 3))),
     (UPGRADE_SRD, JObject []), (UPGRADE_SRD_ROOT, JString (hex (replicate 32 0)))]"

lemma demo_upgrade_get:
  "json_get demo_upgrade UPGRADE_BLOCK_HASH = JString (hex (replicate 32 0))"
  "json_get demo_upgrade UPGRADE_BLOCK_HEIGHT = JIntegral 1000"
  "json_get demo_upgrade UPGRADE_PUBLIC_KEY = JString (hex (replicate 64 2))"
  "json_get demo_upgrade UPGRADE_FILE = JArray []" "json_get demo_upgrade UPGRADE_FILE_ROOT = JString (hex (replicate 32 0))"
  "json_get demo_upgrade UPGRADE_SIG = JString (hex (replicate 64 3))" "json_get demo_upgrade UPGRADE_SRD = JObject []"
  "json_get demo_upgrade UPGRADE_SRD_ROOT = JString (hex (replicate 32 0))"
  by (simp_all add: demo_upgrade_def json_get_def json_simps)

lemma atoi_to_string:
  assumes "0 \<le> i" and "i < 2 ^ 31"
  shows "atoi (to_string_int i) = i"
proof -
  obtain c cs where c: "to_string (nat i) = c # cs" by (cases "to_string (nat i)") auto
  have dig: "list_all is_digit (c # cs)" using to_string_digits [of "nat i"] by (simp add: c)
  then have "\<not> isspace c" "c \<noteq> CHR ''-''" "c \<noteq> CHR ''+''" by (auto simp: isspace_def is_digit_def)
  moreover have "decimal_value (c # cs) = nat i" using decimal_value_to_string [of "nat i"] by (simp add: c)
  ultimately show ?thesis
    using assms dig by (simp add: atoi_def Let_def to_string_int_def c cast_int_id LONG_MAX_def min_def takeWhile_digits)
qed

text \<open>The checks on it in an enclave without data, with whatever verification of signatures.\<close>

lemma demo_upgrade_steps:
  fixes S :: "unit sgx"
  assumes "alloc S = mem_ok" and "\<And>h. sgx_ecc256_open_context S h = (SGX_SUCCESS, h)" and "\<And>b pk sg. sgx_ecdsa_verify S b pk sg = Some r"
    and empty: "srd_path2hashs_m w = []" "checked_files w = []"
  shows "restored_workload mem_ok demo_upgrade w = (CRUST_SUCCESS, w)"
    and "verify_upgrade S demo_upgrade pk w s = Some (if r then CRUST_SUCCESS else CRUST_SGX_VERIFY_SIG_FAILED, s)"
    and "apply_upgrade S H demo_upgrade s = (case restored_workload mem_ok demo_upgrade (wl s) of (st, w1) \<Rightarrow>
      if st \<noteq> CRUST_SUCCESS then Some (st, s \<lparr> wl := w1 \<rparr>)
      else do {
        (st2, s2) \<leftarrow> verify_upgrade S demo_upgrade (replicate 64 2) w1 (s \<lparr> wl := w1 \<rparr>);
        if st2 \<noteq> CRUST_SUCCESS then Some (st2, s2) else enter_network S H demo_upgrade (replicate 64 2) s2
      })"
proof -
  have hex: "hex_string_to_bytes mem_ok (hex (replicate 64 b)) 128 = Some (replicate 64 b)" for b
    using restore_hex [of mem_ok "replicate 64 b"] by (simp add: length_concat_hex del: map_replicate)
  have "w \<lparr> srd_path2hashs_m := [], checked_files := [] \<rparr> = w" using empty by (cases w) simp
  then show "restored_workload mem_ok demo_upgrade w = (CRUST_SUCCESS, w)"
    by (simp add: restored_workload_def demo_upgrade_get restore_srd_def object_range_def restore_file_def restored_items_def empty)
  let ?info = "json_set (json_set JNull WL_SRD_ROOT_HASH (json_hash (replicate HASH_LENGTH 0))) WL_FILE_ROOT_HASH (json_hash (replicate HASH_LENGTH 0))"
  have info: "gen_workload_info mem_ok sha w = Some ?info" for sha
    by (simp add: gen_workload_info_def gen_srd_root_def empty)
  have root: "json_get ?info WL_SRD_ROOT_HASH = JHash (replicate 32 0)" "json_get ?info WL_FILE_ROOT_HASH = JHash (replicate 32 0)"
    by (simp_all add: json_get_def json_set_def json_hash_def json_simps)
  show "verify_upgrade S demo_upgrade pk w s = Some (if r then CRUST_SUCCESS else CRUST_SGX_VERIFY_SIG_FAILED, s)"
    unfolding verify_upgrade_def Let_def
    by (simp add: info root demo_upgrade_get escape_plain plain_hex hex json_hexstring_def call_host_def assms del: map_replicate)
  show "apply_upgrade S H demo_upgrade s = (case restored_workload mem_ok demo_upgrade (wl s) of (st, w1) \<Rightarrow>
      if st \<noteq> CRUST_SUCCESS then Some (st, s \<lparr> wl := w1 \<rparr>)
      else do {
        (st2, s2) \<leftarrow> verify_upgrade S demo_upgrade (replicate 64 2) w1 (s \<lparr> wl := w1 \<rparr>);
        if st2 \<noteq> CRUST_SUCCESS then Some (st2, s2) else enter_network S H demo_upgrade (replicate 64 2) s2
      })"
    by (simp add: apply_upgrade_def demo_upgrade_get escape_plain plain_hex hex length_concat_hex assms(1) Let_def case_prod_beta del: map_replicate)
qed

text \<open>An enclave that stores nothing, has not reported yet and may report accepts it.\<close>

definition blank :: "workload \<Rightarrow> bool" where
  "blank w \<longleftrightarrow> srd_path2hashs_m w = [] \<and> checked_files w = [] \<and> wl_inv w \<and> report_height w = 0 \<and> \<not> restart_flag w \<and>
     report_files w \<and> validated_proof w = 0"

lemma blank_new: "blank (Workload_new mem)"
  using wl_inv_new [of mem] by (simp add: blank_def) (simp add: Workload_new_def)

lemma demo_upgrade_accepted:
  assumes "blank (wl s)"
  shows "\<exists>s'. apply_upgrade quiet_sgx quiet_ocalls demo_upgrade s = Some (CRUST_SUCCESS, s' :: unit enclave)"
proof -
  let ?pub = "replicate 64 2 :: bytes" and ?w = "wl s"
  have quiet: "sgx_ecc256_open_context quiet_sgx h = (SGX_SUCCESS, h)" "sgx_ecdsa_verify quiet_sgx b pk sg = Some True"
    for h :: unit and b pk sg by (simp_all add: quiet_sgx_def)
  have "srd_path2hashs_m ?w = []" "checked_files ?w = []" and inv: "wl_inv ?w" using assms by (simp_all add: blank_def)
  note steps = demo_upgrade_steps [of quiet_sgx True, OF _ quiet this(1,2)]
  let ?s2 = "on_wl report_add_validated_proof (on_wl (set_upgrade ?pub) (s \<lparr> wl := ?w \<rparr>))"
  have at: "atoi (to_string_int 1000) = 1000" by (simp add: atoi_to_string)
  have "wl_inv (wl ?s2)" by (simp add: frame_simps wl_inv_frame inv)
  moreover have "\<not> height_expired 1000 (wl ?s2)" "report_condition (wl ?s2) = CRUST_SUCCESS"
    using assms by (simp_all add: frame_simps height_expired_def report_condition_def get_report_height_def get_restart_flag_def
        report_has_validated_proof_def get_report_file_flag_def report_add_validated_proof_def set_upgrade_def blank_def)
  ultimately obtain s3 where s3: "gen_work_report quiet_sgx (hex (replicate 32 0)) 1000 True ?s2 = Some (CRUST_SUCCESS, s3)"
    using quiet_report [of ?s2 1000] by blast
  moreover have net: "call_host (ocall_entry_network quiet_ocalls) t = (CRUST_SUCCESS, t)"
    "call_host (ocall_upload_workreport quiet_ocalls x) t = (CRUST_SUCCESS, t)" for t :: "unit enclave" and x
    by (simp_all add: call_host_def quiet_ocalls_def)
  ultimately have e: "\<exists>s'. enter_network quiet_sgx quiet_ocalls demo_upgrade ?pub (s \<lparr> wl := ?w \<rparr>) = Some (CRUST_SUCCESS, s')"
    by (simp add: enter_network_def demo_upgrade_get escape_plain plain_hex at net gen_and_upload_work_report_def Let_def
        del: map_replicate)
  then show ?thesis using steps by simp
qed




end
