(* ===== verification/DataBase.thy ===== *)
theory DataBase
  imports Persistence
begin

text \<open>
  The database outside the enclave: \<open>src/app/database/DataBase.cpp\<close> over leveldb, and the
  OCALLs of \<open>src/app/ocalls/OCalls.cpp\<close> that reach it.  leveldb is a parameter; what its
  documentation promises is \<open>leveldb_ok\<close>.  Together with the persistence component this shows
  that a value stored by the enclave is the value it gets back, however long it is.
\<close>

section \<open>leveldb\<close>

record 'd leveldb =
  db_Put :: "string \<Rightarrow> bytes \<Rightarrow> 'd \<Rightarrow> bool \<times> 'd"
  db_Get :: "string \<Rightarrow> 'd \<Rightarrow> bytes option"
  db_Delete :: "string \<Rightarrow> 'd \<Rightarrow> bool \<times> 'd"

text \<open>Writes succeed and are read back; a deleted or unknown key is not found.\<close>

definition leveldb_ok :: "'d leveldb \<Rightarrow> ('d \<Rightarrow> string \<Rightarrow> bytes option) \<Rightarrow> bool" where
  "leveldb_ok L view \<longleftrightarrow>
     (\<forall>k v d. fst (db_Put L k v d) \<and> view (snd (db_Put L k v d)) = (view d)(k \<mapsto> v)) \<and>
     (\<forall>k d. view (snd (db_Delete L k d)) = (view d)(k := None)) \<and>
     (\<forall>k d. db_Get L k d = view d k)"

section \<open>Class DataBase\<close>

definition DataBase_add :: "'d leveldb \<Rightarrow> string \<Rightarrow> bytes \<Rightarrow> 'd \<Rightarrow> crust_status \<times> 'd" where
  "DataBase_add L key val d =
     (let old_val = (case db_Get L key d of Some v \<Rightarrow> v | None \<Rightarrow> []);
          val' = (if old_val \<noteq> [] then val @ bytes_of_string '';'' @ old_val else val)
      in case db_Put L key val' d of (ok, d') \<Rightarrow> (if ok then CRUST_SUCCESS else CRUST_PERSIST_ADD_FAILED, d'))"

definition DataBase_del :: "'d leveldb \<Rightarrow> string \<Rightarrow> 'd \<Rightarrow> crust_status \<times> 'd" where
  "DataBase_del L key d =
     (case db_Delete L key d of (ok, d') \<Rightarrow> (if ok then CRUST_SUCCESS else CRUST_PERSIST_DEL_FAILED, d'))"

definition DataBase_set :: "'d leveldb \<Rightarrow> string \<Rightarrow> bytes \<Rightarrow> 'd \<Rightarrow> crust_status \<times> 'd" where
  "DataBase_set L key val d =
     (case db_Put L key val d of (ok, d') \<Rightarrow> (if ok then CRUST_SUCCESS else CRUST_PERSIST_SET_FAILED, d'))"

definition DataBase_get :: "'d leveldb \<Rightarrow> string \<Rightarrow> 'd \<Rightarrow> crust_status \<times> bytes" where
  "DataBase_get L key d =
     (case db_Get L key d of Some v \<Rightarrow> (CRUST_SUCCESS, v) | None \<Rightarrow> (CRUST_PERSIST_GET_FAILED, []))"

section \<open>The OCALLs of the database\<close>

definition db_persist_get :: "'d leveldb \<Rightarrow> string \<Rightarrow> 'd \<Rightarrow> (crust_status \<times> bytes) \<times> 'd" where
  "db_persist_get L key d = (DataBase_get L key d, d)"

definition db_free_outer_buffer :: "'d \<Rightarrow> crust_status \<times> 'd" where
  "db_free_outer_buffer d = (CRUST_SUCCESS, d)"

text \<open>The other OCALLs are those of \<open>base\<close>.\<close>

definition db_ocalls :: "'d leveldb \<Rightarrow> 'd ocalls \<Rightarrow> 'd ocalls" where
  "db_ocalls L base = base \<lparr>
     ocall_persist_add := DataBase_add L, ocall_persist_del := DataBase_del L,
     ocall_persist_set := DataBase_set L, ocall_persist_get := db_persist_get L,
     ocall_free_outer_buffer := db_free_outer_buffer \<rparr>"

text \<open>A leveldb that is the map of its records.\<close>

definition ldb_map :: "(string \<Rightarrow> bytes option) leveldb" where
  "ldb_map = \<lparr> db_Put = (\<lambda>k v d. (True, d(k \<mapsto> v))), db_Get = (\<lambda>k d. d k),
     db_Delete = (\<lambda>k d. (True, d(k := None))) \<rparr>"

section \<open>Lemmas\<close>

lemma ldb_map_ok: "leveldb_ok ldb_map (\<lambda>d. d)"
  by (simp add: leveldb_ok_def ldb_map_def)

lemma db_ocalls_store:
  assumes "leveldb_ok L view"
  shows "key_value_store (db_ocalls L base) view"
  using assms by unfold_locales
    (auto simp: db_ocalls_def leveldb_ok_def DataBase_set_def DataBase_del_def db_persist_get_def
      DataBase_get_def db_free_outer_buffer_def case_prod_beta)

interpretation crust_db: key_value_store "db_ocalls ldb_map base" "\<lambda>d. d" for base
  by (rule db_ocalls_store [OF ldb_map_ok])

section \<open>Properties\<close>

text \<open>
  C24. What \<open>persist_set_unsafe\<close> stored is what \<open>persist_get_unsafe\<close> returns, for every
  value of less than 4 GiB, in one piece or in many, over whatever the key held before, on a
  leveldb that keeps its records.
\<close>

theorem persist_unsafe_roundtrip:
  assumes "leveldb_ok L view" and "\<And>n t. mm n t" and "length val < 2 ^ 32"
    and "\<And>v. view d (sum_key key) = Some v \<Longrightarrow> Load mm False (string_of_bytes v) \<noteq> None"
  shows "\<exists>d1 d2. persist_set_unsafe mm (db_ocalls L base) key val d = Some (CRUST_SUCCESS, d1) \<and>
    persist_get_unsafe mm (db_ocalls L base) key d1 = Some ((CRUST_SUCCESS, Some val), d2)"
proof -
  have store: "key_value_store (db_ocalls L base) view" by (rule db_ocalls_store [OF assms(1)])
  have m: "enc_malloc mm n" for n by (rule enc_malloc_always) (rule assms(2))
  have "key_value_store.readable view mm key d"
    using assms(4) by (simp add: key_value_store.readable_def [OF store])
  from key_value_store.set_unsafe_holds [OF store this m, where val = val]
  obtain d1 where d1: "persist_set_unsafe mm (db_ocalls L base) key val d = Some (CRUST_SUCCESS, d1)"
    "if OCALL_STORE_THRESHOLD < length val then key_value_store.holds_long view mm key val d1
     else key_value_store.holds_short view key val d1" .
  then show ?thesis
    using key_value_store.get_unsafe_held [OF store d1(2) assms(2,3)] by blast
qed

theorem persist_unsafe_roundtrip_witness:
  "\<exists>d1 d2. persist_set_unsafe mem_ok (db_ocalls ldb_map quiet_ocalls) ''k'' [1, 2, 3] Map.empty
       = Some (CRUST_SUCCESS, d1) \<and>
     persist_get_unsafe mem_ok (db_ocalls ldb_map quiet_ocalls) ''k'' d1 = Some ((CRUST_SUCCESS, Some [1, 2, 3]), d2)"
  by (rule persist_unsafe_roundtrip [OF ldb_map_ok]) simp_all

text \<open>
  C23. A sealed value survives the same way: after a successful \<open>persist_set\<close>, the enclave's
  \<open>persist_get\<close> unseals exactly the value that was sealed.
\<close>

theorem persist_sealed_roundtrip:
  assumes "leveldb_ok L view" and "sealing_ok S" and "\<And>n t. alloc S n t"
    and "\<And>src d. view (snd (sgx_seal_data_ex S src d)) = view d"
    and "length val < 2 ^ 32" and "sgx_calc_sealed_data_size S (length val) < 2 ^ 32"
    and "\<And>v. view d (sum_key key) = Some v \<Longrightarrow> Load (alloc S) False (string_of_bytes v) \<noteq> None"
    and "persist_set S (db_ocalls L base) key val d = Some (CRUST_SUCCESS, d1)"
  shows "\<exists>d2. persist_get S (db_ocalls L base) key d1 = Some ((CRUST_SUCCESS, Some val), d2)"
proof -
  have store: "key_value_store (db_ocalls L base) view" by (rule db_ocalls_store [OF assms(1)])
  have m: "enc_malloc (alloc S) n" for n by (rule enc_malloc_always) (rule assms(3))
  have "key_value_store.readable view (alloc S) key d"
    using assms(7) by (simp add: key_value_store.readable_def [OF store])
  from key_value_store.set_sealed_held [OF store assms(2) m assms(4-6) this assms(8)]
  obtain sd where sd: "key_value_store.held view (alloc S) key sd d1" "sgx_unseal_data S sd = Some val" "length sd < 2 ^ 32" .
  from key_value_store.get_held [OF store sd(1) [unfolded key_value_store.held_def [OF store]] assms(3) sd(3,2)]
  show ?thesis .
qed

theorem persist_sealed_roundtrip_witness:
  "\<exists>d1 d2. persist_set quiet_sgx (db_ocalls ldb_map quiet_ocalls) ''k'' [7, 8] Map.empty = Some (CRUST_SUCCESS, d1) \<and>
     persist_get quiet_sgx (db_ocalls ldb_map quiet_ocalls) ''k'' d1 = Some ((CRUST_SUCCESS, Some [7, 8]), d2)"
proof -
  have seal: "seal_data_mrenclave quiet_sgx [7, 8] Map.empty = ((CRUST_SUCCESS, [7, 8]), Map.empty)"
    by (simp add: seal_data_mrenclave_def Sgx_seal_data_ex_def quiet_sgx_def uint32_def)
  have "crust_db.readable (alloc quiet_sgx) ''k'' Map.empty" by (simp add: crust_db.readable_def)
  then obtain d1 where d1: "persist_set quiet_sgx (db_ocalls ldb_map quiet_ocalls) ''k'' [7, 8] Map.empty
      = Some (CRUST_SUCCESS, d1)"
    by (rule crust_db.set_holds [OF seal]) (simp add: quiet_sgx_def)
  have "sealing_ok quiet_sgx" by (simp add: sealing_ok_def quiet_sgx_def)
  from persist_sealed_roundtrip [OF ldb_map_ok this _ _ _ _ _ d1] d1 show ?thesis
    by (simp add: quiet_sgx_def)
qed

text \<open>
  The host decides how large the enclave's buffer is: when the record it returns for the sum
  announces fewer bytes than the first piece it returns, fetching writes behind the buffer, in
  the sealed variant too, before anything has been authenticated.
\<close>

theorem persist_get_host_overflow:
  assumes "inner_ocall_persist_get (alloc S) H (sum_key key) h = ((CRUST_SUCCESS, v), h1)"
    and "Load (alloc S) False (string_of_bytes v) = Some (sum_json (Suc k) n)"
    and "Suc k < 2 ^ 32" and "n < 2 ^ 63" and "enc_malloc (alloc S) n"
    and "inner_ocall_persist_get (alloc S) H (piece_key key 0) h1 = ((CRUST_SUCCESS, p), h2)"
    and "n < length p"
  shows "persist_get S H key h = None \<and> persist_get_unsafe (alloc S) H key h = None"
proof -
  have "size_of_int (int (Suc k)) = Suc k" by (rule size_of_int_nat) (use assms(3) in simp)
  moreover have "size_of_int (int n) = n" by (rule size_of_int_nat) (use assms(4) in simp)
  moreover have "uint32 (Suc k) = Suc k" using assms(3) by (rule uint32_id)
  moreover have "[0..<Suc k] = 0 # [Suc 0..<Suc k]" by (rule upt_conv_Cons) simp
  ultimately show ?thesis
    using assms by (simp add: persist_get_def persist_get_unsafe_def del: upt_Suc of_nat_Suc)
qed

definition lying_host :: "unit ocalls" where
  "lying_host = quiet_ocalls \<lparr> ocall_persist_get := (\<lambda>key h.
     ((CRUST_SUCCESS, if key = ''k_sum'' then sum_str mem_ok 1 2 else [1, 2, 3]), h)) \<rparr>"

theorem persist_get_host_overflow_witness: "persist_get quiet_sgx lying_host ''k'' () = None"
proof -
  have "Load mem_ok False (string_of_bytes (sum_str mem_ok (Suc 0) 2)) = Some (sum_json (Suc 0) 2)"
    by (rule Load_sum_str) (simp_all add: hash_memory_def LONG_MAX_def)
  then show ?thesis
    using persist_get_host_overflow [of quiet_sgx lying_host "''k''" "()" "sum_str mem_ok 1 2" "()" 0 2 "[1, 2, 3]" "()"]
    by (simp add: quiet_sgx_def lying_host_def quiet_ocalls_def inner_ocall_persist_get_def sum_key_def piece_key_def
        to_string.simps digit_char_def)
qed

end
