(* ===== verification/Restart.thy ===== *)
theory Restart
  imports Metadata DataBase
begin

text \<open>
  A restart of the enclave: the metadata that \<open>id_store_metadata\<close> hands to the host's database,
  sealed and in as many pieces as it needs, is what \<open>id_restore_metadata\<close> of the next run turns
  into a workload.  This composes the workload, the JSON codec, the sealed persistence, the
  database of the host and the identity component.
\<close>

section \<open>Lemmas: on a database that keeps what it is given\<close>

context key_value_store
begin

lemma family_apart:
  assumes "key \<noteq> []" and "key' \<noteq> []" and "hd key \<noteq> hd key'" and "k \<in> family key"
  shows "k \<notin> family key'"
proof -
  have "k \<in> family x \<Longrightarrow> x \<noteq> [] \<Longrightarrow> hd k = hd x" for x
    by (cases x) (auto simp: family_def sum_key_def piece_key_def)
  then show ?thesis using assms by metis
qed

text \<open>The three keys of the metadata do not share records.\<close>

lemma metadata_keys:
  "k \<in> family ID_METADATA \<Longrightarrow> k \<notin> family DB_WL_SPEC_INFO" "k \<in> family DB_WL_SPEC_INFO \<Longrightarrow> k \<notin> family ID_METADATA"
  "k \<in> family DB_SRD_INFO \<Longrightarrow> k \<notin> family DB_WL_SPEC_INFO" "k \<in> family DB_SRD_INFO \<Longrightarrow> k \<notin> family ID_METADATA"
  by (erule family_apart [rotated 3]; simp)+

text \<open>What a successful store leaves in the database.\<close>

lemma store_metadata_held:
  assumes "sealing_ok S" and mem: "\<And>n t. alloc S n t" and "\<And>src d. view (snd (sgx_seal_data_ex S src d)) = view d"
    and "get_upgrade_status (wl s) \<noteq> ENC_UPGRADE_STATUS_SUCCESS"
    and "metadata_len (wl s) < 2 ^ 32" and "\<And>n. n \<le> metadata_len (wl s) \<Longrightarrow> sgx_calc_sealed_data_size S n < 2 ^ 32"
    and "\<And>key. key \<in> {ID_METADATA, DB_WL_SPEC_INFO, DB_SRD_INFO} \<Longrightarrow> readable (alloc S) key (hst s)"
    and "id_store_metadata S H s = Some (CRUST_SUCCESS, s1)"
  obtains sd where "held (alloc S) ID_METADATA sd (hst s1)" and "length sd < 2 ^ 32"
    and "sgx_unseal_data S sd = Some (bytes_of_string (metadata_text (alloc S) (wl s)))"
    and "held (alloc S) DB_WL_SPEC_INFO (bytes_of_string (strip_dump (json_dump (alloc S) (wl_spec_info (wl s))))) (hst s1)"
    and "readable (alloc S) DB_SRD_INFO (hst s1)"
proof -
  have m: "enc_malloc (alloc S) n" for n by (rule enc_malloc_always) (rule mem)
  let ?spec = "bytes_of_string (strip_dump (json_dump (alloc S) (wl_spec_info (wl s))))"
  let ?val = "bytes_of_string (metadata_text (alloc S) (wl s))"
  obtain h0 where h0: "persist_set_unsafe (alloc S) H DB_WL_SPEC_INFO ?spec (hst s) = Some (CRUST_SUCCESS, h0)"
    "held (alloc S) DB_WL_SPEC_INFO ?spec h0"
    using set_unsafe_holds [OF assms(7) m] unfolding held_def by blast
  have fits: "length (metadata_text (alloc S) (wl s)) \<le> metadata_len (wl s)"
    and h1: "persist_set S H ID_METADATA ?val h0 = Some (CRUST_SUCCESS, hst s1)"
    using assms(4,8) m h0(1) by (auto simp: id_store_metadata_def try_host_def get_wl_spec_def Let_def split: if_splits)
  have "readable (alloc S) ID_METADATA h0"
    using assms(7) held_cong(2) [of ID_METADATA h0 "hst s"] set_unsafe_frame [OF h0(1)] metadata_keys(1) by blast
  moreover have "length ?val < 2 ^ 32" "sgx_calc_sealed_data_size S (length ?val) < 2 ^ 32"
    using fits assms(5,6) by simp_all
  ultimately obtain sd where sd: "held (alloc S) ID_METADATA sd (hst s1)" "sgx_unseal_data S sd = Some ?val" "length sd < 2 ^ 32"
    using set_sealed_held [OF assms(1) m assms(3) _ _ _ h1] by blast
  moreover have "held (alloc S) DB_WL_SPEC_INFO ?spec (hst s1)"
    using h0(2) held_cong(1) [of DB_WL_SPEC_INFO "hst s1" h0] set_frame [OF h1 _ assms(3)] metadata_keys(2) by blast
  moreover have "readable (alloc S) DB_SRD_INFO (hst s1)"
  proof -
    have "readable (alloc S) DB_SRD_INFO (hst s)" using assms(7) by blast
    then have "readable (alloc S) DB_SRD_INFO h0"
      using held_cong(2) [of DB_SRD_INFO h0 "hst s"] set_unsafe_frame [OF h0(1)] metadata_keys(3) by blast
    then show ?thesis
      using held_cong(2) [of DB_SRD_INFO "hst s1" h0] set_frame [OF h1 _ assms(3)] metadata_keys(4) by blast
  qed
  ultimately show ?thesis using that by blast
qed

text \<open>What a restore makes of it.\<close>

lemma restore_metadata_held:
  fixes s2 :: "'h enclave"
  assumes mem: "\<And>n t. alloc S n t" and "metadata_ok w" and "simple spec" and "JSONType spec = Class_Object"
    and "held (alloc S) ID_METADATA sd (hst s2)" and "length sd < 2 ^ 32"
    and "sgx_unseal_data S sd = Some (bytes_of_string (metadata_text (alloc S) w))"
    and "held (alloc S) DB_WL_SPEC_INFO (bytes_of_string (strip_dump (json_dump (alloc S) spec))) (hst s2)"
    and "length (strip_dump (json_dump (alloc S) spec)) < 2 ^ 32" and "readable (alloc S) DB_SRD_INFO (hst s2)"
  shows "\<exists>s3. id_restore_metadata S H s2 = Some (CRUST_SUCCESS, s3) \<and> restored w (wl s3) \<and> wl_spec_info (wl s3) = spec"
proof -
  have m: "enc_malloc (alloc S) n" for n by (rule enc_malloc_always) (rule mem)
  have hm: "hash_memory (alloc S)" by (rule hash_memory_always) (rule mem)
  let ?spec = "strip_dump (json_dump (alloc S) spec)"
  obtain h1 where h1: "persist_get S H ID_METADATA (hst s2) = Some ((CRUST_SUCCESS, Some (bytes_of_string (metadata_text (alloc S) w))), h1)"
    using get_held [OF assms(5) [unfolded held_def] mem assms(6,7)] by blast
  have v1: "view h1 = view (hst s2)" by (rule persist_get_view(1) [OF h1])
  have "held (alloc S) DB_WL_SPEC_INFO (bytes_of_string ?spec) h1" using assms(8) held_cong(1) v1 by metis
  then obtain h2 where h2: "persist_get_unsafe (alloc S) H DB_WL_SPEC_INFO h1 = Some ((CRUST_SUCCESS, Some (bytes_of_string ?spec)), h2)"
    using get_unsafe_held [of "bytes_of_string ?spec" "alloc S" DB_WL_SPEC_INFO h1] mem assms(9) unfolding held_def by auto
  have v2: "view h2 = view (hst s2)" using persist_get_view(2) [OF h2] v1 by simp
  have "json_Load (alloc S) False ?spec = Inr spec"
    using json_Load_text [OF hm assms(3)] strip_dump_compact [OF hm assms(3)] assms(4) by simp
  then have rs: "restore_spec S H (s2 \<lparr> hst := h1 \<rparr>) = Some (s2 \<lparr> hst := h2, wl := (wl s2) \<lparr> wl_spec_info := spec \<rparr> \<rparr>)"
    using h2 by (simp add: restore_spec_def try_host_def restore_wl_spec_info_def)
  have rd: "readable (alloc S) DB_SRD_INFO h2" using assms(10) held_cong(2) v2 by metis
  have "persist_set_unsafe (alloc S) H DB_SRD_INFO val (hst (s2 \<lparr> hst := h2, wl := (wl s2) \<lparr> wl_spec_info := spec \<rparr> \<rparr>)) \<noteq> None" for val
    by (rule set_unsafe_holds [OF rd m, of val]) simp
  from restore_metadata_text [OF mem assms(2) h1 rs this] show ?thesis by auto
qed

end

section \<open>Properties\<close>


definition demo_restart :: workload where
  "demo_restart = demo_workload \<lparr> srd_path2hashs_m := [(''/srd'', [replicate 32 7])], checked_files := [demo_file ''100'' 5] \<rparr>"

lemma demo_restart_ok:
  "metadata_ok demo_restart" "simple (wl_spec_info demo_restart)" "JSONType (wl_spec_info demo_restart) = Class_Object"
  "length (json_text (wl_spec_info demo_restart)) < 2 ^ 32" "metadata_len demo_restart < 2 ^ 32"
  "length (metadata_text mem_ok demo_restart) \<le> metadata_len demo_restart"
  "get_upgrade_status demo_restart \<noteq> ENC_UPGRADE_STATUS_SUCCESS"
proof -
  have p: "plain ''/srd''" "plain ''100''" "plain []" "plain ''lost''" "plain ''valid''" "plain ''unconfirmed''" "plain ''num''" "plain ''size''"
    by (simp_all add: plain_def plain_char_def)
  have std: "list_all std_file (checked_files demo_restart)" using p by (auto simp: std_file_def demo_file_def demo_restart_def)
  then show ok: "metadata_ok demo_restart"
    using p by (auto simp: metadata_ok_def demo_restart_def srd_ok_def omap_ok_def demo_workload_def Workload_new_def LONG_MAX_def
        intro: std_file_simple)
  have spec: "wl_spec_info demo_restart = JObject (map (\<lambda>k. (k, JObject [(''num'', JIntegral 0), (''size'', JIntegral 0)]))
      [''lost'', ''unconfirmed'', ''valid''])"
    by (simp add: demo_restart_def demo_workload_def Workload_new_def g_file_status_def json_set2_def json_set_def json_get_def json_simps)
  show "simple (wl_spec_info demo_restart)" "JSONType (wl_spec_info demo_restart) = Class_Object"
    "length (json_text (wl_spec_info demo_restart)) < 2 ^ 32"
    using p by (simp_all add: spec omap_ok_def LONG_MAX_def quoted_def to_string_int_def to_string.simps)
  show "metadata_len demo_restart < 2 ^ 32" "get_upgrade_status demo_restart \<noteq> ENC_UPGRADE_STATUS_SUCCESS"
    by (simp_all add: metadata_len_def demo_restart_def demo_workload_def Workload_new_def omap_total_def file_item_len_def is_upgrade_def
        get_upgrade_status_def)
  show "length (metadata_text mem_ok demo_restart) \<le> metadata_len demo_restart"
    by (rule metadata_text_bound) (use std ok in \<open>simp_all add: metadata_ok_def hash_memory_def demo_restart_def demo_workload_def Workload_new_def\<close>)
qed


end
