(* ===== verification/Srd.thy ===== *)
theory Srd
  imports EnclaveState
begin

text \<open>
  Sealed random data, \<open>src/enclave/srd/Srd.cpp\<close>: the enclave fills directories of the host
  with sealed random files, one gigabyte per entry, keeps the hash of each in the workload, and
  removes entries on request or as a punishment.  The lemmas show how much one turn may change,
  that the number of pending and existing entries respects the upper limit, what a decrease
  removes and that it removes at least what was asked for and less than one entry per directory
  more.
\<close>

section \<open>Files of one entry\<close>

definition save_file :: "'h ocalls \<Rightarrow> string \<Rightarrow> nat \<Rightarrow> bytes \<Rightarrow> bytes \<Rightarrow> 'h \<Rightarrow> crust_status \<times> 'h" where
  "save_file H g_path index hash data h = ocall_save_file H (get_leaf_path g_path (of_nat index) hash) data h"

definition save_m_hashs_file :: "'h ocalls \<Rightarrow> string \<Rightarrow> bytes \<Rightarrow> 'h \<Rightarrow> crust_status \<times> 'h" where
  "save_m_hashs_file H g_path data h = ocall_save_file H (get_m_hashs_file_path g_path) data h"

section \<open>One turn of changes\<close>

text \<open>
  \<open>ocall_srd_change\<close> makes the host call back into the enclave, so it is a function on the
  whole state.
\<close>

definition srd_change ::
  "'h sgx \<Rightarrow> 'h ocalls \<Rightarrow> (int \<Rightarrow> 'h enclave \<Rightarrow> 'h enclave option) \<Rightarrow> 'h enclave \<Rightarrow> 'h enclave option" where
  "srd_change S H ocall_srd_change s =
     (let g = g_srd_change s;
          srd_change_num = (if g > int SRD_MAX_PER_TURN then int SRD_MAX_PER_TURN else g);
          s1 = s \<lparr> g_srd_change := (if g > int SRD_MAX_PER_TURN then g - int SRD_MAX_PER_TURN else 0) \<rparr>
      in do {
        s2 \<leftarrow> (if srd_change_num \<noteq> 0 then ocall_srd_change srd_change_num s1 else Some s1);
        let s3 = on_host (ocall_srd_info_lock H) s2;
        let srd_info_str = json_dump (alloc S) (get_srd_info (wl s3));
        (_, s4) \<leftarrow> try_host (persist_set_unsafe (alloc S) H DB_SRD_INFO (bytes_of_string srd_info_str)) s3;
        Some (on_host (ocall_srd_info_unlock H) s4)
      })"

section \<open>Increase\<close>

text \<open>
  The base buffer is allocated once.  Only as many random bytes as a pointer has are read into
  it; the rest stays zero.
\<close>

definition base_rand :: "'h sgx \<Rightarrow> 'h enclave \<Rightarrow> bytes option \<times> 'h enclave" where
  "base_rand S s = (case g_base_rand_buffer s of
     Some buf \<Rightarrow> (Some buf, s)
   | None \<Rightarrow>
       if \<not> enc_malloc (alloc S) SRD_RAND_DATA_LENGTH then (None, s)
       else (case call_host (sgx_read_rand S 8) s of
         (bs, s') \<Rightarrow>
           let buf = take 8 bs @ replicate (SRD_RAND_DATA_LENGTH - length (take 8 bs)) 0
           in (Some buf, s' \<lparr> g_base_rand_buffer := Some buf \<rparr>)))"

text \<open>The loop over the leaf files; \<open>None\<close> of the inner option when sealing fails.\<close>

fun srd_leaves :: "'h sgx \<Rightarrow> 'h ocalls \<Rightarrow> bytes \<Rightarrow> string \<Rightarrow> nat list \<Rightarrow> bytes \<Rightarrow> 'h \<Rightarrow> bytes option \<times> 'h" where
  "srd_leaves S H buf g_path [] hashs h = (Some hashs, h)"
| "srd_leaves S H buf g_path (i # is) hashs h = (case seal_data_mrenclave S buf h of
     ((st, sealed), h1) \<Rightarrow>
       if st \<noteq> CRUST_SUCCESS then (None, h1)
       else
         let part = take SRD_RAND_DATA_LENGTH sealed; hash = sgx_sha256_msg (sha256 S) part in
         srd_leaves S H buf g_path is (hashs @ take HASH_LENGTH hash) (snd (save_file H g_path i hash part h1)))"

abbreviation srd_entry :: "(string, bytes list) omap \<Rightarrow> string \<Rightarrow> bytes list" where
  "srd_entry \<equiv> omap_list"

definition srd_push :: "string \<Rightarrow> bytes \<Rightarrow> workload \<Rightarrow> workload" where
  "srd_push path hash w =
     w \<lparr> srd_path2hashs_m := omap_upd path (srd_entry (srd_path2hashs_m w) path @ [hash]) (srd_path2hashs_m w) \<rparr>"

definition srd_increase :: "'h sgx \<Rightarrow> 'h ocalls \<Rightarrow> string \<Rightarrow> 'h enclave \<Rightarrow> 'h enclave" where
  "srd_increase S H path s = (case base_rand S s of
     (None, s1) \<Rightarrow> s1
   | (Some buf, s1) \<Rightarrow> (case rand_u64 S s1 of (now_index, s2) \<Rightarrow>
       let g_path = get_g_path path now_index in
       (case call_host (ocall_create_dir H g_path) s2 of (st, s3) \<Rightarrow>
       if st \<noteq> CRUST_SUCCESS then s3
       else if \<not> enc_malloc (alloc S) (SRD_RAND_DATA_NUM * HASH_LENGTH) then s3
       else (case call_host (srd_leaves S H buf g_path [0..<SRD_RAND_DATA_NUM] []) s3 of
         (None, s4) \<Rightarrow> s4
       | (Some hashs, s4) \<Rightarrow>
           let g_hash = take HASH_LENGTH (sgx_sha256_msg (sha256 S) hashs);
               s5 = snd (call_host (save_m_hashs_file H g_path hashs) s4);
               s6 = snd (call_host (ocall_rename_dir H g_path (get_g_path_with_hash path g_hash)) s5)
           in if \<not> enc_malloc (alloc S) HASH_LENGTH then s6
              else if hexstring_safe (alloc S) g_hash = [] then s6
              else on_wl (\<lambda>w. set_srd_info path 1 (srd_push path g_hash w)) s6))))"

section \<open>Decrease\<close>

type_synonym del_map = "(string, nat list) omap"

abbreviation del_set :: "del_map \<Rightarrow> string \<Rightarrow> nat list" where
  "del_set \<equiv> omap_list"

abbreviation del_count :: "del_map \<Rightarrow> nat" where
  "del_count \<equiv> omap_total"

text \<open>
  One pass over the directories: from each one with at least \<open>sAcc\<close> entries, the entry that many
  places from the end is chosen, unless it was chosen before.
\<close>

definition choose_one :: "nat \<Rightarrow> string \<times> bytes list \<Rightarrow> nat \<times> del_map \<Rightarrow> nat \<times> del_map" where
  "choose_one sAcc e nd =
     (if sAcc \<le> length (snd e) then
        let tIdx = length (snd e) - sAcc; ds = del_set (snd nd) (fst e) in
        if tIdx \<in> set ds then nd
        else (Suc (fst nd), omap_upd (fst e) (oset_insert tIdx ds) (snd nd))
      else nd)"

definition choose_pass :: "(string, bytes list) omap \<Rightarrow> nat \<Rightarrow> nat \<times> del_map \<Rightarrow> nat \<times> del_map" where
  "choose_pass m sAcc nd = fold (choose_one sAcc) m nd"

text \<open>The loop over the passes ends when enough is chosen or no directory is long enough.\<close>

function choose_loop :: "(string, bytes list) omap \<Rightarrow> int \<Rightarrow> nat \<Rightarrow> nat \<times> del_map \<Rightarrow> nat \<times> del_map" where
  "choose_loop m change sAcc nd =
     (if int (fst nd) < change then
        if list_ex (\<lambda>e. sAcc \<le> length (snd e)) m
        then choose_loop m change (Suc sAcc) (choose_pass m sAcc nd)
        else choose_pass m sAcc nd
      else nd)"
  by pat_completeness auto
termination
proof (relation "measure (\<lambda>(m, change, sAcc, nd). Suc (srd_num m) - sAcc)")
  fix m :: "(string, bytes list) omap" and change sAcc and nd :: "nat \<times> del_map"
  assume "list_ex (\<lambda>e. sAcc \<le> length (snd e)) m"
  then obtain e where "e \<in> set m" "sAcc \<le> length (snd e)" by (auto simp: list_ex_iff)
  moreover have "length (snd e) \<le> srd_num m" unfolding omap_total_def
    using \<open>e \<in> set m\<close> by (intro member_le_sum_list) auto
  ultimately show "((m, change, Suc sAcc, choose_pass m sAcc nd), m, change, sAcc, nd)
      \<in> measure (\<lambda>(m, change, sAcc, nd). Suc (srd_num m) - sAcc)"
    by simp
qed simp

declare choose_loop.simps [simp del]

text \<open>
  Erasing the chosen entries of one directory, largest index first, and collecting their names.
  \<open>None\<close> stands for an index behind the end of the vector.
\<close>

fun erase_chosen :: "malloc \<Rightarrow> nat list \<Rightarrow> bytes list \<Rightarrow> string list \<Rightarrow> (bytes list \<times> string list) option" where
  "erase_chosen mm [] hs names = Some (hs, names)"
| "erase_chosen mm (i # is) hs names =
     (if i < length hs
      then erase_chosen mm is (erase_at i hs) (names @ [hexstring_safe mm (take HASH_LENGTH (hs ! i))])
      else None)"

fun erase_paths :: "malloc \<Rightarrow> del_map \<Rightarrow> (string, bytes list) omap \<Rightarrow> (string \<times> string list) list \<Rightarrow>
    ((string, bytes list) omap \<times> (string \<times> string list) list) option" where
  "erase_paths mm [] m acc = Some (m, acc)"
| "erase_paths mm ((path, is) # es) m acc =
     (if is = [] then erase_paths mm es m acc
      else case erase_chosen mm (rev is) (srd_entry m path) [] of
        None \<Rightarrow> None
      | Some (hs, names) \<Rightarrow> erase_paths mm es (omap_upd path hs m) (acc @ [(path, names)]))"

text \<open>Deleting the files, and the space the directories lose.\<close>

fun delete_names :: "'h ocalls \<Rightarrow> string \<Rightarrow> string list \<Rightarrow> nat \<Rightarrow> 'h \<Rightarrow> nat \<times> 'h" where
  "delete_names H dir [] num h = (num, h)"
| "delete_names H dir (n # ns) num h = (case ocall_delete_folder_or_file H (dir @ ''/'' @ n) h of
     (st, h1) \<Rightarrow> delete_names H dir ns (if st = CRUST_SUCCESS then Suc num else num) h1)"

fun delete_paths :: "'h ocalls \<Rightarrow> (string \<times> string list) list \<Rightarrow> nat \<Rightarrow> 'h enclave \<Rightarrow> nat \<times> 'h enclave" where
  "delete_paths H [] num s = (num, s)"
| "delete_paths H ((dir, names) # es) num s = (case call_host (delete_names H dir names num) s of
     (num', s1) \<Rightarrow> delete_paths H es num' (on_wl (set_srd_info dir (- int (length names))) s1))"

definition srd_decrease ::
  "'h sgx \<Rightarrow> 'h ocalls \<Rightarrow> int \<Rightarrow> del_map \<Rightarrow> 'h enclave \<Rightarrow> (nat \<times> 'h enclave) option" where
  "srd_decrease S H change del s =
     (let m = srd_path2hashs_m (wl s); change' = min change (int (srd_num m)) in
      if change' = 0 then Some (0, s)
      else
        let del' = snd (choose_loop m change' 1 (del_count del, del)) in
        (case erase_paths (alloc S) del' m [] of
           None \<Rightarrow> None
         | Some (m', names) \<Rightarrow>
             Some (delete_paths H names 0 (on_wl (\<lambda>w. w \<lparr> srd_path2hashs_m := m' \<rparr>) s))))"

section \<open>Reserved space\<close>

text \<open>Taking the last entry of a directory away; its space is given back when the file is gone.\<close>

definition pop_srd :: "'h sgx \<Rightarrow> 'h ocalls \<Rightarrow> string \<Rightarrow> 'h enclave \<Rightarrow> 'h enclave" where
  "pop_srd S H path s =
     (let hs = srd_entry (srd_path2hashs_m (wl s)) path;
          hex_g_hash = hexstring_safe (alloc S) (take HASH_LENGTH (last hs));
          s1 = on_wl (\<lambda>w. w \<lparr> srd_path2hashs_m := omap_upd path (butlast hs) (srd_path2hashs_m w) \<rparr>) s
      in case call_host (ocall_delete_folder_or_file H (path @ ''/'' @ hex_g_hash)) s1 of
           (st, s2) \<Rightarrow> if st \<noteq> CRUST_SUCCESS then s2 else on_wl (set_srd_info path (-1)) s2)"

definition update_path ::
  "'h sgx \<Rightarrow> 'h ocalls \<Rightarrow> ('h enclave \<Rightarrow> 'h enclave) \<Rightarrow> string \<times> json \<Rightarrow> 'h enclave \<Rightarrow> 'h enclave" where
  "update_path S H yld e s =
     (let s1 = sched_yield H yld SCHED_SRD_CHECK_RESERVED s;
          hs = srd_entry (srd_path2hashs_m (wl s1)) (fst e);
          s2 = on_wl (\<lambda>w. w \<lparr> srd_path2hashs_m := omap_upd (fst e) hs (srd_path2hashs_m w) \<rparr>) s1;
          real_deleted_num = min (size_of_int (ToInt (snd e))) (length hs)
      in (pop_srd S H (fst e) ^^ real_deleted_num) s2)"

definition srd_update_metadata ::
  "'h sgx \<Rightarrow> 'h ocalls \<Rightarrow> ('h enclave \<Rightarrow> 'h enclave) \<Rightarrow> string \<Rightarrow> 'h enclave \<Rightarrow> 'h enclave option" where
  "srd_update_metadata S H yld hashs s = do {
     let s1 = on_host (ocall_srd_info_lock H) s;
     del_hashs_json \<leftarrow> Load (alloc S) False hashs;
     let s2 = fold (update_path S H yld) (object_range del_hashs_json) s1;
     let srd_info_str = json_dump (alloc S) (get_srd_info (wl s2));
     (_, s3) \<leftarrow> try_host (persist_set_unsafe (alloc S) H DB_SRD_INFO (bytes_of_string srd_info_str)) s2;
     Some (on_host (ocall_srd_info_unlock H) s3)
   }"

section \<open>Pending changes\<close>

definition get_srd_change :: "'h enclave \<Rightarrow> int" where
  "get_srd_change s = g_srd_change s"

definition set_srd_change :: "int \<Rightarrow> 'h enclave \<Rightarrow> 'h enclave" where
  "set_srd_change change s =
     (let num = int (srd_num (srd_path2hashs_m (wl s)));
          change' =
            (if change > 0 then
               if num \<ge> int SRD_NUMBER_UPPER_LIMIT then 0
               else if num + change > int SRD_NUMBER_UPPER_LIMIT then int SRD_NUMBER_UPPER_LIMIT - num
               else change
             else change)
      in s \<lparr> g_srd_change := change' \<rparr>)"

section \<open>Lemmas: choosing what to delete\<close>

text \<open>
  What holds of a choice: sorted keys, sorted indices that exist in the map, and a counter that
  counts them.
\<close>

definition choice_ok :: "(string, bytes list) omap \<Rightarrow> nat \<times> del_map \<Rightarrow> bool" where
  "choice_ok m nd \<longleftrightarrow> omap_ok (snd nd) \<and> fst nd = del_count (snd nd) \<and>
     (\<forall>p. oset_ok (del_set (snd nd) p) \<and> (\<forall>i \<in> set (del_set (snd nd) p). i < length (srd_entry m p)))"

lemma choose_one_ok:
  assumes "omap_ok m" and "e \<in> set m" and "0 < sAcc" and "choice_ok m nd"
  defines "nd' \<equiv> choose_one sAcc e nd"
  shows "choice_ok m nd' \<and> fst nd \<le> fst nd' \<and> fst nd' \<le> Suc (fst nd) \<and>
    (\<forall>p. set (del_set (snd nd) p) \<subseteq> set (del_set (snd nd') p)) \<and>
    (sAcc \<le> length (snd e) \<longrightarrow> length (snd e) - sAcc \<in> set (del_set (snd nd') (fst e)))"
proof -
  have "srd_entry m (fst e) = snd e" using assms(1,2) by (rule omap_list_in)
  then show ?thesis
    using assms(3,4) omap_total_upd [of "snd nd" "fst e" "oset_insert (length (snd e) - sAcc) (del_set (snd nd) (fst e))"]
    unfolding nd'_def by (auto simp: choose_one_def Let_def choice_ok_def omap_simps length_oset_insert) metis
qed

lemma choose_fold_ok:
  assumes "omap_ok m" and "set es \<subseteq> set m" and "0 < sAcc" and "choice_ok m nd"
  defines "nd' \<equiv> fold (choose_one sAcc) es nd"
  shows "choice_ok m nd' \<and> fst nd \<le> fst nd' \<and> fst nd' \<le> fst nd + length es \<and>
    (\<forall>p. set (del_set (snd nd) p) \<subseteq> set (del_set (snd nd') p)) \<and>
    (\<forall>e \<in> set es. sAcc \<le> length (snd e) \<longrightarrow> length (snd e) - sAcc \<in> set (del_set (snd nd') (fst e)))"
  using assms(2,4) unfolding nd'_def
proof (induction es arbitrary: nd)
  case (Cons e es)
  have one: "choice_ok m (choose_one sAcc e nd)" "fst nd \<le> fst (choose_one sAcc e nd)"
    "fst (choose_one sAcc e nd) \<le> Suc (fst nd)"
    "\<And>p. set (del_set (snd nd) p) \<subseteq> set (del_set (snd (choose_one sAcc e nd)) p)"
    "sAcc \<le> length (snd e) \<Longrightarrow> length (snd e) - sAcc \<in> set (del_set (snd (choose_one sAcc e nd)) (fst e))"
    using choose_one_ok [OF assms(1) _ assms(3) Cons.prems(2), of e] Cons.prems(1) by auto
  have "set es \<subseteq> set m" using Cons.prems(1) by simp
  note IH = Cons.IH [OF this one(1)]
  show ?case using IH one(2-5) by (auto intro: order_trans) (meson subset_iff)+
qed simp

text \<open>When every entry is chosen, the counter is at least the number of entries.\<close>

lemma all_chosen_count:
  assumes "omap_ok m" and "choice_ok m nd"
    and "\<And>e. e \<in> set m \<Longrightarrow> {0..<length (snd e)} \<subseteq> set (del_set (snd nd) (fst e))"
  shows "srd_num m \<le> fst nd"
proof -
  have "length (snd e) \<le> length (del_set (snd nd) (fst e))" if "e \<in> set m" for e
  proof -
    have "card {0..<length (snd e)} \<le> card (set (del_set (snd nd) (fst e)))"
      using assms(3) [OF that] by (intro card_mono) auto
    then show ?thesis using card_length [of "del_set (snd nd) (fst e)"] by simp
  qed
  then show ?thesis using omap_total_mono [OF assms(1), of "snd nd"] assms(2) by (simp add: choice_ok_def)
qed

lemma choose_loop_ok:
  assumes "omap_ok m" and "0 < sAcc" and "choice_ok m nd"
    and "\<forall>e \<in> set m. \<forall>a. 0 < a \<and> a < sAcc \<and> a \<le> length (snd e) \<longrightarrow>
      length (snd e) - a \<in> set (del_set (snd nd) (fst e))"
    and "change \<le> int (srd_num m)"
  defines "nd' \<equiv> choose_loop m change sAcc nd"
  shows "choice_ok m nd' \<and> change \<le> int (fst nd') \<and>
    (fst nd' = fst nd \<or> int (fst nd') < change + int (length m)) \<and>
    (\<forall>p. set (del_set (snd nd) p) \<subseteq> set (del_set (snd nd') p))"
  using assms(1-5) unfolding nd'_def
proof (induction m change sAcc nd rule: choose_loop.induct)
  case (1 m change sAcc nd)
  let ?nd = "choose_pass m sAcc nd"
  have pass: "choice_ok m ?nd" "fst nd \<le> fst ?nd" "fst ?nd \<le> fst nd + length m"
    "\<And>p. set (del_set (snd nd) p) \<subseteq> set (del_set (snd ?nd) p)"
    "\<And>e. e \<in> set m \<Longrightarrow> sAcc \<le> length (snd e) \<Longrightarrow> length (snd e) - sAcc \<in> set (del_set (snd ?nd) (fst e))"
    using choose_fold_ok [OF "1.prems"(1) order_refl "1.prems"(2,3)] by (auto simp: choose_pass_def)
  show ?case
  proof (cases "int (fst nd) < change")
    case False
    then have "choose_loop m change sAcc nd = nd" by (subst choose_loop.simps) simp
    then show ?thesis using "1.prems"(3) False by simp
  next
    case less: True
    show ?thesis
    proof (cases "list_ex (\<lambda>e. sAcc \<le> length (snd e)) m")
      case True
      have "\<forall>e \<in> set m. \<forall>a. 0 < a \<and> a < Suc sAcc \<and> a \<le> length (snd e) \<longrightarrow>
          length (snd e) - a \<in> set (del_set (snd ?nd) (fst e))"
      proof (intro ballI allI impI)
        fix e a assume "e \<in> set m" and "0 < a \<and> a < Suc sAcc \<and> a \<le> length (snd e)"
        then show "length (snd e) - a \<in> set (del_set (snd ?nd) (fst e))"
          using "1.prems"(4) pass(4) [of "fst e"] pass(5) [of e] by (cases "a = sAcc") auto
      qed
      note IH = "1.IH" [OF less True "1.prems"(1) _ pass(1) this "1.prems"(5)]
      moreover have "choose_loop m change sAcc nd = choose_loop m change (Suc sAcc) ?nd"
        using less True by (subst choose_loop.simps) simp
      ultimately show ?thesis using pass(2-4) less by auto
    next
      case False
      have "srd_num m \<le> fst ?nd"
      proof (rule all_chosen_count [OF "1.prems"(1) pass(1)])
        fix e assume e: "e \<in> set m"
        then have short: "length (snd e) < sAcc" using False by (auto simp: list_ex_iff not_le)
        have "i \<in> set (del_set (snd nd) (fst e))" if "i < length (snd e)" for i
          using "1.prems"(4) [rule_format, OF e, of "length (snd e) - i"] that short by simp
        then show "{0..<length (snd e)} \<subseteq> set (del_set (snd ?nd) (fst e))" using pass(4) by fastforce
      qed
      moreover have "choose_loop m change sAcc nd = ?nd"
        using less False by (subst choose_loop.simps) simp
      ultimately show ?thesis using pass(1,3,4) less "1.prems"(5) by auto
    qed
  qed
qed

section \<open>Lemmas: erasing\<close>

lemma erase_chosen_ok:
  assumes "sorted_wrt (>) is" and "\<forall>i \<in> set is. i < length hs"
  shows "\<exists>ns. erase_chosen mm is hs names = Some (nths hs (- set is), names @ ns) \<and> length ns = length is"
  using assms
proof (induction "is" arbitrary: hs names)
  case Nil
  then show ?case by (simp add: nths_all)
next
  case (Cons i "is")
  let ?n = "hexstring_safe mm (take HASH_LENGTH (hs ! i))"
  have "\<forall>j \<in> set is. j < length (erase_at i hs)" using Cons.prems by auto
  then obtain ns where "erase_chosen mm is (erase_at i hs) (names @ [?n]) =
      Some (nths (erase_at i hs) (- set is), (names @ [?n]) @ ns)" "length ns = length is"
    using Cons.IH [of "erase_at i hs" "names @ [?n]"] Cons.prems by auto
  moreover have "nths (erase_at i hs) (- set is) = nths hs (- set (i # is))"
    using Cons.prems nths_erase_at [of i hs "set is"] by simp
  ultimately show ?case using Cons.prems by auto
qed

lemma length_nths_compl:
  assumes "distinct is" and "\<forall>i \<in> set is. i < length hs"
  shows "length (nths hs (- set is)) = length hs - length is"
proof -
  have "{i. i < length hs \<and> i \<in> - set is} = {0..<length hs} - set is" by auto
  moreover have "set is \<subseteq> {0..<length hs}" using assms(2) by auto
  ultimately show ?thesis
    using assms(1) by (simp add: length_nths card_Diff_subset distinct_card)
qed

text \<open>
  The map after erasing: every directory keeps the entries that were not chosen, and each
  directory with a choice yields as many names as indices.
\<close>

definition chosen_sizes :: "(string \<times> 'a list) list \<Rightarrow> (string \<times> nat) list" where
  "chosen_sizes es = map (\<lambda>e. (fst e, length (snd e))) (filter (\<lambda>e. snd e \<noteq> []) es)"

definition erased :: "del_map \<Rightarrow> (string, bytes list) omap \<Rightarrow> (string, bytes list) omap \<Rightarrow> bool" where
  "erased del m m' \<longleftrightarrow> omap_ok m' \<and> omap_total m' + del_count del = omap_total m \<and>
     (\<forall>p. srd_entry m' p = nths (srd_entry m p) (- set (del_set del p)))"

lemma erase_paths_ok:
  assumes "omap_ok del" and "omap_ok m"
    and "\<And>e. e \<in> set del \<Longrightarrow> oset_ok (snd e) \<and> (\<forall>i \<in> set (snd e). i < length (srd_entry m (fst e)))"
  shows "\<exists>m' ns. erase_paths mm del m acc = Some (m', acc @ ns) \<and> erased del m m' \<and>
    chosen_sizes ns = chosen_sizes del \<and> (\<forall>n \<in> set ns. snd n \<noteq> [])"
  using assms
proof (induction del arbitrary: m acc)
  case Nil
  then show ?case by (simp add: erased_def chosen_sizes_def nths_all omap_list_def omap_total_def)
next
  case (Cons e del)
  obtain path "is" where e: "e = (path, is)" by (cases e)
  have new: "path \<notin> fst ` set del"
    using omap_ok_distinct [OF Cons.prems(1)] e by simp
  have del: "del_set ((path, is) # del) p = (if p = path then is else del_set del p)" for p
    by (simp add: omap_list_def)
  have okd: "omap_ok del" using Cons.prems(1) by (rule omap_ok_tl)
  show ?case
  proof (cases "is = []")
    case True
    have "\<exists>m' ns. erase_paths mm del m acc = Some (m', acc @ ns) \<and> erased del m m' \<and>
        chosen_sizes ns = chosen_sizes del \<and> (\<forall>n \<in> set ns. snd n \<noteq> [])"
      using Cons.prems(2,3) by (intro Cons.IH [OF okd]) auto
    moreover have "del_set ((path, []) # del) = del_set del"
      using del omap_list_outside [OF new] True by (auto simp: fun_eq_iff)
    ultimately show ?thesis using True e by (simp add: erased_def omap_total_def chosen_sizes_def)
  next
    case False
    have ok: "oset_ok is" "\<forall>i \<in> set is. i < length (srd_entry m path)"
      using Cons.prems(3) [of e] e by auto
    then have "sorted_wrt (>) (rev is)" "\<forall>i \<in> set (rev is). i < length (srd_entry m path)"
      by (auto simp: oset_ok_def sorted_wrt_rev)
    then obtain ns where ns: "erase_chosen mm (rev is) (srd_entry m path) [] =
        Some (nths (srd_entry m path) (- set is), ns)" "length ns = length is"
      using erase_chosen_ok [of "rev is" "srd_entry m path" mm "[]"] by auto
    let ?m = "omap_upd path (nths (srd_entry m path) (- set is)) m"
    have entry: "srd_entry ?m p = (if p = path then nths (srd_entry m path) (- set is) else srd_entry m p)" for p
      using Cons.prems(2) by (simp add: omap_simps)
    have "set is \<subseteq> {0..<length (srd_entry m path)}" using ok(2) by auto
    from card_mono [OF _ this] have "length is \<le> length (srd_entry m path)"
      using ok(1) by (simp add: distinct_card oset_ok_distinct)
    then have total: "omap_total ?m + length is = omap_total m"
      using omap_total_upd [OF Cons.prems(2), of path "nths (srd_entry m path) (- set is)"] ok
      by (simp add: length_nths_compl oset_ok_distinct)
    have "\<exists>m' ns'. erase_paths mm del ?m (acc @ [(path, ns)]) = Some (m', (acc @ [(path, ns)]) @ ns') \<and>
        erased del ?m m' \<and> chosen_sizes ns' = chosen_sizes del \<and> (\<forall>n \<in> set ns'. snd n \<noteq> [])"
    proof (rule Cons.IH [OF okd])
      show "omap_ok ?m" using Cons.prems(2) by (rule omap_ok_upd)
      fix x assume "x \<in> set del"
      then show "oset_ok (snd x) \<and> (\<forall>i \<in> set (snd x). i < length (srd_entry ?m (fst x)))"
        using Cons.prems(3) [of x] new by (auto simp: entry)
    qed
    then obtain m' ns' where "erase_paths mm del ?m (acc @ [(path, ns)]) = Some (m', acc @ (path, ns) # ns')"
      "erased del ?m m'" "chosen_sizes ns' = chosen_sizes del" "\<forall>n \<in> set ns'. snd n \<noteq> []" by auto
    moreover from this(2) have "erased ((path, is) # del) m m'"
      using total omap_list_outside [OF new] by (auto simp: erased_def entry del omap_total_def nths_all)
    ultimately show ?thesis
      using False e ns by (intro exI [of _ m'] exI [of _ "(path, ns) # ns'"]) (auto simp: chosen_sizes_def)
  qed
qed

section \<open>Lemmas: decrease\<close>

lemma set_srd_info_path2hashs [frame_simps]: "srd_path2hashs_m (set_srd_info p c w) = srd_path2hashs_m w"
  by (simp add: set_srd_info_def Let_def)

lemma delete_paths_frame [frame_simps]:
  "srd_path2hashs_m (wl (snd (delete_paths H es num s))) = srd_path2hashs_m (wl s) \<and>
   g_srd_change (snd (delete_paths H es num s)) = g_srd_change s"
proof (induction H es num s rule: delete_paths.induct)
  case (2 H dir names es num s)
  show ?case using 2 [OF prod.collapse] by (simp add: case_prod_beta frame_simps)
qed simp

lemma delete_names_le: "fst (delete_names H dir ns num h) \<le> num + length ns"
proof (induction H dir ns num h rule: delete_names.induct)
  case (2 H dir n ns num h)
  show ?case using 2 [OF prod.collapse] by (auto simp: case_prod_beta split: if_splits)
qed simp

lemma delete_paths_le: "fst (delete_paths H es num s) \<le> num + sum_list (map (\<lambda>e. length (snd e)) es)"
proof (induction H es num s rule: delete_paths.induct)
  case (2 H dir names es num s)
  have "fst (call_host (delete_names H dir names num) s) \<le> num + length names"
    using delete_names_le [of H dir names num "hst s"] by (simp add: call_host_def case_prod_beta)
  then show ?case using 2 [OF prod.collapse] by (auto simp: case_prod_beta)
qed simp

text \<open>The directories lose as much assigned space as they lose entries.\<close>

lemma spec_get_srd_info:
  "json2_ok (srd_info_json w) \<Longrightarrow> json2_ok (srd_info_json (set_srd_info path c w)) \<and>
     spec_get (srd_info_json (set_srd_info path c w)) p ''assigned'' =
       (if p = path then max 0 (spec_get (srd_info_json w) path ''assigned'' + c)
        else spec_get (srd_info_json w) p ''assigned'')"
  by (auto simp: set_srd_info_def Let_def json_simps)

lemma delete_paths_info:
  assumes "distinct (map fst es)" and "json2_ok (srd_info_json (wl s))"
    and "\<And>e. e \<in> set es \<Longrightarrow> int (length (snd e)) \<le> spec_get (srd_info_json (wl s)) (fst e) ''assigned''"
  shows "json2_ok (srd_info_json (wl (snd (delete_paths H es num s)))) \<and>
    spec_get (srd_info_json (wl (snd (delete_paths H es num s)))) p ''assigned'' =
    spec_get (srd_info_json (wl s)) p ''assigned'' -
      (case map_of es p of Some ns \<Rightarrow> int (length ns) | None \<Rightarrow> 0)"
  using assms
proof (induction H es num s rule: delete_paths.induct)
  case (2 H dir names es num s)
  let ?r = "call_host (delete_names H dir names num) s"
  let ?s = "on_wl (set_srd_info dir (- int (length names))) (snd ?r)"
  have info: "json2_ok (srd_info_json (wl ?s))"
    "spec_get (srd_info_json (wl ?s)) q ''assigned'' = spec_get (srd_info_json (wl s)) q ''assigned'' -
       (if q = dir then int (length names) else 0)" for q
    using spec_get_srd_info [OF "2.prems"(2)] "2.prems"(3) [of "(dir, names)"] by (auto simp: frame_simps)
  have "dir \<notin> fst ` set es" using "2.prems"(1) by simp
  then have "map_of es dir = None" by (simp add: map_of_eq_None_iff)
  moreover have "int (length (snd e)) \<le> spec_get (srd_info_json (wl ?s)) (fst e) ''assigned''" if "e \<in> set es" for e
    using "2.prems"(3) [of e] that \<open>dir \<notin> fst ` set es\<close> info(2) [of "fst e"] by auto
  ultimately show ?case
    using "2.IH" [OF prod.collapse _ info(1)] "2.prems"(1) info(2) by (auto simp: case_prod_beta)
qed simp

text \<open>The assigned space of every directory is the number of its entries.\<close>

definition assigned_ok :: "workload \<Rightarrow> bool" where
  "assigned_ok w \<longleftrightarrow> json2_ok (srd_info_json w) \<and>
     (\<forall>p. spec_get (srd_info_json w) p ''assigned'' = int (length (srd_entry (srd_path2hashs_m w) p)))"

lemma keys_chosen_sizes: "map fst (chosen_sizes es) = map fst (filter (\<lambda>e. snd e \<noteq> []) es)"
  by (simp add: chosen_sizes_def)

lemma sum_chosen_sizes: "sum_list (map snd (chosen_sizes es)) = omap_total es"
  by (induction es) (auto simp: chosen_sizes_def omap_total_def)

lemma chosen_sizes_keys:
  assumes "\<forall>e \<in> set ns. snd e \<noteq> []" and "chosen_sizes ns = chosen_sizes del" and "distinct (map fst del)"
  shows "distinct (map fst ns)"
proof -
  have "filter (\<lambda>e. snd e \<noteq> []) ns = ns" using assms(1) by (simp add: filter_id_conv)
  then have "map fst ns = map fst (chosen_sizes del)" using keys_chosen_sizes [of ns] assms(2) by simp
  then show ?thesis using distinct_map_filter [OF assms(3)] by (simp add: keys_chosen_sizes)
qed

lemma map_of_chosen:
  "distinct (map fst es) \<Longrightarrow> (case map_of (chosen_sizes es) p of Some n \<Rightarrow> n | None \<Rightarrow> 0) =
     (case map_of es p of Some l \<Rightarrow> length l | None \<Rightarrow> 0)"
  by (induction es) (auto simp: chosen_sizes_def map_of_eq_None_iff image_iff dest!: map_of_SomeD split: option.splits)

lemma chosen_length:
  assumes "distinct (map fst ns)" and "omap_ok del" and "chosen_sizes ns = chosen_sizes del"
  shows "(case map_of ns p of Some l \<Rightarrow> int (length l) | None \<Rightarrow> 0) = int (length (del_set del p))"
  using map_of_chosen [OF assms(1), of p] map_of_chosen [OF omap_ok_distinct [OF assms(2)], of p] assms(3)
  by (auto simp: omap_list_def split: option.splits)

lemma del_set_le:
  "choice_ok m nd \<Longrightarrow> length (del_set (snd nd) p) \<le> length (srd_entry m p)"
proof -
  assume ok: "choice_ok m nd"
  then have "set (del_set (snd nd) p) \<subseteq> {0..<length (srd_entry m p)}" by (auto simp: choice_ok_def)
  from card_mono [OF _ this] show ?thesis
    using ok by (simp add: choice_ok_def distinct_card oset_ok_distinct)
qed

lemma assigned_after_delete:
  assumes "assigned_ok (wl s)" and "choice_ok (srd_path2hashs_m (wl s)) nd"
    and "erased (snd nd) (srd_path2hashs_m (wl s)) m'"
    and "distinct (map fst ns)" and "chosen_sizes ns = chosen_sizes (snd nd)"
  shows "assigned_ok (wl (snd (delete_paths H ns num (on_wl (\<lambda>w. w \<lparr> srd_path2hashs_m := m' \<rparr>) s))))"
proof -
  let ?m = "srd_path2hashs_m (wl s)" and ?s = "on_wl (\<lambda>w. w \<lparr> srd_path2hashs_m := m' \<rparr>) s"
  have info: "srd_info_json (wl ?s) = srd_info_json (wl s)" by (simp add: frame_simps)
  have okd: "omap_ok (snd nd)" using assms(2) by (simp add: choice_ok_def)
  note len = chosen_length [OF assms(4) okd assms(5)]
  have fits: "int (length (snd e)) \<le> spec_get (srd_info_json (wl ?s)) (fst e) ''assigned''" if "e \<in> set ns" for e
    using len [of "fst e"] that assms(1,4) del_set_le [OF assms(2), of "fst e"]
    by (cases e) (simp add: info assigned_ok_def)
  have "json2_ok (srd_info_json (wl ?s))" using assms(1) by (simp add: info assigned_ok_def)
  from delete_paths_info [OF assms(4) this fits]
  show ?thesis
    using assms(1-3) del_set_le [OF assms(2)]
    by (simp add: assigned_ok_def info len frame_simps erased_def length_nths_compl choice_ok_def
        oset_ok_distinct of_nat_diff)
qed

lemma srd_decrease_ok:
  assumes "omap_ok (srd_path2hashs_m (wl s))" and "choice_ok (srd_path2hashs_m (wl s)) (del_count del, del)"
    and "min change (int (srd_num (srd_path2hashs_m (wl s)))) = change'" and "change' \<noteq> 0"
  obtains num s' del' where "srd_decrease S H change del s = Some (num, s')"
    and "erased del' (srd_path2hashs_m (wl s)) (srd_path2hashs_m (wl s'))"
    and "change' \<le> int (del_count del')"
    and "del_count del' = del_count del \<or> int (del_count del') < change' + int (length (srd_path2hashs_m (wl s)))"
    and "num \<le> del_count del'" and "assigned_ok (wl s) \<Longrightarrow> assigned_ok (wl s')"
    and "\<And>p. set (del_set del p) \<subseteq> set (del_set del' p)"
proof -
  let ?m = "srd_path2hashs_m (wl s)" and ?nd = "choose_loop (srd_path2hashs_m (wl s)) change' 1 (del_count del, del)"
  have nd: "choice_ok ?m ?nd" "change' \<le> int (fst ?nd)"
    "fst ?nd = del_count del \<or> int (fst ?nd) < change' + int (length ?m)"
    "\<And>p. set (del_set del p) \<subseteq> set (del_set (snd ?nd) p)"
    using choose_loop_ok [OF assms(1) _ assms(2), of 1 change'] assms(3) by auto
  have okd: "omap_ok (snd ?nd)" "fst ?nd = del_count (snd ?nd)" using nd(1) by (simp_all add: choice_ok_def)
  have each: "oset_ok (snd e) \<and> (\<forall>i \<in> set (snd e). i < length (srd_entry ?m (fst e)))" if "e \<in> set (snd ?nd)" for e
    using nd(1) omap_list_in [OF okd(1) that] by (metis choice_ok_def)
  obtain m' ns where er: "erase_paths (alloc S) (snd ?nd) ?m [] = Some (m', ns)" "erased (snd ?nd) ?m m'"
    "chosen_sizes ns = chosen_sizes (snd ?nd)" "\<forall>n \<in> set ns. snd n \<noteq> []"
    using erase_paths_ok [OF okd(1) assms(1) each, of "alloc S" "[]"] by auto
  have dist: "distinct (map fst ns)" by (rule chosen_sizes_keys [OF er(4,3) omap_ok_distinct [OF okd(1)]])
  let ?r = "delete_paths H ns 0 (on_wl (\<lambda>w. w \<lparr> srd_path2hashs_m := m' \<rparr>) s)"
  have res: "srd_decrease S H change del s = Some (fst ?r, snd ?r)"
    using assms(3,4) er(1) by (simp add: srd_decrease_def Let_def)
  have map: "srd_path2hashs_m (wl (snd ?r)) = m'" by (simp add: frame_simps)
  have "sum_list (map (\<lambda>e. length (snd e)) ns) = del_count (snd ?nd)"
    using sum_chosen_sizes [of ns] sum_chosen_sizes [of "snd ?nd"] er(3) by (simp add: omap_total_def)
  then have "fst ?r \<le> del_count (snd ?nd)" using delete_paths_le [of H ns 0] by (metis add_0)
  then show ?thesis
    using that [OF res, of "snd ?nd"] er(2) nd okd(2) map assigned_after_delete [OF _ nd(1) er(2) dist er(3)] by simp
qed

lemma omap_total_Nil: "omap_total [] = 0"
  by (simp add: omap_total_def)

lemma omap_list_le_total: "length (omap_list m p) \<le> omap_total m"
proof (cases "map_of m p")
  case (Some v)
  then have "length (snd (p, v)) \<le> omap_total m" unfolding omap_total_def
    by (intro member_le_sum_list) (force dest: map_of_SomeD, simp)
  then show ?thesis using Some by (simp add: omap_list_def)
qed (simp add: omap_list_def)

section \<open>Lemmas: increase\<close>

lemma base_rand_wl [frame_simps]:
  "wl (snd (base_rand S s)) = wl s" "g_srd_change (snd (base_rand S s)) = g_srd_change s"
  by (simp_all add: base_rand_def Let_def case_prod_beta frame_simps split: option.splits)

text \<open>An increase either leaves the workload alone or adds one entry of one hash.\<close>

lemma base_rand_eq: "base_rand S s = (r, s') \<Longrightarrow> wl s' = wl s"
  using base_rand_wl [of S s] by simp

lemma srd_increase_cases:
  obtains "wl (srd_increase S H path s) = wl s"
  | b where "wl (srd_increase S H path s) =
      set_srd_info path 1 (srd_push path (take HASH_LENGTH (sha256 S b)) (wl s))"
proof -
  have "wl (srd_increase S H path s) = wl s \<or> (\<exists>b. wl (srd_increase S H path s) =
      set_srd_info path 1 (srd_push path (take HASH_LENGTH (sha256 S b)) (wl s)))"
    unfolding srd_increase_def
    by (auto simp: Let_def frame_simps sgx_sha256_msg_def dest!: frame_eqs base_rand_eq split: prod.splits option.splits)
  then show thesis using that by blast
qed

lemma srd_push_entry [frame_simps]:
  "omap_ok (srd_path2hashs_m w) \<Longrightarrow> srd_entry (srd_path2hashs_m (srd_push path h w)) p =
     srd_entry (srd_path2hashs_m w) p @ (if p = path then [h] else [])"
  "srd_info_json (srd_push path h w) = srd_info_json w"
  by (simp_all add: srd_push_def omap_simps)

lemma omap_all_upd:
  "list_all (\<lambda>e. P (snd e)) m \<Longrightarrow> P v \<Longrightarrow> list_all (\<lambda>e. P (snd e)) (omap_upd k v m)"
  by (induction m) (auto split: if_splits)

lemma omap_all_list: "list_all (\<lambda>e. list_all P (snd e)) m \<Longrightarrow> list_all P (omap_list m k)"
  by (cases "map_of m k") (auto simp: omap_list_def list_all_iff dest!: map_of_SomeD)

lemma wl_inv_push: "wl_inv w \<Longrightarrow> length h = HASH_LENGTH \<Longrightarrow> wl_inv (srd_push path h w)"
  using omap_all_list [of "\<lambda>h. length h = HASH_LENGTH" "srd_path2hashs_m w" path]
  by (auto simp: wl_inv_def srd_push_def omap_simps intro!: omap_all_upd)

lemma assigned_ok_push:
  "omap_ok (srd_path2hashs_m w) \<Longrightarrow> assigned_ok w \<Longrightarrow> assigned_ok (set_srd_info path 1 (srd_push path h w))"
  using spec_get_srd_info [of "srd_push path h w" path 1]
  by (auto simp: assigned_ok_def frame_simps)

section \<open>Properties\<close>

text \<open>
  C29. Decreasing random data by a positive amount never aborts, removes at least the smaller of
  the amount and what is there, and at most one entry per directory but one beyond that; it reports
  no more entries as deleted than it removed, and the assigned space of every directory stays the
  number of its entries.
\<close>

theorem srd_decrease_bounds:
  assumes "omap_ok (srd_path2hashs_m (wl s))" and "assigned_ok (wl s)" and "0 < change"
  defines "m \<equiv> srd_path2hashs_m (wl s)"
  shows "\<exists>num s'. srd_decrease S H (int change) [] s = Some (num, s') \<and>
    min change (srd_num m) + srd_num (srd_path2hashs_m (wl s')) \<le> srd_num m \<and>
    srd_num m \<le> min change (srd_num m) + (length m - 1) + srd_num (srd_path2hashs_m (wl s')) \<and>
    num + srd_num (srd_path2hashs_m (wl s')) \<le> srd_num m \<and> assigned_ok (wl s')"
proof (cases "srd_num m = 0")
  case True
  then show ?thesis using assms(2) by (simp add: srd_decrease_def m_def)
next
  case False
  let ?c = "int (min change (srd_num m))"
  have c: "min (int change) (int (srd_num m)) = ?c" "?c \<noteq> 0" using assms(3) False by auto
  have ok: "choice_ok m (del_count [], [])"
    by (simp add: choice_ok_def omap_simps omap_list_def omap_total_def oset_ok_def)
  obtain num s' del' where r: "srd_decrease S H (int change) [] s = Some (num, s')"
    "erased del' m (srd_path2hashs_m (wl s'))" "?c \<le> int (del_count del')"
    "del_count del' = del_count [] \<or> int (del_count del') < ?c + int (length m)"
    "num \<le> del_count del'" "assigned_ok (wl s) \<Longrightarrow> assigned_ok (wl s')"
    using srd_decrease_ok [OF assms(1) ok [unfolded m_def], of "int change" ?c S H] c unfolding m_def by metis
  have total: "srd_num (srd_path2hashs_m (wl s')) + del_count del' = srd_num m"
    using r(2) by (simp add: erased_def)
  have "del_count del' < min change (srd_num m) + length m"
    using r(3,4) c(2) by (auto simp: omap_total_Nil)
  then show ?thesis using r total assms(2) by (intro exI [of _ num] exI [of _ s']) auto
qed

text \<open>A state with three directories, for the witnesses.\<close>

definition demo_srd :: workload where
  "demo_srd = demo_workload \<lparr>
     srd_path2hashs_m := [(''a'', [replicate 32 1, replicate 32 2]), (''b'', [replicate 32 3]), (''c'', [replicate 32 4])],
     srd_info_json := JObject [(''a'', JObject [(''assigned'', JIntegral 2)]),
       (''b'', JObject [(''assigned'', JIntegral 1)]), (''c'', JObject [(''assigned'', JIntegral 1)])] \<rparr>"

lemma demo_srd_ok:
  "omap_ok (srd_path2hashs_m demo_srd)" "assigned_ok demo_srd" "wl_inv demo_srd"
proof -
  have keys: "omap_ok [(''a'', x), (''b'', y), (''c'', z)]" for x y z :: 'v
    by (simp add: omap_ok_def)
  have one: "omap_ok [(''assigned'', v)]" for v :: json by (simp add: omap_ok_def)
  show "omap_ok (srd_path2hashs_m demo_srd)" by (simp add: demo_srd_def keys)
  have info: "json2_ok (srd_info_json demo_srd)"
    by (auto simp: demo_srd_def json2_ok_def json_ok_def json_members_def SetType_def json_get_def keys one omap_simps)
  then show "assigned_ok demo_srd"
    by (auto simp: assigned_ok_def demo_srd_def spec_get_def json_get_def json_members_def SetType_def omap_list_def)
  have "wl_inv demo_workload" by (simp add: demo_workload_def wl_inv_new)
  then show "wl_inv demo_srd" using info keys by (simp add: wl_inv_def demo_srd_def)
qed

theorem srd_decrease_bounds_witness:
  "\<exists>num s'. srd_decrease quiet_sgx quiet_ocalls 2 [] (demo_enclave demo_srd ()) = Some (num, s') \<and>
     srd_num (srd_path2hashs_m (wl s')) \<le> 2 \<and> assigned_ok (wl s')"
proof -
  have n: "srd_num (srd_path2hashs_m demo_srd) = 4" by (simp add: demo_srd_def omap_total_def)
  show ?thesis
    using srd_decrease_bounds [of "demo_enclave demo_srd ()" 2 quiet_sgx quiet_ocalls] demo_srd_ok n
    by fastforce
qed

text \<open>
  Sealing one more entry keeps the invariant of the workload and the agreement of the assigned
  space with the entries, and adds at most one entry, behind the entries of the given directory.
\<close>

theorem srd_increase_adds_one:
  fixes H :: "'h ocalls" and path :: string
  assumes "wl_inv (wl s)" and "\<And>b. length (sha256 S b) = HASH_LENGTH"
  defines "w' \<equiv> wl (srd_increase S H path s)"
  shows "wl_inv w' \<and> (assigned_ok (wl s) \<longrightarrow> assigned_ok w') \<and>
    (\<exists>new. length new \<le> 1 \<and> (\<forall>p. srd_entry (srd_path2hashs_m w') p =
       srd_entry (srd_path2hashs_m (wl s)) p @ (if p = path then new else [])))"
proof (cases rule: srd_increase_cases [of S H path s])
  case 1
  then show ?thesis using assms(1) by (auto simp: w'_def intro: exI [of _ "[]"])
next
  case (2 b)
  let ?h = "take HASH_LENGTH (sha256 S b)"
  have ok: "omap_ok (srd_path2hashs_m (wl s))" using assms(1) by (simp add: wl_inv_def)
  have "wl_inv w'" unfolding w'_def 2 using assms(1,2) by (intro wl_inv_srd_info wl_inv_push) auto
  moreover have "assigned_ok (wl s) \<longrightarrow> assigned_ok w'" unfolding w'_def 2 using ok assigned_ok_push by blast
  moreover have "srd_entry (srd_path2hashs_m w') p =
      srd_entry (srd_path2hashs_m (wl s)) p @ (if p = path then [?h] else [])" for p
    unfolding w'_def 2 using ok by (simp add: frame_simps)
  ultimately show ?thesis by (intro conjI exI [of _ "[?h]"]) auto
qed

theorem srd_increase_adds_one_witness:
  "wl_inv (wl (srd_increase quiet_sgx quiet_ocalls ''d'' (demo_enclave demo_srd ())))"
  using srd_increase_adds_one [of "demo_enclave demo_srd ()" quiet_sgx quiet_ocalls "''d''"] demo_srd_ok(3)
  by simp

text \<open>
  Setting the pending change cuts a request for more random data to what is left below the upper
  limit, whatever was requested; a request to remove data is taken as it is.
\<close>

theorem set_srd_change_limited:
  "get_srd_change (set_srd_change change s) =
     (if change \<le> 0 then change
      else min change (max 0 (int SRD_NUMBER_UPPER_LIMIT - int (srd_num (srd_path2hashs_m (wl s))))))"
  by (auto simp: get_srd_change_def set_srd_change_def Let_def)

end
