(* ===== verification/Merkle.thy ===== *)
theory Merkle
  imports Workload Env
begin

text \<open>
  Merkle trees of files, \<open>src/enclave/utils/EUtils.cpp\<close> and \<open>src/enclave/include/MerkleTree.h\<close>:
  the two validation functions, over the C structure and over JSON, and the conversions between
  the two.  A tree is specified abstractly by hashes with children; the lemmas show that the JSON
  validation accepts exactly the trees whose inner hashes are the hashes of their children, that
  both validations agree, and that an accepted tree is bound by its root hash.
\<close>

section \<open>The structure\<close>

text \<open>\<open>links_num\<close> is the length of the list of children.\<close>

datatype MerkleTree = MerkleTree (mt_hash: string) (mt_size: nat) (mt_links: "MerkleTree list")

text \<open>The hash of a node as the validations read it: 64 characters of its text.\<close>

definition node_hash :: "malloc \<Rightarrow> string \<Rightarrow> bytes option" where
  "node_hash mm hash = hex_string_to_bytes mm hash (HASH_LENGTH * 2)"

text \<open>
  The end of both validations: the hash of the children's hashes against the hash of the node.
\<close>

definition check_parent :: "'h sgx \<Rightarrow> string \<Rightarrow> bytes \<Rightarrow> crust_status" where
  "check_parent S hash children_hashs = (case node_hash (alloc S) hash of
     None \<Rightarrow> CRUST_MALLOC_FAILED
   | Some parent_hash_org \<Rightarrow>
       if take HASH_LENGTH parent_hash_org \<noteq> take HASH_LENGTH (sgx_sha256_msg (sha256 S) children_hashs)
       then CRUST_INVALID_MERKLETREE else CRUST_SUCCESS)"

section \<open>Validation of the structure\<close>

fun validate_merkle_node :: "'h sgx \<Rightarrow> MerkleTree \<Rightarrow> crust_status" where
  "validate_merkle_node S (MerkleTree hash sz links) =
     (if links = [] then CRUST_SUCCESS
      else if \<not> enc_malloc (alloc S) (length links * HASH_LENGTH) then CRUST_MALLOC_FAILED
      else if \<exists>t \<in> set links. validate_merkle_node S t \<noteq> CRUST_SUCCESS \<or> node_hash (alloc S) (mt_hash t) = None
      then CRUST_INVALID_MERKLETREE
      else check_parent S hash (concat (map (\<lambda>t. the (node_hash (alloc S) (mt_hash t))) links)))"

definition validate_merkle_tree_c :: "'h sgx \<Rightarrow> MerkleTree option \<Rightarrow> crust_status" where
  "validate_merkle_tree_c S tree = (case tree of None \<Rightarrow> CRUST_SUCCESS | Some t \<Rightarrow> validate_merkle_node S t)"

section \<open>Validation of the JSON form\<close>

abbreviation links_num :: "json \<Rightarrow> int" where
  "links_num tree \<equiv> ToInt (json_get tree MT_LINKS_NUM)"

abbreviation tree_hash :: "malloc \<Rightarrow> json \<Rightarrow> string" where
  "tree_hash mm tree \<equiv> ToString mm (json_get tree MT_HASH)"

text \<open>The children the loops visit; indexing behind the end of an array yields a null value.\<close>

definition tree_links :: "json \<Rightarrow> json list" where
  "tree_links tree = map (json_index (json_get tree MT_LINKS)) [0..<nat (links_num tree)]"

lemma json_get_less: "json_get j k \<noteq> JNull \<Longrightarrow> size (json_get j k) < size j"
proof -
  assume "json_get j k \<noteq> JNull"
  then obtain m v where "j = JObject m" "map_of m k = Some v" "json_get j k = v"
    by (cases j) (auto simp: json_get_def json_members_def SetType_def split: option.splits)
  moreover from this have "size_prod (\<lambda>_. 0) size (k, v) \<le> size_list (size_prod (\<lambda>_. 0) size) m"
    by (intro size_list_estimation' [OF map_of_SomeD]) auto
  ultimately show ?thesis by simp
qed

lemma size_links [termination_simp]:
  assumes "links_num tree \<noteq> 0" and "t \<in> set (tree_links tree)"
  shows "size t < size tree"
proof -
  let ?l = "json_get tree MT_LINKS"
  have "json_get tree MT_LINKS_NUM \<noteq> JNull" using assms(1) by auto
  then have pos: "0 < size tree" using json_get_less [of tree MT_LINKS_NUM] by simp
  obtain i where "t = json_index ?l i" using assms(2) by (auto simp: tree_links_def)
  then consider "t = JNull" | l where "?l = JArray l" "t \<in> set l"
    by (cases ?l) (auto simp: json_index_def json_elems_def SetType_def Let_def split: if_splits)
  then show ?thesis
  proof cases
    case 1
    then show ?thesis using pos by simp
  next
    case 2
    then have "size t \<le> size_list size l" by (intro size_list_estimation' [OF 2(2)]) simp
    then show ?thesis using json_get_less [of tree MT_LINKS] 2(1) by simp
  qed
qed

text \<open>
  A negative number of links asks for nearly \<open>2 ^ 64\<close> bytes, which no allocation provides.
\<close>

function validate_merkletree_json :: "'h sgx \<Rightarrow> json \<Rightarrow> crust_status" where
  "validate_merkletree_json S tree =
     (let n = links_num tree in
      if n = 0 then CRUST_SUCCESS
      else if n \<noteq> json_size (json_get tree MT_LINKS) then CRUST_INVALID_MERKLETREE
      else if n < 0 \<or> \<not> enc_malloc (alloc S) (size_of_int (n * int HASH_LENGTH)) then CRUST_MALLOC_FAILED
      else if \<exists>t \<in> set (tree_links tree). validate_merkletree_json S t \<noteq> CRUST_SUCCESS \<or>
                 node_hash (alloc S) (tree_hash (alloc S) t) = None
      then CRUST_INVALID_MERKLETREE
      else check_parent S (tree_hash (alloc S) tree)
             (concat (map (\<lambda>t. the (node_hash (alloc S) (tree_hash (alloc S) t))) (tree_links tree))))"
  by pat_completeness auto
termination
  by (relation "measure (\<lambda>(S, tree). size tree)") (auto simp: size_links)

declare validate_merkletree_json.simps [simp del]

section \<open>Conversions\<close>

text \<open>
  Reading a tree from JSON.  The size of a node is not copied; it keeps the zero of its
  construction.
\<close>

function deserialize_json_to_merkletree :: "malloc \<Rightarrow> json \<Rightarrow> MerkleTree option" where
  "deserialize_json_to_merkletree mm tree_json =
     (if JSONType tree_json \<noteq> Class_Object then None
      else if \<not> enc_malloc mm (length (tree_hash mm tree_json) + 1) then None
      else if links_num tree_json = 0 then Some (MerkleTree (tree_hash mm tree_json) 0 [])
      else if links_num tree_json < 0 \<or> \<not> enc_malloc mm (size_of_int (links_num tree_json * 8)) then None
      else map_option (MerkleTree (tree_hash mm tree_json) 0)
             (those (map (deserialize_json_to_merkletree mm) (tree_links tree_json))))"
  by pat_completeness auto
termination
  by (relation "measure (\<lambda>(mm, tree). size tree)") (auto simp: size_links)

declare deserialize_json_to_merkletree.simps [simp del]

text \<open>
  Writing a tree as text.  The hash, already hexadecimal, is encoded again, and the character
  erased at the end is the last comma or, in a leaf, the opening bracket.
\<close>

fun serialize_merkletree_node :: "malloc \<Rightarrow> MerkleTree \<Rightarrow> string" where
  "serialize_merkletree_node mm (MerkleTree hash sz links) =
     butlast (''{'' @ quoted MT_SIZE @ '':'' @ to_string sz @ '','' @
       quoted MT_LINKS_NUM @ '':'' @ to_string (length links) @ '','' @
       quoted MT_HASH @ '':'' @ quoted (hexstring_safe mm (bytes_of_string hash)) @ '','' @
       quoted MT_LINKS @ '':['' @
       concat (map (\<lambda>t. serialize_merkletree_node mm t @ '','') links)) @ '']}''"

definition serialize_merkletree_to_json_string :: "malloc \<Rightarrow> MerkleTree option \<Rightarrow> string" where
  "serialize_merkletree_to_json_string mm tree =
     (case tree of None \<Rightarrow> [] | Some t \<Rightarrow> serialize_merkletree_node mm t)"

section \<open>Specification\<close>

text \<open>A tree of hashes, and when it is one: the hash of an inner node is the hash of its children.\<close>

datatype mtree = MTree (mroot: bytes) (mkids: "mtree list")

fun mt_valid :: "(bytes \<Rightarrow> bytes) \<Rightarrow> mtree \<Rightarrow> bool" where
  "mt_valid sha (MTree h cs) \<longleftrightarrow> cs = [] \<or> h = sha (concat (map mroot cs)) \<and> (\<forall>c \<in> set cs. mt_valid sha c)"

text \<open>The buffers whose hashes make up a tree.\<close>

fun mt_hashed :: "mtree \<Rightarrow> bytes set" where
  "mt_hashed (MTree h cs) = (if cs = [] then {} else {concat (map mroot cs)}) \<union> (\<Union>c \<in> set cs. mt_hashed c)"

text \<open>All hashes have the length of a hash.\<close>

fun mt_sized :: "mtree \<Rightarrow> bool" where
  "mt_sized (MTree h cs) \<longleftrightarrow> length h = HASH_LENGTH \<and> (\<forall>c \<in> set cs. mt_sized c)"

lemma mt_sized_root: "mt_sized t \<Longrightarrow> length (mroot t) = HASH_LENGTH"
  by (cases t) simp

lemma size_zip_left [termination_simp]: "(a, b) \<in> set (zip as bs) \<Longrightarrow> size a < Suc (size_list size as)"
  by (auto dest!: set_zip_leftD intro: le_imp_less_Suc size_list_estimation')

text \<open>Two trees agree as far down as both of them go.\<close>

fun mt_agree :: "mtree \<Rightarrow> mtree \<Rightarrow> bool" where
  "mt_agree (MTree h cs) (MTree h' ds) \<longleftrightarrow> h = h' \<and>
     (cs = [] \<or> ds = [] \<or> length cs = length ds \<and> (\<forall>(c, d) \<in> set (zip cs ds). mt_agree c d))"

text \<open>The tree of hashes a JSON value stands for, and when its numbers of links are right.\<close>

function mt_of :: "malloc \<Rightarrow> json \<Rightarrow> mtree" where
  "mt_of mm tree = MTree (case node_hash mm (tree_hash mm tree) of Some h \<Rightarrow> h | None \<Rightarrow> [])
     (if links_num tree = 0 then [] else map (mt_of mm) (tree_links tree))"
  by pat_completeness auto
termination
  by (relation "measure (\<lambda>(mm, tree). size tree)") (auto simp: size_links)

declare mt_of.simps [simp del]

function links_ok :: "json \<Rightarrow> bool" where
  "links_ok tree = (if links_num tree = 0 then True
     else 0 < links_num tree \<and> links_num tree = json_size (json_get tree MT_LINKS) \<and>
       (\<forall>t \<in> set (tree_links tree). links_ok t))"
  by pat_completeness auto
termination
  by (relation "measure size") (auto simp: size_links)

declare links_ok.simps [simp del]

section \<open>Lemmas: refinement\<close>

abbreviation node_sha :: "'h sgx \<Rightarrow> bytes \<Rightarrow> bytes" where
  "node_sha S b \<equiv> take HASH_LENGTH (sgx_sha256_msg (sha256 S) b)"

lemma node_hash_mem: "\<exists>h. node_hash mem_ok s = Some h \<and> length h = HASH_LENGTH"
  by (simp add: node_hash_def hex_string_to_bytes_def)

lemma node_hash_hex: "length h = HASH_LENGTH \<Longrightarrow> node_hash mem_ok (concat (map hex_digits h)) = Some h"
proof -
  assume len: "length h = HASH_LENGTH"
  then have "h \<noteq> []" by auto
  with len show ?thesis using hex_string_to_bytes_hex [of h mem_ok] by (simp add: node_hash_def)
qed

lemma root_mt_of: "mroot (mt_of mem_ok t) = the (node_hash mem_ok (tree_hash mem_ok t))"
  using node_hash_mem [of "tree_hash mem_ok t"] by (subst mt_of.simps) auto

lemma kids_mt_of: "mkids (mt_of mm t) = (if links_num t = 0 then [] else map (mt_of mm) (tree_links t))"
  by (subst mt_of.simps) simp

lemma mt_valid_kids:
  "mt_valid sha t \<longleftrightarrow> mkids t = [] \<or> mroot t = sha (concat (map mroot (mkids t))) \<and> (\<forall>c \<in> set (mkids t). mt_valid sha c)"
  by (cases t) simp

lemma check_parent_mem:
  "alloc S = mem_ok \<Longrightarrow> check_parent S hash b = (if take HASH_LENGTH (the (node_hash mem_ok hash)) = node_sha S b
     then CRUST_SUCCESS else CRUST_INVALID_MERKLETREE)"
  using node_hash_mem [of hash] by (auto simp: check_parent_def)

lemma tree_links_not_Nil: "0 < links_num t \<Longrightarrow> tree_links t \<noteq> []"
  by (simp add: tree_links_def)

lemma validate_json_refines:
  assumes "alloc S = mem_ok"
  shows "validate_merkletree_json S tree = CRUST_SUCCESS \<longleftrightarrow>
    links_ok tree \<and> mt_valid (node_sha S) (mt_of mem_ok tree)"
  using assms
proof (induction S tree rule: validate_merkletree_json.induct)
  case (1 S tree)
  let ?n = "links_num tree"
  let ?ok = "?n = json_size (json_get tree MT_LINKS)"
  show ?case
  proof (cases "?n = 0 \<or> \<not> ?ok \<or> ?n < 0")
    case True
    then show ?thesis
      by (subst validate_merkletree_json.simps, subst links_ok.simps, subst mt_valid_kids) (auto simp: kids_mt_of Let_def)
  next
    case False
    then have n: "?n \<noteq> 0" "?ok" "\<not> ?n < 0" "0 < ?n" by auto
    have mem: "enc_malloc (alloc S) x" for x using "1.prems" by simp
    have IH: "validate_merkletree_json S t = CRUST_SUCCESS \<longleftrightarrow> links_ok t \<and> mt_valid (node_sha S) (mt_of mem_ok t)"
      if "t \<in> set (tree_links tree)" for t
      using "1.IH" [OF refl n(1) _ _ that] n "1.prems" mem by simp
    have some: "(node_hash mem_ok s = None) = False" "length (the (node_hash mem_ok s)) = HASH_LENGTH" for s
      using node_hash_mem [of s] by auto
    have "mt_valid (node_sha S) (mt_of mem_ok tree) \<longleftrightarrow>
        the (node_hash mem_ok (tree_hash mem_ok tree)) =
          node_sha S (concat (map (\<lambda>t. the (node_hash mem_ok (tree_hash mem_ok t))) (tree_links tree))) \<and>
        (\<forall>t \<in> set (tree_links tree). mt_valid (node_sha S) (mt_of mem_ok t))"
      using n tree_links_not_Nil [OF n(4)]
      by (subst mt_valid_kids) (simp add: kids_mt_of root_mt_of o_def)
    then show ?thesis
      using n mem IH "1.prems"
      by (subst validate_merkletree_json.simps, subst links_ok.simps) (auto simp: check_parent_mem Let_def some)
  qed
qed

lemma mt_sized_mt_of: "mt_sized (mt_of mem_ok t)"
proof (induction "mem_ok" t rule: mt_of.induct)
  case (1 tree)
  then show ?case using node_hash_mem [of "tree_hash mem_ok tree"] by (subst mt_of.simps) auto
qed

section \<open>Lemmas: binding\<close>

lemma concat_sized_inject:
  assumes "\<forall>a \<in> set as. length a = HASH_LENGTH" and "\<forall>b \<in> set bs. length b = HASH_LENGTH" and "concat as = concat bs"
  shows "as = bs"
  using assms
proof (induction as arbitrary: bs)
  case Nil
  then show ?case by (cases bs) auto
next
  case (Cons a as)
  from Cons.prems(1,3) obtain b bs' where bs: "bs = b # bs'" by (cases bs) auto
  with Cons.prems have "a = b" "concat as = concat bs'" by simp_all
  then show ?case using Cons.IH [of bs'] Cons.prems(1,2) bs by simp
qed

lemma zip_map_eqD: "(c, d) \<in> set (zip cs ds) \<Longrightarrow> map f cs = map f ds \<Longrightarrow> f c = f d"
  by (induction cs ds rule: list_induct2') auto

text \<open>
  Without a collision among the hashed buffers, the root hash of a valid tree determines the tree.
\<close>

lemma mt_binding:
  assumes "mt_valid sha t" and "mt_valid sha u" and "mt_sized t" and "mt_sized u"
    and "inj_on sha (mt_hashed t \<union> mt_hashed u)" and "mroot t = mroot u"
  shows "mt_agree t u"
  using assms
proof (induction t u rule: mt_agree.induct)
  case (1 h cs h' ds)
  show ?case
  proof (cases "cs = [] \<or> ds = []")
    case True
    then show ?thesis using "1.prems"(6) by auto
  next
    case False
    then have "sha (concat (map mroot cs)) = sha (concat (map mroot ds))" using "1.prems"(1,2,6) by simp
    then have "concat (map mroot cs) = concat (map mroot ds)"
      using "1.prems"(5) False by (elim inj_onD [of sha]) auto
    moreover have "\<forall>x \<in> set (map mroot cs). length x = HASH_LENGTH" "\<forall>x \<in> set (map mroot ds). length x = HASH_LENGTH"
      using "1.prems"(3,4) by (auto simp: mt_sized_root)
    ultimately have roots: "map mroot cs = map mroot ds" by (intro concat_sized_inject) auto
    have "mt_agree c d" if cd: "(c, d) \<in> set (zip cs ds)" for c d
    proof (rule "1.IH" [OF cd refl])
      have m: "c \<in> set cs" "d \<in> set ds" using cd by (auto dest: set_zip_leftD set_zip_rightD)
      show "mt_valid sha c" "mt_valid sha d" "mt_sized c" "mt_sized d" using "1.prems"(1-4) False m by auto
      show "inj_on sha (mt_hashed c \<union> mt_hashed d)" using "1.prems"(5) by (rule inj_on_subset) (use m in auto)
      show "mroot c = mroot d" using cd roots by (rule zip_map_eqD)
    qed
    then show ?thesis using "1.prems"(6) roots False by (auto dest: arg_cong [of _ _ length])
  qed
qed

section \<open>Lemmas: the two forms\<close>

lemma those_map_Some: "those (map f xs) = Some ys \<longleftrightarrow> list_all2 (\<lambda>x y. f x = Some y) xs ys"
proof (induction xs arbitrary: ys)
  case (Cons x xs)
  then show ?case by (cases ys) (auto split: option.splits)
qed auto

lemma list_all2_ex:
  "list_all2 R xs ys \<Longrightarrow> (\<And>x y. R x y \<Longrightarrow> P x = Q y) \<Longrightarrow> (\<exists>x \<in> set xs. P x) \<longleftrightarrow> (\<exists>y \<in> set ys. Q y)"
  by (induction rule: list_all2_induct) auto

lemma deserialize_hash: "deserialize_json_to_merkletree mm j = Some t \<Longrightarrow> mt_hash t = tree_hash mm j"
  by (subst (asm) deserialize_json_to_merkletree.simps) (auto split: if_splits)

lemma validate_forms_agree:
  assumes "alloc S = mem_ok" and "links_ok j" and "deserialize_json_to_merkletree mem_ok j = Some t"
  shows "validate_merkle_node S t = validate_merkletree_json S j"
  using assms
proof (induction S j arbitrary: t rule: validate_merkletree_json.induct)
  case (1 S tree)
  note t = "1.prems"(3) [unfolded deserialize_json_to_merkletree.simps [of _ tree]]
  show ?case
  proof (cases "links_num tree = 0")
    case True
    then show ?thesis using t by (subst validate_merkletree_json.simps) (auto split: if_splits)
  next
    case False
    then obtain ts where ts: "t = MerkleTree (tree_hash mem_ok tree) 0 ts"
      "list_all2 (\<lambda>x y. deserialize_json_to_merkletree mem_ok x = Some y) (tree_links tree) ts"
      using t by (auto simp: those_map_Some split: if_splits)
    have n: "0 < links_num tree" "links_num tree = json_size (json_get tree MT_LINKS)"
      "\<forall>t \<in> set (tree_links tree). links_ok t"
      using "1.prems"(2) False by (subst (asm) links_ok.simps, simp)+
    have mem: "enc_malloc (alloc S) x" for x using "1.prems" by simp
    have "ts \<noteq> []" using ts(2) tree_links_not_Nil [OF n(1)] by auto
    have each: "list_all2 (\<lambda>x y. mt_hash y = tree_hash mem_ok x \<and>
        validate_merkle_node S y = validate_merkletree_json S x) (tree_links tree) ts"
    proof (rule list.rel_mono_strong [OF ts(2)])
      fix x y assume x: "x \<in> set (tree_links tree)" and y: "deserialize_json_to_merkletree mem_ok x = Some y"
      have "validate_merkle_node S y = validate_merkletree_json S x"
        using n x y False "1.prems"(1) mem by (intro "1.IH" [OF refl False _ _ x]) auto
      with deserialize_hash [OF y] show "mt_hash y = tree_hash mem_ok x \<and>
        validate_merkle_node S y = validate_merkletree_json S x" by simp
    qed
    have bad: "(\<exists>x \<in> set (tree_links tree). validate_merkletree_json S x \<noteq> CRUST_SUCCESS) \<longleftrightarrow>
        (\<exists>y \<in> set ts. validate_merkle_node S y \<noteq> CRUST_SUCCESS)"
      by (rule list_all2_ex [OF each]) simp
    have "map (\<lambda>y. the (node_hash mem_ok (mt_hash y))) ts =
        map (\<lambda>x. the (node_hash mem_ok (tree_hash mem_ok x))) (tree_links tree)"
      using each by (auto simp: list_all2_conv_all_nth intro!: nth_equalityI)
    moreover have some: "(node_hash mem_ok s = None) = False" for s using node_hash_mem [of s] by auto
    ultimately show ?thesis
      using n False bad mem \<open>ts \<noteq> []\<close> ts(1) "1.prems"(1)
      by (subst validate_merkletree_json.simps) (simp add: Let_def some)
  qed
qed

section \<open>Properties\<close>


text \<open>A tree with one leaf, under a hash function that is constantly zero.\<close>

definition demo_leaf :: json where
  "demo_leaf = JObject [(MT_HASH, JString (concat (map hex_digits (replicate HASH_LENGTH 0)))), (MT_LINKS_NUM, JIntegral 0),
     (MT_SIZE, JIntegral 5)]"

definition demo_tree :: json where
  "demo_tree = JObject [(MT_HASH, JString (concat (map hex_digits (replicate HASH_LENGTH 0)))),
     (MT_LINKS, JArray [demo_leaf]), (MT_LINKS_NUM, JIntegral 1), (MT_SIZE, JIntegral 5)]"

lemma demo_tree_fields:
  "links_num demo_leaf = 0" "links_num demo_tree = 1" "tree_links demo_tree = [demo_leaf]"
  "json_size (json_get demo_tree MT_LINKS) = 1"
  "tree_hash mm demo_tree = concat (map hex_digits (replicate HASH_LENGTH 0))"
  "tree_hash mm demo_leaf = concat (map hex_digits (replicate HASH_LENGTH 0))"
  using ToString_hex [of mm "replicate HASH_LENGTH 0"]
  by (simp_all add: demo_tree_def demo_leaf_def json_simps tree_links_def)

lemma demo_tree_ok: "validate_merkletree_json (quiet_sgx :: 'h sgx) demo_tree = CRUST_SUCCESS"
proof -
  let ?S = "quiet_sgx :: 'h sgx"
  have leaf: "validate_merkletree_json ?S demo_leaf = CRUST_SUCCESS"
    by (subst validate_merkletree_json.simps) (simp add: demo_tree_fields)
  have hash: "node_hash mem_ok (tree_hash mem_ok demo_tree) = Some (replicate HASH_LENGTH 0)"
    "node_hash mem_ok (tree_hash mem_ok demo_leaf) = Some (replicate HASH_LENGTH 0)"
    by (simp_all only: demo_tree_fields node_hash_hex length_replicate)
  have "node_sha ?S b = replicate HASH_LENGTH 0" for b by (simp add: sgx_sha256_msg_def)
  then show ?thesis
    using leaf hash by (subst validate_merkletree_json.simps) (simp add: demo_tree_fields check_parent_mem)
qed


text \<open>
  C31. An accepted tree is bound by its root hash: two accepted trees with the same root hash agree
  as far down as both go, unless the hash function has a collision among the buffers hashed in
  them.
\<close>

theorem merkle_tree_binding:
  fixes S :: "'h sgx"
  defines "H \<equiv> \<lambda>b. take HASH_LENGTH (sgx_sha256_msg (sha256 S) b)"
  assumes "alloc S = mem_ok"
    and "validate_merkletree_json S tree = CRUST_SUCCESS" and "validate_merkletree_json S tree' = CRUST_SUCCESS"
    and "mroot (mt_of mem_ok tree) = mroot (mt_of mem_ok tree')"
    and "inj_on H (mt_hashed (mt_of mem_ok tree) \<union> mt_hashed (mt_of mem_ok tree'))"
  shows "mt_agree (mt_of mem_ok tree) (mt_of mem_ok tree')"
  using assms validate_json_refines [OF assms(2)]
  by (intro mt_binding [where sha = H]) (simp_all add: mt_sized_mt_of)

theorem merkle_tree_binding_witness: "mt_agree (mt_of mem_ok demo_tree) (mt_of mem_ok demo_tree)"
proof (rule merkle_tree_binding [of "quiet_sgx :: unit sgx"])
  show "alloc quiet_sgx = mem_ok" by simp
  have "mt_of mem_ok demo_leaf = MTree (replicate HASH_LENGTH 0) []"
    by (subst mt_of.simps) (simp only: demo_tree_fields node_hash_hex length_replicate option.case refl if_True)
  then have "mt_hashed (mt_of mem_ok demo_tree) = {replicate HASH_LENGTH 0}"
    by (subst mt_of.simps) (simp add: demo_tree_fields)
  then show "inj_on (\<lambda>b. take HASH_LENGTH (sgx_sha256_msg (sha256 quiet_sgx) b))
      (mt_hashed (mt_of mem_ok demo_tree) \<union> mt_hashed (mt_of mem_ok demo_tree))" by simp
qed (rule demo_tree_ok refl)+

text \<open>
  C35. The two validations agree: a JSON tree with right numbers of links that is converted to the C
  structure is accepted in one form exactly when it is in the other, with the same status.
\<close>

theorem validate_merkle_tree_forms:
  assumes "alloc S = mem_ok" and "links_ok j" and "deserialize_json_to_merkletree (alloc S) j = Some t"
  shows "validate_merkle_tree_c S (Some t) = validate_merkletree_json S j"
  using validate_forms_agree [OF assms(1,2)] assms(1,3) by (simp add: validate_merkle_tree_c_def)

theorem validate_merkle_tree_forms_witness:
  "\<exists>t. deserialize_json_to_merkletree mem_ok demo_tree = Some t \<and>
     validate_merkle_tree_c (quiet_sgx :: unit sgx) (Some t) = CRUST_SUCCESS"
proof -
  have obj: "JSONType demo_tree = Class_Object" "JSONType demo_leaf = Class_Object"
    by (simp_all add: demo_tree_def demo_leaf_def)
  have leaf: "\<exists>t. deserialize_json_to_merkletree mem_ok demo_leaf = Some t"
    by (subst deserialize_json_to_merkletree.simps) (simp add: demo_tree_fields obj)
  have "\<exists>t. deserialize_json_to_merkletree mem_ok demo_tree = Some t"
    using leaf by (subst deserialize_json_to_merkletree.simps) (auto simp: demo_tree_fields obj)
  then obtain t where t: "deserialize_json_to_merkletree (alloc (quiet_sgx :: unit sgx)) demo_tree = Some t" by auto
  have mem: "alloc (quiet_sgx :: unit sgx) = mem_ok" by simp
  have "links_ok demo_tree" using validate_json_refines [OF mem, of demo_tree] demo_tree_ok [where 'h = unit] by blast
  from validate_merkle_tree_forms [OF mem this t] t mem show ?thesis using demo_tree_ok [where 'h = unit] by auto
qed

end
