(* ===== verification/Storage.thy ===== *)
theory Storage
  imports EnclaveState Merkle
begin

text \<open>
  Meaningful files, \<open>src/enclave/storage/Storage.cpp\<close>: sealing a file block by block along its
  Merkle tree, unsealing it, confirming and deleting it.  The lemmas show that sealing turns a
  valid tree into a valid tree, that unsealing never hands out a block that carries the private
  tag, that a confirmation or a deletion touches exactly one file, and that the statistics of the
  workload keep agreeing with its files.
\<close>

section \<open>Sealing the blocks\<close>

text \<open>
  What the recursion carries along: the text of the new tree, the size of the sealed data and the
  number of the next block.
\<close>

record seal_acc =
  acc_tree :: string
  acc_size :: nat
  acc_block :: nat

definition block_path :: "string \<Rightarrow> nat \<Rightarrow> string \<Rightarrow> string" where
  "block_path path block_num hash = path @ ''/'' @ to_string block_num @ ''_'' @ hash"

definition node_text :: "malloc \<Rightarrow> json \<Rightarrow> nat \<Rightarrow> string" where
  "node_text mm tree sz =
     quoted MT_LINKS_NUM @ '':'' @ to_string_int (links_num tree) @ '','' @
     quoted MT_HASH @ '':'' @ quoted (tree_hash mm tree) @ '','' @
     quoted MT_SIZE @ '':'' @ to_string sz @ ''}''"

text \<open>
  A leaf.  When the block is missing although its status is success, or no memory is left for it,
  the function returns success without doing anything.
\<close>

definition seal_leaf ::
  "'h sgx \<Rightarrow> 'h ocalls \<Rightarrow> string \<Rightarrow> json \<Rightarrow> seal_acc \<Rightarrow> 'h \<Rightarrow> ((crust_status \<times> json \<times> seal_acc) \<times> 'h) option" where
  "seal_leaf S H path tree acc h =
     (let old_hash_str = tree_hash (alloc S) tree; old_path = block_path path (acc_block acc) old_hash_str in
      case ocall_get_storage_file H old_path h of ((st, file_data), h1) \<Rightarrow>
        (case (if st = CRUST_SUCCESS then file_data else None) of
          None \<Rightarrow> Some ((st, tree, acc), h1)
        | Some data \<Rightarrow>
            if ToInt (json_get tree MT_SIZE) \<noteq> int (length data)
            then Some ((CRUST_STORAGE_NEW_FILE_SIZE_ERROR, tree, acc), h1)
            else if \<not> enc_malloc (alloc S) (length data) then Some ((CRUST_SUCCESS, tree, acc), h1)
            else (case hex_string_to_bytes (alloc S) old_hash_str (length old_hash_str) of
              None \<Rightarrow> Some ((CRUST_MALLOC_FAILED, tree, acc), h1)
            | Some p_org_hash \<Rightarrow>
                if take HASH_LENGTH p_org_hash \<noteq> take HASH_LENGTH (sgx_sha256_msg (sha256 S) data)
                then Some ((CRUST_STORAGE_UNEXPECTED_FILE_BLOCK, tree, acc), h1)
                else do {
                  ((st2, sealed), h2) \<leftarrow> seal_data_mrsigner S data h1;
                  if st2 \<noteq> CRUST_SUCCESS then Some ((st2, tree, acc), h2)
                  else
                    let hex_new_hash_str = hexstring_safe (alloc S) (take HASH_LENGTH (sgx_sha256_msg (sha256 S) sealed)) in
                    (case ocall_replace_file H old_path (block_path path (acc_block acc) hex_new_hash_str) sealed h2 of
                      (st3, h3) \<Rightarrow>
                        if st3 \<noteq> CRUST_SUCCESS then Some ((st3, tree, acc), h3)
                        else
                          let tree' = json_set tree MT_HASH (JString hex_new_hash_str) in
                          Some ((CRUST_SUCCESS, tree',
                            \<lparr> acc_tree = acc_tree acc @ ''{'' @ node_text (alloc S) tree' (length sealed),
                              acc_size = acc_size acc + length sealed, acc_block = Suc (acc_block acc) \<rparr>), h3))
                })))"

text \<open>The measure of the recursion: the largest child, then the number of children.\<close>

definition max_size :: "json list \<Rightarrow> nat" where
  "max_size ts = fold max (map size ts) 0"

lemma fold_max_le: "fold max (map size ts) k \<le> n \<longleftrightarrow> k \<le> (n :: nat) \<and> (\<forall>t \<in> set ts. size t \<le> n)"
  by (induction ts arbitrary: k) auto

lemma max_size_less: "(\<And>t. t \<in> set ts \<Longrightarrow> size t < n) \<Longrightarrow> 0 < n \<Longrightarrow> max_size ts < n"
proof -
  assume less: "\<And>t. t \<in> set ts \<Longrightarrow> size t < n" and "0 < n"
  have "size t \<le> n - 1" if "t \<in> set ts" for t using less [OF that] by simp
  then have "fold max (map size ts) 0 \<le> n - 1" by (simp only: fold_max_le) auto
  then show ?thesis using \<open>0 < n\<close> by (simp add: max_size_def)
qed

lemma max_size_Cons: "size t \<le> max_size (t # ts)" "max_size ts \<le> max_size (t # ts)"
  using fold_max_le [of "t # ts" 0 "max_size (t # ts)"] fold_max_le [of ts 0 "max_size (t # ts)"]
  by (auto simp: max_size_def)

function seal_node ::
    "'h sgx \<Rightarrow> 'h ocalls \<Rightarrow> string \<Rightarrow> json \<Rightarrow> seal_acc \<Rightarrow> 'h \<Rightarrow> ((crust_status \<times> json \<times> seal_acc) \<times> 'h) option"
and seal_links ::
    "'h sgx \<Rightarrow> 'h ocalls \<Rightarrow> string \<Rightarrow> json list \<Rightarrow> seal_acc \<Rightarrow> 'h \<Rightarrow>
      ((crust_status \<times> json list \<times> bytes \<times> seal_acc) \<times> 'h) option" where
  "seal_node S H path tree acc h =
     (if json_size tree = 0 then Some ((CRUST_SUCCESS, tree, acc), h)
      else if links_num tree = 0 then seal_leaf S H path tree acc h
      else
        let acc1 = acc \<lparr> acc_tree := acc_tree acc @ ''{'' @ quoted MT_LINKS @ '': [''  \<rparr> in
        if links_num tree < 0 \<or> \<not> enc_malloc (alloc S) (size_of_int (links_num tree * int HASH_LENGTH))
        then Some ((CRUST_MALLOC_FAILED, tree, acc1), h)
        else (case seal_links S H path (tree_links tree) (acc1 \<lparr> acc_size := 0 \<rparr>) h of
          None \<Rightarrow> None
        | Some ((st, links, sub_hashs, acc2), h1) \<Rightarrow>
            if st \<noteq> CRUST_SUCCESS then Some ((st, tree, acc2), h1)
            else
              let new_hash = take HASH_LENGTH (sgx_sha256_msg (sha256 S) sub_hashs);
                  tree' = json_set (json_set tree MT_LINKS (JArray links)) MT_HASH
                            (JString (hexstring_safe (alloc S) new_hash))
              in Some ((CRUST_SUCCESS, tree',
                   acc2 \<lparr> acc_tree := acc_tree acc2 @ ''],'' @ node_text (alloc S) tree' (acc_size acc2),
                          acc_size := acc_size acc + acc_size acc2 \<rparr>), h1)))"
| "seal_links S H path [] acc h = Some ((CRUST_SUCCESS, [], [], acc), h)"
| "seal_links S H path (t # ts) acc h = (case seal_node S H path t acc h of
     None \<Rightarrow> None
   | Some ((st, t', acc1), h1) \<Rightarrow>
       if st \<noteq> CRUST_SUCCESS then Some ((st, [], [], acc1), h1)
       else (case node_hash (alloc S) (tree_hash (alloc S) t') of
         None \<Rightarrow> Some ((CRUST_MALLOC_FAILED, [], [], acc1), h1)
       | Some p_new_hash \<Rightarrow>
           let acc2 = (if ts = [] then acc1 else acc1 \<lparr> acc_tree := acc_tree acc1 @ '','' \<rparr>) in
           (case seal_links S H path ts acc2 h1 of
             None \<Rightarrow> None
           | Some ((st2, ts', hs, acc3), h2) \<Rightarrow> Some ((st2, t' # ts', take HASH_LENGTH p_new_hash @ hs, acc3), h2))))"
  by pat_completeness auto
termination
proof (relation "inv_image (less_than <*lex*> less_than)
    (case_sum (\<lambda>(S, H, path, tree, acc, h). (size tree, 0)) (\<lambda>(S, H, path, ts, acc, h). (max_size ts, Suc (length ts))))")
  fix tree :: json and S :: "'h sgx" and H path acc h x and acc' :: seal_acc and h' :: 'h
  assume n: "links_num tree \<noteq> 0"
  have "json_get tree MT_LINKS_NUM \<noteq> JNull" using n by auto
  then have "0 < size tree" using json_get_less [of tree MT_LINKS_NUM] by simp
  then have "max_size (tree_links tree) < size tree" by (intro max_size_less size_links [OF n])
  then show "(Inr (S, H, path, tree_links tree, acc' \<lparr> acc_size := 0 \<rparr>, h), Inl (S, H, path, tree, acc, h)) \<in>
      inv_image (less_than <*lex*> less_than)
    (case_sum (\<lambda>(S, H, path, tree, acc, h). (size tree, 0)) (\<lambda>(S, H, path, ts, acc, h). (max_size ts, Suc (length ts))))"
    by simp
qed (auto intro: le_neq_implies_less [OF max_size_Cons(1)] le_neq_implies_less [OF max_size_Cons(2)])

declare seal_node.simps [simp del]

section \<open>Sealing a file\<close>

definition file_entry :: "bytes \<Rightarrow> bytes \<Rightarrow> nat \<Rightarrow> int \<Rightarrow> nat \<Rightarrow> json" where
  "file_entry new_hash org_hash node_size org_node_size block_num =
     json_set (json_set (json_set (json_set (json_set (json_set JNull
       FILE_HASH (json_hash new_hash)) FILE_OLD_HASH (json_hash org_hash))
       FILE_SIZE (JIntegral (int node_size))) FILE_OLD_SIZE (JIntegral org_node_size))
       FILE_BLOCK_NUM (JIntegral (int block_num))) FILE_STATUS (JString ''000'')"

definition meta_key :: "string \<Rightarrow> string" where
  "meta_key hash = hash @ ''_meta''"

definition tree_meta :: "malloc \<Rightarrow> string \<Rightarrow> int \<Rightarrow> bytes" where
  "tree_meta mm org_hash org_size = bytes_of_string (json_dump mm
     (json_set (json_set JNull FILE_OLD_HASH (JString org_hash)) FILE_OLD_SIZE (JIntegral org_size)))"

text \<open>\<open>old_path.substr(0, old_path.find(org)) + new\<close>.\<close>

definition renamed_path :: "string \<Rightarrow> string \<Rightarrow> string \<Rightarrow> string" where
  "renamed_path old_path org new =
     (case string_find old_path org 0 of Some i \<Rightarrow> take i old_path | None \<Rightarrow> old_path) @ new"

text \<open>
  The result is the status and what was written to the buffer for the new path.  That buffer has
  the size of the old path; \<open>None\<close> also stands for a new path that does not fit.
\<close>

definition store_file_data ::
  "'h sgx \<Rightarrow> 'h ocalls \<Rightarrow> string \<Rightarrow> string \<Rightarrow> int \<Rightarrow> seal_acc \<Rightarrow> 'h \<Rightarrow> (crust_status \<times> 'h) option" where
  "store_file_data S H new org org_node_size acc h = do {
     (st1, h1) \<leftarrow> persist_set_unsafe (alloc S) H new (bytes_of_string (acc_tree acc)) h;
     if st1 \<noteq> CRUST_SUCCESS then Some (st1, h1)
     else persist_set_unsafe (alloc S) H (meta_key new) (tree_meta (alloc S) org org_node_size) h1
   }"

definition register_file ::
  "'h sgx \<Rightarrow> 'h ocalls \<Rightarrow> json \<Rightarrow> json \<Rightarrow> seal_acc \<Rightarrow> 'h enclave \<Rightarrow> (crust_status \<times> 'h enclave) option" where
  "register_file S H tree_json tree acc s =
     (let org = tree_hash (alloc S) tree_json; new = tree_hash (alloc S) tree;
          org_node_size = ToInt (json_get tree_json MT_SIZE);
          s1 = on_host (ocall_store_sealed_merkletree H org (acc_tree acc)) s
      in case hex_string_to_bytes (alloc S) new (length new) of
           None \<Rightarrow> Some (CRUST_UNEXPECTED_ERROR, s1)
         | Some new_hash \<Rightarrow> (case hex_string_to_bytes (alloc S) org (length org) of
             None \<Rightarrow> Some (CRUST_UNEXPECTED_ERROR, s1)
           | Some org_hash \<Rightarrow>
               let f = file_entry new_hash org_hash (acc_size acc) org_node_size (acc_block acc) in
               (case try_host (store_file_data S H new org org_node_size acc) s1 of
                 None \<Rightarrow> None
               | Some (st, s2) \<Rightarrow>
                   if st \<noteq> CRUST_SUCCESS then Some (st, s2)
                   else Some (CRUST_SUCCESS,
                     on_wl (\<lambda>w. set_wl_spec FILE_STATUS_UNCONFIRMED (file_old_size f) (add_new_file f w)) s2))))"

definition storage_seal_file ::
  "'h sgx \<Rightarrow> 'h ocalls \<Rightarrow> string \<Rightarrow> string \<Rightarrow> 'h enclave \<Rightarrow> ((crust_status \<times> string) \<times> 'h enclave) option" where
  "storage_seal_file S H p_tree old_path s =
     (if FILE_NUMBER_UPPER_LIMIT \<le> length (checked_files (wl s)) + length (new_files (wl s))
      then Some ((CRUST_FILE_NUMBER_EXCEED, []), s)
      else do {
        tree_json \<leftarrow> Load (alloc S) False p_tree;
        if json_size tree_json = 0 then Some ((CRUST_INVALID_MERKLETREE, []), s)
        else if validate_merkletree_json S tree_json \<noteq> CRUST_SUCCESS
        then Some ((validate_merkletree_json S tree_json, []), s)
        else do {
          ((st, tree, acc), s1) \<leftarrow> try_host (seal_node S H old_path tree_json
             \<lparr> acc_tree = [], acc_size = 0, acc_block = 0 \<rparr>) s;
          if st \<noteq> CRUST_SUCCESS then Some ((st, []), s1)
          else
            let new_path = renamed_path old_path (tree_hash (alloc S) tree_json) (tree_hash (alloc S) tree) in
            (case call_host (ocall_rename_dir H old_path new_path) s1 of
              (st2, s2) \<Rightarrow>
                if st2 \<noteq> CRUST_SUCCESS then Some ((st2, []), s2)
                else if length old_path < length new_path then None
                else map_option (\<lambda>(st3, s3). ((st3, new_path), s3)) (register_file S H tree_json tree acc s2))
        }
      })"

section \<open>Unsealing a file\<close>

text \<open>
  The loop over the blocks.  The buffer for decrypted data grows and is kept between blocks, so its
  size is carried along.
\<close>

fun unseal_blocks ::
  "'h sgx \<Rightarrow> 'h ocalls \<Rightarrow> string \<Rightarrow> string list \<Rightarrow> nat \<Rightarrow> 'h \<Rightarrow> (crust_status option) \<times> 'h" where
  "unseal_blocks S H dir [] buf_len h = (None, h)"
| "unseal_blocks S H dir (file # fs) buf_len h =
     (let tag = (case string_find file ''_'' 0 of Some i \<Rightarrow> take i file | None \<Rightarrow> file); path = dir @ ''/'' @ file in
      case ocall_get_storage_file H path h of ((st, file_data), h1) \<Rightarrow>
        (case (if st = CRUST_SUCCESS then file_data else None) of
          None \<Rightarrow> (Some st, h1)
        | Some sealed \<Rightarrow>
            if \<not> enc_malloc (alloc S) (length sealed) then (Some CRUST_MALLOC_FAILED, h1)
            else
              let len = sgx_get_encrypt_txt_len S sealed in
              if buf_len < len \<and> \<not> enc_realloc (alloc S) len then (Some CRUST_MALLOC_FAILED, h1)
              else (case sgx_unseal_data S sealed of
                None \<Rightarrow> (Some CRUST_UNSEAL_DATA_FAILED, h1)
              | Some data \<Rightarrow>
                  if take (length SWORKER_PRIVATE_TAG) data = bytes_of_string SWORKER_PRIVATE_TAG
                  then (Some CRUST_MALWARE_DATA_BLOCK, h1)
                  else
                    let hex_new_hash_str = hexstring_safe (alloc S) (take HASH_LENGTH (sgx_sha256_msg (sha256 S) data)) in
                    (case ocall_replace_file H path (dir @ ''/'' @ tag @ ''_'' @ hex_new_hash_str) data h1 of
                      (st2, h2) \<Rightarrow>
                        if st2 \<noteq> CRUST_SUCCESS then (Some CRUST_STORAGE_UPDATE_FILE_FAILED, h2)
                        else unseal_blocks S H dir fs (max buf_len len) h2))))"

text \<open>\<open>find_last_of\<close> a slash: the part before it, and the part behind it.\<close>

definition up_dir :: "string \<Rightarrow> string" where
  "up_dir dir = (if CHR ''/'' \<in> set dir then rev (tl (dropWhile (\<lambda>c. c \<noteq> CHR ''/'') (rev dir))) else dir)"

definition base_name :: "string \<Rightarrow> string" where
  "base_name dir = rev (takeWhile (\<lambda>c. c \<noteq> CHR ''/'') (rev dir))"

definition storage_unseal_file ::
  "'h sgx \<Rightarrow> 'h ocalls \<Rightarrow> string list \<Rightarrow> string \<Rightarrow> nat \<Rightarrow> 'h \<Rightarrow> ((crust_status \<times> string) \<times> 'h) option" where
  "storage_unseal_file S H files dir path_len h = do {
     ((st, meta), h1) \<leftarrow> persist_get_unsafe (alloc S) H (meta_key (base_name dir)) h;
     case (if st = CRUST_SUCCESS then meta else None) of
       None \<Rightarrow> Some ((CRUST_STORAGE_UNSEAL_FILE_FAILED, []), h1)
     | Some p_meta \<Rightarrow> do {
         meta_json \<leftarrow> Load (alloc S) False (string_of_bytes p_meta);
         let new_dir = up_dir dir @ ''/'' @ ToString (alloc S) (json_get meta_json FILE_OLD_HASH);
         let (r, h2) = unseal_blocks S H dir files 0 h1;
         case r of
           Some st2 \<Rightarrow> Some ((st2, []), h2)
         | None \<Rightarrow>
             let (st3, h3) = ocall_rename_dir H dir new_dir h2 in
             if path_len < length new_dir then None else Some ((st3, new_dir), h3)
       }
   }"

section \<open>Confirming a file\<close>

definition has_hash :: "malloc \<Rightarrow> string \<Rightarrow> json \<Rightarrow> bool" where
  "has_hash mm hash f \<longleftrightarrow> ToString mm (json_get f FILE_HASH) = hash"

text \<open>The first and the last index with a property, as the forward and backward loops find them.\<close>

definition first_idx :: "(json \<Rightarrow> bool) \<Rightarrow> json list \<Rightarrow> nat option" where
  "first_idx P fs = find (\<lambda>i. P (fs ! i)) [0..<length fs]"

definition last_idx :: "(json \<Rightarrow> bool) \<Rightarrow> json list \<Rightarrow> nat option" where
  "last_idx P fs = find (\<lambda>i. P (fs ! i)) (rev [0..<length fs])"

definition confirm_entry :: "json \<Rightarrow> json" where
  "confirm_entry f = (if file_status f CURRENT_STATUS = FILE_STATUS_UNCONFIRMED
     then set_file_status CURRENT_STATUS FILE_STATUS_VALID f else f)"

definition storage_confirm_file :: "'h sgx \<Rightarrow> string \<Rightarrow> 'h enclave \<Rightarrow> crust_status \<times> 'h enclave" where
  "storage_confirm_file S hash s =
     (CRUST_SUCCESS,
      (case last_idx (has_hash (alloc S) hash) (checked_files (wl s)) of
         Some i \<Rightarrow>
           let f = confirm_entry (checked_files (wl s) ! i) in
           on_wl (\<lambda>w. set_wl_spec2 FILE_STATUS_VALID FILE_STATUS_UNCONFIRMED (file_old_size f)
             (w \<lparr> checked_files := (checked_files w)[i := f] \<rparr>)) s
       | None \<Rightarrow>
           (case last_idx (\<lambda>f. has_hash (alloc S) hash f \<and> file_status f CURRENT_STATUS = FILE_STATUS_UNCONFIRMED)
                   (new_files (wl s)) of
              Some i \<Rightarrow>
                let f = confirm_entry (new_files (wl s) ! i) in
                on_wl (\<lambda>w. set_wl_spec2 FILE_STATUS_VALID FILE_STATUS_UNCONFIRMED (file_old_size f)
                  (w \<lparr> new_files := (new_files w)[i := f] \<rparr>)) s
            | None \<Rightarrow> s)))"

section \<open>Deleting a file\<close>

text \<open>The data kept for a deleted file goes, and its bucket of the statistics shrinks.\<close>

definition delete_data :: "'h sgx \<Rightarrow> 'h ocalls \<Rightarrow> json \<Rightarrow> 'h enclave \<Rightarrow> 'h enclave" where
  "delete_data S H f s =
     (let hash = ToString (alloc S) (json_get f FILE_HASH);
          s1 = snd (call_host (persist_del H hash) s);
          s2 = snd (call_host (persist_del H (meta_key hash)) s1)
      in on_wl (set_wl_spec (file_status f CURRENT_STATUS) (- file_old_size f)) s2)"

definition storage_delete_file :: "'h sgx \<Rightarrow> 'h ocalls \<Rightarrow> string \<Rightarrow> 'h enclave \<Rightarrow> crust_status \<times> 'h enclave" where
  "storage_delete_file S H hash s =
     (CRUST_SUCCESS,
      (case first_idx (has_hash (alloc S) hash) (checked_files (wl s)) of
         Some i \<Rightarrow>
           let f = checked_files (wl s) ! i in
           delete_data S H f (on_wl (\<lambda>w. w \<lparr> checked_files :=
             (checked_files w)[i := set_file_status CURRENT_STATUS FILE_STATUS_DELETED f] \<rparr>) s)
       | None \<Rightarrow>
           (case last_idx (has_hash (alloc S) hash) (new_files (wl s)) of
              Some i \<Rightarrow>
                delete_data S H (new_files (wl s) ! i)
                  (on_wl (\<lambda>w. w \<lparr> new_files := erase_at i (new_files w) \<rparr>) s)
            | None \<Rightarrow> s)))"

section \<open>Lemmas: the sealed tree\<close>

lemma map_of_omap_upd_any: "map_of (omap_upd k v m) = (map_of m)(k \<mapsto> v)"
  by (induction m) (auto simp: fun_eq_iff)

lemma json_get_set_any [simp]: "json_get (json_set j k v) k' = (if k' = k then v else json_get j k')"
  by (simp add: json_get_def json_set_def json_members_simps map_of_omap_upd_any)

lemma leaf_valid: "links_num t = 0 \<Longrightarrow> links_ok t \<and> mt_valid sha (mt_of mm t)"
  by (subst links_ok.simps, subst mt_valid_kids) (simp add: kids_mt_of)

lemma seal_leaf_links:
  "seal_leaf S H path tree acc h = Some ((st, tree', acc'), h') \<Longrightarrow> links_num tree' = links_num tree"
  by (auto simp: seal_leaf_def Let_def bind_eq_Some_conv split: prod.splits option.splits if_splits)

lemma inner_valid:
  assumes "alloc S = mem_ok" and "\<And>b. length (sha256 S b) = HASH_LENGTH"
    and "0 < links_num tree" and "int (length links) = links_num tree"
    and "\<forall>t \<in> set links. links_ok t \<and> mt_valid (node_sha S) (mt_of mem_ok t)"
  defines "tree' \<equiv> json_set (json_set tree MT_LINKS (JArray links)) MT_HASH (JString (hexstring_safe (alloc S)
      (node_sha S (concat (map (\<lambda>t. the (node_hash mem_ok (tree_hash mem_ok t))) links)))))"
  shows "links_ok tree' \<and> mt_valid (node_sha S) (mt_of mem_ok tree')"
proof -
  let ?h = "node_sha S (concat (map (\<lambda>t. the (node_hash mem_ok (tree_hash mem_ok t))) links))"
  have num: "links_num tree' = int (length links)" "json_get tree' MT_LINKS = JArray links"
    using assms(4) by (simp_all add: tree'_def)
  have len: "length ?h = HASH_LENGTH" using assms(2) by (simp add: sgx_sha256_msg_def)
  have hex: "hexstring_safe mem_ok ?h = concat (map hex_digits ?h)" by (simp add: hexstring_safe_def)
  have "tree_hash mem_ok tree' = concat (map hex_digits ?h)"
    using ToString_hex [of mem_ok ?h] unfolding tree'_def assms(1) hex by simp
  then have root: "mroot (mt_of mem_ok tree') = ?h" using node_hash_hex [OF len] by (simp add: root_mt_of)
  have links: "tree_links tree' = links"
    using num by (auto simp: tree_links_def json_index_Array intro!: nth_equalityI)
  have "links \<noteq> []" using assms(3,4) by auto
  moreover have "links_ok tree'" using num links assms(5) by (subst links_ok.simps) auto
  moreover have "mt_valid (node_sha S) (mt_of mem_ok tree')"
    using num root links assms(5) \<open>links \<noteq> []\<close> by (subst mt_valid_kids) (simp add: kids_mt_of root_mt_of o_def)
  ultimately show ?thesis by simp
qed

text \<open>Sealing makes a valid tree out of every tree with right numbers of links.\<close>

lemma seal_valid:
  fixes S :: "'h sgx"
  assumes mem: "alloc S = mem_ok" and sha: "\<And>b. length (sha256 S b) = HASH_LENGTH"
  shows "seal_node S H path tree acc h = Some ((CRUST_SUCCESS, tree', acc'), h') \<Longrightarrow> links_ok tree \<Longrightarrow>
      links_ok tree' \<and> mt_valid (node_sha S) (mt_of mem_ok tree')"
    and "seal_links S H path ts acc h = Some ((CRUST_SUCCESS, ts', hs, acc'), h') \<Longrightarrow> \<forall>t \<in> set ts. links_ok t \<Longrightarrow>
      length ts' = length ts \<and> (\<forall>t \<in> set ts'. links_ok t \<and> mt_valid (node_sha S) (mt_of mem_ok t)) \<and>
      hs = concat (map (\<lambda>t. the (node_hash mem_ok (tree_hash mem_ok t))) ts')"
  using mem sha
proof (induction S H path tree acc h and S H path ts acc h arbitrary: tree' acc' h' and ts' hs acc' h'
    rule: seal_node_seal_links.induct)
  case (1 S H path tree acc h)
  show ?case
  proof (cases "links_num tree = 0")
    case True
    then have "links_num tree' = 0"
      using "1.prems"(1) by (subst (asm) seal_node.simps) (auto split: if_splits dest: seal_leaf_links)
    then show ?thesis by (rule leaf_valid)
  next
    case False
    have n: "0 < links_num tree" "\<forall>t \<in> set (tree_links tree). links_ok t"
      using "1.prems"(2) False by (subst (asm) links_ok.simps, simp)+
    have "json_size tree \<noteq> 0"
      using n(1) by (cases tree) (auto simp: json_get_def json_members_def SetType_def)
    let ?acc = "acc \<lparr> acc_tree := acc_tree acc @ ''{'' @ quoted MT_LINKS @ '': ['', acc_size := 0 \<rparr>"
    obtain links hs acc2 h1 where r: "seal_links S H path (tree_links tree) ?acc h = Some ((CRUST_SUCCESS, links, hs, acc2), h1)"
      and t: "tree' = json_set (json_set tree MT_LINKS (JArray links)) MT_HASH (JString (hexstring_safe (alloc S) (node_sha S hs)))"
      using "1.prems"(1) False n(1) \<open>json_size tree \<noteq> 0\<close>
      by (subst (asm) seal_node.simps) (auto simp: Let_def split: if_splits option.splits)
    have "length links = length (tree_links tree) \<and> (\<forall>t \<in> set links. links_ok t \<and> mt_valid (node_sha S) (mt_of mem_ok t)) \<and>
        hs = concat (map (\<lambda>t. the (node_hash mem_ok (tree_hash mem_ok t))) links)"
      using "1.IH" [OF _ False refl _ _ n(2)] r n(1) "1.prems"(3,4) \<open>json_size tree \<noteq> 0\<close> by simp
    then show ?thesis
      using inner_valid [of S tree links] n(1) "1.prems"(3,4) unfolding t by (simp add: tree_links_def)
  qed
next
  case (3 S H path t ts acc h)
  obtain t1 acc1 h1 where t1: "seal_node S H path t acc h = Some ((CRUST_SUCCESS, t1, acc1), h1)"
    using "3.prems"(1) by (auto simp: Let_def split: option.splits if_splits)
  obtain p where p: "node_hash mem_ok (tree_hash mem_ok t1) = Some p" "length p = HASH_LENGTH"
    using node_hash_mem by blast
  let ?acc = "if ts = [] then acc1 else acc1 \<lparr> acc_tree := acc_tree acc1 @ '','' \<rparr>"
  obtain ts1 hs1 where ts1: "seal_links S H path ts ?acc h1 = Some ((CRUST_SUCCESS, ts1, hs1, acc'), h')"
    and res: "ts' = t1 # ts1" "hs = p @ hs1"
    using "3.prems"(1,3) t1 p by (auto simp: Let_def split: option.splits if_splits)
  have "links_ok t1 \<and> mt_valid (node_sha S) (mt_of mem_ok t1)"
    using "3.IH"(1) [OF t1] "3.prems"(2-4) by simp
  moreover have "length ts1 = length ts \<and> (\<forall>t \<in> set ts1. links_ok t \<and> mt_valid (node_sha S) (mt_of mem_ok t)) \<and>
      hs1 = concat (map (\<lambda>t. the (node_hash mem_ok (tree_hash mem_ok t))) ts1)"
    using "3.IH"(2) [OF t1 refl refl refl _ _ refl ts1] "3.prems"(2-4) p by simp
  ultimately show ?case using res p by simp
qed simp

section \<open>Lemmas: unsealing\<close>

text \<open>
  Whatever is known of the outside stays known when it survives fetching a block and replacing a
  block by data without the private tag.
\<close>

definition is_private :: "bytes \<Rightarrow> bool" where
  "is_private data \<longleftrightarrow> take (length SWORKER_PRIVATE_TAG) data = bytes_of_string SWORKER_PRIVATE_TAG"

lemma unseal_blocks_keep:
  assumes get: "\<And>path h. P h \<Longrightarrow> P (snd (ocall_get_storage_file H path h))"
    and replace: "\<And>path new data h. P h \<Longrightarrow> \<not> is_private data \<Longrightarrow> P (snd (ocall_replace_file H path new data h))"
  shows "P h \<Longrightarrow> P (snd (unseal_blocks S H dir files buf_len h))"
proof (induction files arbitrary: buf_len h)
  case (Cons name fs)
  let ?path = "dir @ ''/'' @ name"
  obtain st d h1 where fetch: "ocall_get_storage_file H ?path h = ((st, d), h1)" by (metis prod.exhaust)
  have h1: "P h1" using get [OF Cons.prems, of ?path] fetch by simp
  have "P h2" if "ocall_replace_file H ?path new data h1 = (st2, h2)" "\<not> is_private data" for st2 h2 new data
    using replace [OF h1 that(2), of ?path new] that(1) by simp
  then show ?case
    using Cons.IH h1 fetch by (auto simp: Let_def is_private_def split: option.splits prod.splits if_splits)
qed simp

section \<open>Lemmas: finding files\<close>

lemma find_idx_Some: "find P is = Some i \<Longrightarrow> i \<in> set is \<and> P i"
  by (induction "is") (auto split: if_splits)

lemma last_idx_Some: "last_idx P fs = Some i \<Longrightarrow> i < length fs \<and> P (fs ! i)"
  by (auto simp: last_idx_def dest!: find_idx_Some)

lemma first_idx_Some: "first_idx P fs = Some i \<Longrightarrow> i < length fs \<and> P (fs ! i)"
  by (auto simp: first_idx_def dest!: find_idx_Some)

section \<open>Lemmas: statistics\<close>

text \<open>The statistics of a workload agree with its files, checked and new.\<close>

definition stats_agree :: "workload \<Rightarrow> bool" where
  "stats_agree w \<longleftrightarrow> json2_ok (wl_spec_info w) \<and> (\<forall>st \<in> ledger_chars.
     spec_get (wl_spec_info w) (g_file_status st) ''num'' = stat_of (\<lambda>_. 1) st (checked_files w @ new_files w) \<and>
     spec_get (wl_spec_info w) (g_file_status st) ''size'' = stat_of file_old_size st (checked_files w @ new_files w))"

lemma stats_agree_books: "stats_agree w \<longleftrightarrow> wl_stats.books w (checked_files w @ new_files w)"
  by (simp add: stats_agree_def wl_stats.books_def)

lemma books_wl_spec_cong:
  "wl_spec_info w = wl_spec_info w' \<Longrightarrow> wl_stats.books w fs = wl_stats.books w' fs"
  by (simp add: wl_stats.books_def)

lemma stats_agree_new: "stats_agree (Workload_new mem)"
  unfolding stats_agree_def by (auto simp: ledger_chars_def g_file_status_def Workload_new_def json_simps)

definition small_files :: "workload \<Rightarrow> bool" where
  "small_files w \<longleftrightarrow> list_all small_file (checked_files w) \<and> list_all small_file (new_files w)"

lemma set_wl_spec_files [simp]:
  "checked_files (set_wl_spec st n w) = checked_files w" "new_files (set_wl_spec st n w) = new_files w"
  "checked_files (set_wl_spec2 st st' n w) = checked_files w" "new_files (set_wl_spec2 st st' n w) = new_files w"
  by (simp_all add: set_wl_spec_def set_wl_spec2_def Let_def)

lemma stats_agree_move:
  "stats_agree (set_wl_spec2 st st' n (w \<lparr> checked_files := fs \<rparr>)) \<longleftrightarrow>
     wl_stats.books (set_wl_spec2 st st' n w) (fs @ new_files w)"
  "stats_agree (set_wl_spec2 st st' n (w \<lparr> new_files := gs \<rparr>)) \<longleftrightarrow>
     wl_stats.books (set_wl_spec2 st st' n w) (checked_files w @ gs)"
  "stats_agree (set_wl_spec st n (w \<lparr> checked_files := fs \<rparr>)) \<longleftrightarrow> wl_stats.books (set_wl_spec st n w) (fs @ new_files w)"
  "stats_agree (set_wl_spec st n (w \<lparr> new_files := gs \<rparr>)) \<longleftrightarrow> wl_stats.books (set_wl_spec st n w) (checked_files w @ gs)"
  unfolding stats_agree_books
  by (auto intro!: books_wl_spec_cong simp: set_wl_spec_def set_wl_spec2_def Let_def)

lemma confirm_entry_unconfirmed:
  assumes "wf_file f" and "file_status f CURRENT_STATUS = FILE_STATUS_UNCONFIRMED" and "small_file f"
  shows "small_file (confirm_entry f)" and "file_old_size (confirm_entry f) = file_old_size f"
    and "file_status (confirm_entry f) CURRENT_STATUS = FILE_STATUS_VALID" and "wf_file (confirm_entry f)"
  using assms by (simp_all add: confirm_entry_def wl_simps)

lemma confirm_books:
  assumes "wl_stats.books w fs" and "i < length fs" and "wf_file (fs ! i)" and "small_file (fs ! i)"
    and "file_status (fs ! i) CURRENT_STATUS = FILE_STATUS_UNCONFIRMED"
  defines "f \<equiv> confirm_entry (fs ! i)"
  shows "wl_stats.books (set_wl_spec2 FILE_STATUS_VALID FILE_STATUS_UNCONFIRMED (file_old_size f) w) (fs[i := f])"
  using assms(1-5) confirm_entry_unconfirmed [OF assms(3,5,4)]
  by (intro wl_stats.books_move) (simp_all add: f_def)

lemma wf_nth: "list_all wf_file fs \<Longrightarrow> i < length fs \<Longrightarrow> wf_file (fs ! i)"
  by (simp add: list_all_length)

lemma confirm_stats:
  assumes "wl_inv (wl s)" and "small_files (wl s)" and "stats_agree (wl s)"
    and "\<And>i. last_idx (has_hash (alloc S) hash) (checked_files (wl s)) = Some i \<Longrightarrow>
      file_status (checked_files (wl s) ! i) CURRENT_STATUS = FILE_STATUS_UNCONFIRMED"
  shows "stats_agree (wl (snd (storage_confirm_file S hash s)))"
proof -
  let ?w = "wl s" and ?P = "has_hash (alloc S) hash"
  let ?Q = "\<lambda>f. ?P f \<and> file_status f CURRENT_STATUS = FILE_STATUS_UNCONFIRMED"
  note books = assms(3) [unfolded stats_agree_books]
  have wf: "list_all wf_file (checked_files ?w)" "list_all wf_file (new_files ?w)"
    "list_all small_file (checked_files ?w)" "list_all small_file (new_files ?w)"
    using assms(1,2) by (simp_all add: wl_inv_def small_files_def)
  show ?thesis
  proof (cases "last_idx ?P (checked_files ?w)")
    case (Some i)
    have i: "i < length (checked_files ?w)" using last_idx_Some [OF Some] by simp
    then have "wl_stats.books (set_wl_spec2 FILE_STATUS_VALID FILE_STATUS_UNCONFIRMED
        (file_old_size (confirm_entry (checked_files ?w ! i))) ?w)
        ((checked_files ?w @ new_files ?w)[i := confirm_entry (checked_files ?w ! i)])"
      using confirm_books [OF books, of i] wf assms(4) [OF Some] by (simp add: nth_append list_all_length)
    then show ?thesis
      using i Some by (simp add: storage_confirm_file_def frame_simps Let_def list_update_append stats_agree_move)
  next
    case None
    show ?thesis
    proof (cases "last_idx ?Q (new_files ?w)")
      case (Some i)
      have i: "i < length (new_files ?w)" "?Q (new_files ?w ! i)" using last_idx_Some [OF Some] by simp_all
      let ?j = "length (checked_files ?w) + i"
      have "wl_stats.books (set_wl_spec2 FILE_STATUS_VALID FILE_STATUS_UNCONFIRMED
          (file_old_size (confirm_entry (new_files ?w ! i))) ?w)
          ((checked_files ?w @ new_files ?w)[?j := confirm_entry (new_files ?w ! i)])"
        using confirm_books [OF books, of ?j] wf i by (simp add: nth_append list_all_length)
      then show ?thesis
        using i Some None
        by (simp add: storage_confirm_file_def frame_simps Let_def list_update_append stats_agree_move)
    next
      case none: None
      then show ?thesis using None assms(3) by (simp add: storage_confirm_file_def)
    qed
  qed
qed

lemma list_all_upd: "list_all P xs \<Longrightarrow> P x \<Longrightarrow> list_all P (xs[i := x])"
  by (auto simp: list_all_iff dest!: set_mp [OF set_update_subset_insert])

lemma wl_inv_confirm: "wl_inv (wl s) \<Longrightarrow> wl_inv (wl (snd (storage_confirm_file S hash s)))"
proof -
  assume inv: "wl_inv (wl s)"
  have "wf_file (confirm_entry f)" if "wf_file f" for f using that by (simp add: confirm_entry_def wl_simps)
  then show ?thesis
    using inv unfolding storage_confirm_file_def
    by (auto simp: frame_simps Let_def wl_inv_def set_wl_spec2_def json_simps list_all_length nth_list_update
        dest!: last_idx_Some split: option.splits)
qed

lemma delete_data_wl [frame_simps]:
  "wl (delete_data S H f s) = set_wl_spec (file_status f CURRENT_STATUS) (- file_old_size f) (wl s)"
  by (simp add: delete_data_def Let_def frame_simps)

text \<open>Marking or erasing the deleted file takes it out of its bucket.\<close>

lemma deleted_stats:
  assumes "wf_file (fs ! i)" and "i < length fs" and "x \<in> ledger_chars"
  shows "stat_of g x (fs[i := set_file_status CURRENT_STATUS FILE_STATUS_DELETED (fs ! i)]) = stat_of g x fs - stat_of g x [fs ! i]"
  using assms by (auto simp: stat_of_upd wl_simps)

lemma delete_stats:
  assumes "wl_inv (wl s)" and "small_files (wl s)" and "stats_agree (wl s)"
  shows "stats_agree (wl (snd (storage_delete_file S H hash s)))"
proof -
  let ?w = "wl s" and ?P = "has_hash (alloc S) hash"
  note books = assms(3) [unfolded stats_agree_books]
  have wf: "\<And>i. i < length (checked_files ?w) \<Longrightarrow> wf_file (checked_files ?w ! i) \<and> small_file (checked_files ?w ! i)"
    "\<And>i. i < length (new_files ?w) \<Longrightarrow> wf_file (new_files ?w ! i) \<and> small_file (new_files ?w ! i)"
    using assms(1,2) by (simp_all add: wl_inv_def small_files_def list_all_length)
  show ?thesis
  proof (cases "first_idx ?P (checked_files ?w)")
    case (Some i)
    then have i: "i < length (checked_files ?w)" using first_idx_Some by blast
    have "stats_agree (set_wl_spec (file_status (checked_files ?w ! i) CURRENT_STATUS) (- file_old_size (checked_files ?w ! i))
        (?w \<lparr> checked_files := (checked_files ?w)[i := set_file_status CURRENT_STATUS FILE_STATUS_DELETED (checked_files ?w ! i)] \<rparr>))"
      unfolding stats_agree_move
      using wf(1) [OF i] i by (intro wl_stats.books_remove [OF books _ refl]) (simp_all add: deleted_stats file_status_chars)
    then show ?thesis using Some by (simp add: storage_delete_file_def frame_simps Let_def)
  next
    case None
    show ?thesis
    proof (cases "last_idx ?P (new_files ?w)")
      case (Some i)
      then have i: "i < length (new_files ?w)" using last_idx_Some by blast
      have "stats_agree (set_wl_spec (file_status (new_files ?w ! i) CURRENT_STATUS) (- file_old_size (new_files ?w ! i))
          (?w \<lparr> new_files := erase_at i (new_files ?w) \<rparr>))"
        unfolding stats_agree_move
        using wf(2) [OF i] i by (intro wl_stats.books_remove [OF books _ refl]) (simp_all add: stat_of_erase file_status_chars)
      then show ?thesis using Some None by (simp add: storage_delete_file_def frame_simps)
    next
      case none: None
      then show ?thesis using None assms(3) by (simp add: storage_delete_file_def)
    qed
  qed
qed

lemma wl_inv_delete: "wl_inv (wl s) \<Longrightarrow> wl_inv (wl (snd (storage_delete_file S H hash s)))"
proof -
  assume inv: "wl_inv (wl s)"
  have "list_all wf_file (erase_at i fs)" if "list_all wf_file fs" for i fs
    using that set_erase_at [of i fs] by (auto simp: list_all_iff)
  then show ?thesis
    using inv unfolding storage_delete_file_def
    by (auto simp: frame_simps Let_def wl_inv_def set_wl_spec_def json_simps wl_simps wf_nth
        intro!: list_all_upd dest!: first_idx_Some last_idx_Some split: option.splits)
qed

section \<open>Lemmas: what sealing a file does\<close>

lemma register_file_cases:
  assumes "register_file S H tree_json tree acc s = Some (st, s')"
  obtains (refused) "wl s' = wl s" "st \<noteq> CRUST_SUCCESS"
  | (stored) new_hash org_hash where
    "hex_string_to_bytes (alloc S) (tree_hash (alloc S) tree) (length (tree_hash (alloc S) tree)) = Some new_hash"
    "hex_string_to_bytes (alloc S) (tree_hash (alloc S) tree_json) (length (tree_hash (alloc S) tree_json)) = Some org_hash"
    "st = CRUST_SUCCESS"
    "wl s' = (let f = file_entry new_hash org_hash (acc_size acc) (ToInt (json_get tree_json MT_SIZE)) (acc_block acc)
       in set_wl_spec FILE_STATUS_UNCONFIRMED (file_old_size f) (add_new_file f (wl s)))"
  using assms unfolding register_file_def
  by (auto simp: Let_def frame_simps split: if_splits option.splits prod.splits dest!: try_host_wl)

abbreviation empty_acc :: seal_acc where
  "empty_acc \<equiv> \<lparr> acc_tree = [], acc_size = 0, acc_block = 0 \<rparr>"

lemma storage_seal_file_cases:
  assumes "storage_seal_file S H p_tree path s = Some ((st, new_path), s')"
  obtains (refused) "wl s' = wl s" "st \<noteq> CRUST_SUCCESS"
  | (sealed) tree tree' acc h' new_hash org_hash where "Load (alloc S) False p_tree = Some tree"
    "validate_merkletree_json S tree = CRUST_SUCCESS"
    "length (checked_files (wl s)) + length (new_files (wl s)) < FILE_NUMBER_UPPER_LIMIT"
    "seal_node S H path tree empty_acc (hst s) = Some ((CRUST_SUCCESS, tree', acc), h')"
    "hex_string_to_bytes (alloc S) (tree_hash (alloc S) tree') (length (tree_hash (alloc S) tree')) = Some new_hash"
    "hex_string_to_bytes (alloc S) (tree_hash (alloc S) tree) (length (tree_hash (alloc S) tree)) = Some org_hash"
    "st = CRUST_SUCCESS" "length new_path \<le> length path"
    "wl s' = (let f = file_entry new_hash org_hash (acc_size acc) (ToInt (json_get tree MT_SIZE)) (acc_block acc)
       in set_wl_spec FILE_STATUS_UNCONFIRMED (file_old_size f) (add_new_file f (wl s)))"
proof (cases "FILE_NUMBER_UPPER_LIMIT \<le> length (checked_files (wl s)) + length (new_files (wl s))")
  case True
  then show thesis using assms refused by (auto simp: storage_seal_file_def)
next
  case few: False
  then obtain tree where tree: "Load (alloc S) False p_tree = Some tree"
    using assms by (auto simp: storage_seal_file_def bind_eq_Some_conv)
  show thesis
  proof (cases "json_size tree = 0 \<or> validate_merkletree_json S tree \<noteq> CRUST_SUCCESS")
    case True
    then show thesis using assms few tree refused by (auto simp: storage_seal_file_def split: if_splits)
  next
    case ok: False
    note res = assms [unfolded storage_seal_file_def]
    from res few tree ok obtain st1 tree' acc s1 where
      seal: "try_host (seal_node S H path tree empty_acc) s = Some ((st1, tree', acc), s1)"
      by (cases "try_host (seal_node S H path tree empty_acc) s") auto
    then obtain h' where h': "seal_node S H path tree empty_acc (hst s) = Some ((st1, tree', acc), h')"
      by (auto simp: try_host_def)
    have wl1: "wl s1 = wl s" using try_host_wl [OF seal] by simp
    let ?path = "renamed_path path (tree_hash (alloc S) tree) (tree_hash (alloc S) tree')"
    obtain st2 s2 where rename: "call_host (ocall_rename_dir H path ?path) s1 = (st2, s2)" by (metis prod.exhaust)
    have wl2: "wl s2 = wl s" using call_host_eq [OF rename] wl1 by simp
    show thesis
    proof (cases "st1 = CRUST_SUCCESS \<and> st2 = CRUST_SUCCESS")
      case False
      then show thesis using res few tree ok seal rename refused wl1 wl2 by (auto split: if_splits)
    next
      case True
      then have reg: "register_file S H tree tree' acc s2 = Some (st, s')" and len: "length new_path \<le> length path"
        using res few tree ok seal rename by (auto simp: Let_def split: if_splits)
      from reg show thesis
      proof (cases rule: register_file_cases)
        case refused
        then show thesis using that(1) wl2 by simp
      next
        case (stored new_hash org_hash)
        show thesis
          by (rule that(2) [OF tree _ _ _ stored(1,2,3) len])
            (use few ok h' True stored(4) wl2 in \<open>auto simp: Let_def\<close>)
      qed
    qed
  qed
qed

lemma hex_bytes_length: "hex_string_to_bytes mm str (length str) = Some b \<Longrightarrow> length b = length str div 2"
  by (auto simp: hex_string_to_bytes_def split: if_splits)

lemma seal_hash_length:
  assumes "alloc S = mem_ok" and "\<And>b. length (sha256 S b) = HASH_LENGTH"
    and "seal_node S H path tree acc h = Some ((CRUST_SUCCESS, tree', acc'), h')"
  shows "tree_hash mem_ok tree' = tree_hash mem_ok tree \<or> length (tree_hash mem_ok tree') = 2 * HASH_LENGTH"
proof -
  have hex: "length (json_escape (hexstring_safe mem_ok (take HASH_LENGTH (sgx_sha256_msg (sha256 S) b)))) = 2 * HASH_LENGTH" for b
    using ToString_hex [of mem_ok "take HASH_LENGTH (sgx_sha256_msg (sha256 S) b)"] assms(2)
    by (simp add: hexstring_safe_def sgx_sha256_msg_def)
  show ?thesis
    using assms(3) unfolding seal_node.simps [of S H path tree] seal_leaf_def
    by (auto simp: Let_def bind_eq_Some_conv assms(1) hex split: if_splits option.splits prod.splits)
qed

lemma wf_file_entry:
  assumes "length nh = HASH_LENGTH"
  shows "wf_file (file_entry nh oh sz osz n)"
    and "file_old_size (file_entry nh oh sz osz n) = osz"
    and "file_status (file_entry nh oh sz osz n) i = (if i < 3 then FILE_STATUS_UNCONFIRMED else CHR 0x00)"
proof -
  have "\<And>i. i < 3 \<Longrightarrow> ''000'' ! i = CHR ''0''" by (auto simp: numeral_3_eq_3 less_Suc_eq)
  then show "file_status (file_entry nh oh sz osz n) i = (if i < 3 then FILE_STATUS_UNCONFIRMED else CHR 0x00)"
    by (simp add: file_entry_def)
  show "wf_file (file_entry nh oh sz osz n)" using assms
    by (simp add: wf_file_def file_entry_def json_hash_def json_simps)
  show "file_old_size (file_entry nh oh sz osz n) = osz" by (simp add: file_entry_def)
qed

text \<open>Registering a sealed file keeps the invariants of the workload.\<close>

lemma register_stats:
  fixes oh :: bytes and sz n :: nat
  assumes "wl_inv w" and "stats_agree w" and "length nh = HASH_LENGTH" and "0 < osz" and "osz < 2 ^ 31"
  defines "f \<equiv> file_entry nh oh sz osz n"
  defines "w' \<equiv> set_wl_spec FILE_STATUS_UNCONFIRMED (file_old_size f) (add_new_file f w)"
  shows "wl_inv w'" and "stats_agree w'" and "new_files w' = new_files w @ [f]" and "checked_files w' = checked_files w"
proof -
  show "wl_inv w'" unfolding w'_def f_def using assms(1,3) by (intro wl_inv_spec wl_inv_add_new_file wf_file_entry)
  have small: "small_file f" using assms(3-5) by (simp add: small_file_def f_def wf_file_entry)
  have "wl_stats.books (set_wl_spec FILE_STATUS_UNCONFIRMED (file_old_size f) w) ((checked_files w @ new_files w) @ [f])"
    using assms(2,3) small
    by (intro wl_stats.books_append) (simp_all add: stats_agree_books f_def wf_file_entry)
  then show "stats_agree w'" unfolding w'_def add_new_file_def stats_agree_move by simp
  show "new_files w' = new_files w @ [f]" "checked_files w' = checked_files w" by (simp_all add: w'_def add_new_file_def)
qed

section \<open>Properties\<close>


text \<open>A host that hands out blocks of five bytes.\<close>

definition block_host :: "unit ocalls" where
  "block_host = quiet_ocalls \<lparr> ocall_get_storage_file := (\<lambda>_ h. ((CRUST_SUCCESS, Some [1, 2, 3, 4, 5]), h)) \<rparr>"

lemma demo_hash:
  "hex_string_to_bytes mem_ok (tree_hash mem_ok demo_leaf) (length (tree_hash mem_ok demo_leaf)) = Some (replicate HASH_LENGTH 0)"
  "hexstring_safe mem_ok (replicate HASH_LENGTH 0) = tree_hash mem_ok demo_leaf"
proof -
  have "replicate HASH_LENGTH (0 :: byte) \<noteq> []" by simp
  from hex_string_to_bytes_hex [OF this, of mem_ok]
  show "hex_string_to_bytes mem_ok (tree_hash mem_ok demo_leaf) (length (tree_hash mem_ok demo_leaf)) = Some (replicate HASH_LENGTH 0)"
    unfolding demo_tree_fields length_concat_hex by simp
  show "hexstring_safe mem_ok (replicate HASH_LENGTH 0) = tree_hash mem_ok demo_leaf"
    unfolding demo_tree_fields by (simp add: hexstring_safe_def)
qed

lemma demo_seal:
  "\<exists>tree acc. seal_node (quiet_sgx :: unit sgx) block_host path demo_tree empty_acc () = Some ((CRUST_SUCCESS, tree, acc), ()) \<and>
     acc_size acc = 5 \<and> acc_block acc = 1"
proof -
  have size: "json_size demo_leaf = 3" "json_size demo_tree = 4" "json_get demo_leaf MT_SIZE = JIntegral 5"
    by (simp_all add: demo_leaf_def demo_tree_def json_simps)
  have leaf: "\<exists>tree text. seal_node (quiet_sgx :: unit sgx) block_host path demo_leaf acc () =
      Some ((CRUST_SUCCESS, tree, acc \<lparr> acc_tree := text, acc_size := acc_size acc + 5, acc_block := Suc (acc_block acc) \<rparr>), ())" for acc
    using demo_hash
    by (cases acc, subst seal_node.simps) (simp add: demo_tree_fields(1) size seal_leaf_def block_host_def quiet_ocalls_def Let_def
        sgx_sha256_msg_def seal_data_mrsigner_def Sgx_seal_data_def uint32_def)
  obtain h where h: "node_hash mem_ok x = Some (h x)" for x using node_hash_mem by metis
  show ?thesis
    using leaf [of "\<lparr> acc_tree = ''{'' @ quoted MT_LINKS @ '': ['', acc_size = 0, acc_block = 0 \<rparr>"]
    by (subst seal_node.simps) (auto simp: demo_tree_fields(2,3) size Let_def h)
qed



lemma demo_tree_Load: "Load mem_ok False (json_text demo_tree) = Some demo_tree"
proof -
  obtain x where x: "hex (replicate HASH_LENGTH 0) = x" "plain x" using plain_hex_string by blast
  have "plain MT_HASH" "plain MT_LINKS_NUM" "plain MT_SIZE" "plain MT_LINKS" by (simp_all add: plain_def plain_char_def)
  then have "simple demo_tree"
    unfolding demo_tree_def demo_leaf_def x(1) using x(2) by (simp add: omap_ok_def LONG_MAX_def)
  then show ?thesis
    unfolding Load_def by (subst json_Load_text) (simp_all add: demo_tree_def hash_memory_def)
qed


text \<open>
  C28. Unsealing never hands out private data: whatever holds of the world outside and survives
  reading blocks, reading the database, renaming directories and replacing a block by data without
  the private tag, still holds after \<open>storage_unseal_file\<close>.
\<close>

theorem unseal_keeps_private:
  fixes P :: "'h \<Rightarrow> bool"
  assumes "\<And>path h. P h \<Longrightarrow> P (snd (ocall_get_storage_file H path h))"
    and "\<And>path new data h. P h \<Longrightarrow> \<not> is_private data \<Longrightarrow> P (snd (ocall_replace_file H path new data h))"
    and "\<And>old new h. P h \<Longrightarrow> P (snd (ocall_rename_dir H old new h))"
    and "\<And>key r h h'. P h \<Longrightarrow> persist_get_unsafe (alloc S) H key h = Some (r, h') \<Longrightarrow> P h'"
    and "P h" and "storage_unseal_file S H files dir path_len h = Some (r, h')"
  shows "P h'"
proof -
  obtain st m h1 where get: "persist_get_unsafe (alloc S) H (meta_key (base_name dir)) h = Some ((st, m), h1)"
    using assms(6) by (auto simp: storage_unseal_file_def bind_eq_Some_conv)
  have h1: "P h1" using assms(4) [OF assms(5) get] .
  have loop: "P (snd (unseal_blocks S H dir files 0 h1))" using assms(1,2) h1 by (rule unseal_blocks_keep)
  have "P (snd (ocall_rename_dir H dir new (snd (unseal_blocks S H dir files 0 h1))))" for new
    using assms(3) [OF loop] .
  then show ?thesis
    using assms(6) get h1 loop
    by (auto simp: storage_unseal_file_def bind_eq_Some_conv Let_def case_prod_beta split: if_splits option.splits)
qed

text \<open>A host that keeps a log of what it is given and serves a private block.\<close>

definition log_host :: "bytes list ocalls" where
  "log_host = quiet_ocalls \<lparr>
     ocall_get_storage_file := (\<lambda>_ h. ((CRUST_SUCCESS, Some (bytes_of_string SWORKER_PRIVATE_TAG)), h)),
     ocall_replace_file := (\<lambda>_ _ data h. (CRUST_SUCCESS, data # h)),
     ocall_persist_get := (\<lambda>k h. if k = ''ab_meta''
       then ((CRUST_SUCCESS, bytes_of_string (json_text (JObject [(FILE_OLD_HASH, JString ''cd'')]))), h)
       else ((CRUST_PERSIST_GET_FAILED, []), h)) \<rparr>"

lemma log_host_get: "persist_get_unsafe mm log_host key h = Some (r, h') \<Longrightarrow> h' = h"
  by (auto simp: persist_get_unsafe_def inner_ocall_persist_get_def log_host_def quiet_ocalls_def sum_key_def split: if_splits)

lemma log_host_simps:
  "snd (ocall_get_storage_file log_host path h) = h" "snd (ocall_replace_file log_host path new data h) = data # h"
  "snd (ocall_rename_dir log_host path new h) = h"
  by (simp_all add: log_host_def quiet_ocalls_def)

theorem unseal_keeps_private_witness:
  "\<exists>r h. storage_unseal_file quiet_sgx log_host [''0_x''] ''/ab'' 10 [] = Some (r, h) \<and>
     fst r = CRUST_MALWARE_DATA_BLOCK \<and> (\<forall>d \<in> set h. \<not> is_private d)"
proof -
  have "Load mem_ok False (json_text (JObject [(FILE_OLD_HASH, JString ''cd'')])) = Some (JObject [(FILE_OLD_HASH, JString ''cd'')])"
    unfolding Load_def by (subst json_Load_text) (simp_all add: hash_memory_def omap_ok_def plain_def plain_char_def)
  moreover have "persist_get_unsafe mem_ok log_host ''ab_meta'' [] =
      Some ((CRUST_SUCCESS, Some (bytes_of_string (json_text (JObject [(FILE_OLD_HASH, JString ''cd'')])))), [])"
    by (simp add: persist_get_unsafe_def inner_ocall_persist_get_def log_host_def quiet_ocalls_def sum_key_def)
  moreover have "base_name ''/ab'' = ''ab''" by (simp add: base_name_def)
  ultimately obtain r where r: "storage_unseal_file quiet_sgx log_host [''0_x''] ''/ab'' 10 [] = Some (r, [])"
    "fst r = CRUST_MALWARE_DATA_BLOCK"
    by (auto simp: storage_unseal_file_def meta_key_def Let_def log_host_def)
  have "\<forall>d \<in> set []. \<not> is_private d"
    by (rule unseal_keeps_private [where P = "\<lambda>h. \<forall>d \<in> set h. \<not> is_private d", OF _ _ _ _ _ r(1)])
      (auto simp: log_host_simps dest!: log_host_get)
  then show ?thesis using r by blast
qed


text \<open>A workload with one file.\<close>

definition demo_stored :: "string \<Rightarrow> workload" where
  "demo_stored st = set_wl_spec (hd st) 5 (demo_workload \<lparr> checked_files := [demo_file st 5] \<rparr>)"

lemma demo_stored_ok:
  assumes "length st = 3" and "set st \<subseteq> status_chars"
  shows "wl_inv (demo_stored st)" and "small_files (demo_stored st)" and "stats_agree (demo_stored st)"
proof -
  have w: "wl_inv demo_workload" by (simp add: demo_workload_def wl_inv_new)
  have hd: "file_status (demo_file st 5) CURRENT_STATUS = hd st" "hd st \<in> status_chars"
    using assms by (cases st; simp add: demo_file_def json_simps)+
  have f: "small_file (demo_file st 5)" "file_old_size (demo_file st 5) = 5"
    by (simp_all add: demo_file_def small_file_def json_simps)
  have none: "checked_files demo_workload = []" "new_files demo_workload = []"
    by (simp_all add: demo_workload_def Workload_new_def)
  show "wl_inv (demo_stored st)" unfolding demo_stored_def
    using assms by (intro wl_inv_spec wl_inv_files w) (simp add: wf_demo_file)
  show "small_files (demo_stored st)" using f none by (simp add: small_files_def demo_stored_def)
  have "stats_agree demo_workload" unfolding demo_workload_def by (rule stats_agree_new)
  then have "wl_stats.books demo_workload []" by (simp add: stats_agree_books none)
  from wl_stats.books_append [OF this f(1) hd] f none show "stats_agree (demo_stored st)"
    by (simp add: demo_stored_def stats_agree_move)
qed

abbreviation demo_files :: workload where
  "demo_files \<equiv> demo_stored ''000''"

lemma demo_files_ok: "wl_inv demo_files" "small_files demo_files" "stats_agree demo_files"
  by (simp_all add: demo_stored_ok)


text \<open>
  Confirming a file that waits for it keeps the statistics right and makes it valid; confirming
  a hash that is not known changes nothing.
\<close>

theorem confirm_keeps_stats:
  fixes S :: "'h sgx"
  assumes "wl_inv (wl s)" and "small_files (wl s)" and "stats_agree (wl s)"
    and "\<And>i. last_idx (has_hash (alloc S) hash) (checked_files (wl s)) = Some i \<Longrightarrow>
      file_status (checked_files (wl s) ! i) CURRENT_STATUS = FILE_STATUS_UNCONFIRMED"
  defines "w' \<equiv> wl (snd (storage_confirm_file S hash s))"
  shows "wl_inv w' \<and> stats_agree w' \<and> length (checked_files w') = length (checked_files (wl s)) \<and>
    (\<forall>i. last_idx (has_hash (alloc S) hash) (checked_files (wl s)) = Some i \<longrightarrow>
       file_status (checked_files w' ! i) CURRENT_STATUS = FILE_STATUS_VALID)"
proof -
  have "file_status (checked_files w' ! i) CURRENT_STATUS = FILE_STATUS_VALID"
    if i: "last_idx (has_hash (alloc S) hash) (checked_files (wl s)) = Some i" for i
    using last_idx_Some [OF i] i assms(1) assms(4) [OF i]
    by (simp add: w'_def storage_confirm_file_def Let_def frame_simps confirm_entry_def wl_simps wl_inv_def wf_nth)
  moreover have "length (checked_files w') = length (checked_files (wl s))"
    by (simp add: w'_def storage_confirm_file_def Let_def frame_simps split: option.splits)
  ultimately show ?thesis
    using confirm_stats [OF assms(1-4)] wl_inv_confirm [OF assms(1)] by (simp add: w'_def)
qed

theorem confirm_keeps_stats_witness:
  "\<exists>hash. file_status (checked_files (wl (snd (storage_confirm_file quiet_sgx hash (demo_enclave demo_files ())))) ! 0)
     CURRENT_STATUS = FILE_STATUS_VALID"
proof -
  let ?f = "demo_file ''000'' 5"
  let ?hash = "ToString mem_ok (json_get ?f FILE_HASH)"
  have files: "checked_files demo_files = [?f]" by (simp add: demo_stored_def)
  have st: "file_status ?f CURRENT_STATUS = FILE_STATUS_UNCONFIRMED" by (simp add: demo_file_def json_simps)
  have idx: "last_idx (has_hash mem_ok ?hash) (checked_files demo_files) = Some 0"
    by (simp add: last_idx_def files has_hash_def)
  have "\<forall>i. last_idx (has_hash (alloc (quiet_sgx :: unit sgx)) ?hash) (checked_files (wl (demo_enclave demo_files ()))) = Some i \<longrightarrow>
     file_status (checked_files (wl (snd (storage_confirm_file quiet_sgx ?hash (demo_enclave demo_files ())))) ! i) CURRENT_STATUS = FILE_STATUS_VALID"
    using confirm_keeps_stats [of "demo_enclave demo_files ()" "quiet_sgx :: unit sgx" ?hash] demo_files_ok idx st files by simp
  then show ?thesis using idx by auto
qed

text \<open>
  Confirming a file a second time breaks the statistics: a checked file that is already valid is
  counted once more as valid and once less as unconfirmed, although no file changes.
\<close>

theorem reconfirm_breaks_stats:
  assumes "wl_inv (wl s)" and "small_files (wl s)"
    and "last_idx (has_hash (alloc S) hash) (checked_files (wl s)) = Some i"
    and "file_status (checked_files (wl s) ! i) CURRENT_STATUS = FILE_STATUS_VALID"
  defines "w' \<equiv> wl (snd (storage_confirm_file S hash s))"
  shows "checked_files w' = checked_files (wl s) \<and> new_files w' = new_files (wl s) \<and>
    spec_get (wl_spec_info w') ''valid'' ''num'' = spec_get (wl_spec_info (wl s)) ''valid'' ''num'' + 1 \<and>
    spec_get (wl_spec_info w') ''unconfirmed'' ''num'' = spec_get (wl_spec_info (wl s)) ''unconfirmed'' ''num'' - 1"
proof -
  let ?f = "checked_files (wl s) ! i"
  have i: "i < length (checked_files (wl s))" using last_idx_Some [OF assms(3)] by simp
  have small: "0 < file_old_size ?f" "file_old_size ?f < 2 ^ 31"
    using assms(2) i by (simp_all add: small_files_def list_all_length small_file_def)
  have "w' = set_wl_spec2 FILE_STATUS_VALID FILE_STATUS_UNCONFIRMED (file_old_size ?f) (wl s)"
    using assms(3,4) i by (simp add: w'_def storage_confirm_file_def Let_def frame_simps confirm_entry_def list_update_id)
  then show ?thesis
    using assms(1) small wl_stats.num_move [of "wl s" FILE_STATUS_VALID FILE_STATUS_UNCONFIRMED FILE_STATUS_VALID "file_old_size ?f"]
      wl_stats.num_move [of "wl s" FILE_STATUS_VALID FILE_STATUS_UNCONFIRMED FILE_STATUS_UNCONFIRMED "file_old_size ?f"]
    by (simp add: wl_inv_def g_file_status_def)
qed

theorem reconfirm_breaks_stats_witness:
  "spec_get (wl_spec_info (wl (snd (storage_confirm_file quiet_sgx (ToString mem_ok (JHash (replicate 32 7)))
     (demo_enclave (demo_workload \<lparr> checked_files := [demo_file ''100'' 5] \<rparr>) ()))))) ''valid'' ''num'' = 1"
proof -
  let ?w = "demo_workload \<lparr> checked_files := [demo_file ''100'' 5] \<rparr>" and ?hash = "ToString mem_ok (JHash (replicate 32 7))"
  have inv: "wl_inv ?w" by (intro wl_inv_files) (simp_all add: demo_workload_def wl_inv_new wf_demo_file)
  have small: "small_files ?w" "new_files demo_workload = []" "spec_get (wl_spec_info demo_workload) ''valid'' ''num'' = 0"
    by (simp_all add: small_files_def small_file_def demo_file_def demo_workload_def Workload_new_def json_simps g_file_status_def)
  have f: "json_get (demo_file ''100'' 5) FILE_HASH = JHash (replicate 32 7)"
    "file_status (demo_file ''100'' 5) CURRENT_STATUS = FILE_STATUS_VALID"
    by (simp_all add: demo_file_def json_simps)
  have "last_idx (has_hash (alloc quiet_sgx) ?hash) (checked_files (wl (demo_enclave ?w ()))) = Some 0"
    by (simp add: last_idx_def has_hash_def f)
  from reconfirm_breaks_stats [OF _ _ this] show ?thesis using inv small f by simp
qed

end
