(* ===== verification/Validator.thy ===== *)
theory Validator
  imports Srd Storage "HOL-Library.Product_Lexorder"
begin

text \<open>
  The validation of the stored data, \<open>src/enclave/validator/Validator.cpp\<close>: random entries of the
  sealed random data and random blocks of random files are read back from the host and compared
  with the hashes the enclave keeps.  Random data that fails is punished, files that fail are marked
  lost.  The lemmas show that every entry that fails is removed together with at least as many more,
  that an honest host loses nothing, and that the statistics follow the files.
\<close>

section \<open>Random data\<close>

definition SRD_VALIDATE_RATE :: rat where "SRD_VALIDATE_RATE = 2 / 100"

definition MEANINGFUL_VALIDATE_RATE :: rat where "MEANINGFUL_VALIDATE_RATE = 2 / 100"

definition srd_random_delete ::
  "'h sgx \<Rightarrow> 'h ocalls \<Rightarrow> int \<Rightarrow> del_map \<Rightarrow> 'h enclave \<Rightarrow> 'h enclave option" where
  "srd_random_delete S H punish_num del_indexes s =
     (if punish_num \<le> 0 \<and> length del_indexes = 0 then Some s
      else map_option snd (srd_decrease S H punish_num del_indexes s))"

definition srd_validate_num :: "nat \<Rightarrow> nat" where
  "srd_validate_num srd_total_num =
     (let srd_num_threshold = nat \<lfloor>1 / SRD_VALIDATE_RATE * of_nat SRD_VALIDATE_MIN_NUM\<rfloor> in
      if srd_total_num \<ge> srd_num_threshold then nat \<lfloor>of_nat srd_total_num * SRD_VALIDATE_RATE\<rfloor>
      else if srd_total_num < SRD_VALIDATE_MIN_NUM then srd_total_num
      else SRD_VALIDATE_MIN_NUM)"

text \<open>
  Drawing entries: a directory, then an entry of it.  \<open>None\<close> stands for the division by zero in an
  empty directory.
\<close>

fun draw_srd :: "'h sgx \<Rightarrow> (string, bytes list) omap \<Rightarrow> nat \<Rightarrow> (nat \<times> nat) list \<Rightarrow> 'h enclave \<Rightarrow>
    ((nat \<times> nat) list \<times> 'h enclave) option" where
  "draw_srd S m 0 idxs s = Some (idxs, s)"
| "draw_srd S m (Suc n) idxs s = (case rand_u32 S s of (rand_val, s1) \<Rightarrow>
     if m = [] then None
     else let path_idx = rand_val mod length m; entry = snd (m ! path_idx) in
       (case rand_u32 S s1 of (rand_val2, s2) \<Rightarrow>
          if entry = [] then None
          else draw_srd S m n (oset_insert (path_idx, rand_val2 mod length entry) idxs) s2))"

definition all_srd :: "(string, bytes list) omap \<Rightarrow> (nat \<times> nat) list" where
  "all_srd m = concat (map (\<lambda>i. map (Pair i) [0..<length (snd (m ! i))]) [0..<length m])"

text \<open>The check of one entry: its list of leaf hashes, then one random leaf.\<close>

definition srd_check :: "'h sgx \<Rightarrow> 'h ocalls \<Rightarrow> string \<Rightarrow> bytes \<Rightarrow> 'h enclave \<Rightarrow> bool \<times> 'h enclave" where
  "srd_check S H dir_path p_g_hash s =
     (let g_path = dir_path @ ''/'' @ hexstring_safe (alloc S) (take HASH_LENGTH p_g_hash) in
      case call_host (ocall_get_file H (get_m_hashs_file_path g_path)) s of ((_, m_hashs_org), s1) \<Rightarrow>
      (case m_hashs_org of
        None \<Rightarrow> (False, s1)
      | Some m_hashs \<Rightarrow>
          if \<not> enc_malloc (alloc S) (length m_hashs) then (True, s1)
          else if take HASH_LENGTH p_g_hash \<noteq> take HASH_LENGTH (sgx_sha256_msg (sha256 S) m_hashs) then (False, s1)
          else (case rand_u32 S s1 of (rand_val, s2) \<Rightarrow>
            let srd_block_index = rand_val mod SRD_RAND_DATA_NUM;
                m_hash = take HASH_LENGTH (drop (srd_block_index * 32) m_hashs)
            in case call_host (ocall_get_file H (get_leaf_path g_path (of_nat srd_block_index) m_hash)) s2 of
                 ((_, leaf_data), s3) \<Rightarrow>
              (case leaf_data of
                None \<Rightarrow> (False, s3)
              | Some d \<Rightarrow> (m_hash = take HASH_LENGTH (sgx_sha256_msg (sha256 S) d), s3)))))"

fun validate_srd_loop ::
  "'h sgx \<Rightarrow> 'h ocalls \<Rightarrow> ('h enclave \<Rightarrow> 'h enclave) \<Rightarrow> (nat \<times> nat) list \<Rightarrow> del_map \<Rightarrow> 'h enclave \<Rightarrow>
     del_map \<times> 'h enclave" where
  "validate_srd_loop S H yld [] del s = (del, s)"
| "validate_srd_loop S H yld (idx # idxs) del s =
     (let s1 = sched_yield H yld SCHED_VALIDATE_SRD s; m = srd_path2hashs_m (wl s1) in
      if length m \<le> fst idx \<or> length (snd (m ! fst idx)) \<le> snd idx then validate_srd_loop S H yld idxs del s1
      else
        let dir_path = fst (m ! fst idx) in
        (case srd_check S H dir_path (snd (m ! fst idx) ! snd idx) s1 of
           (ok, s2) \<Rightarrow> validate_srd_loop S H yld idxs
             (if ok then del else omap_upd dir_path (oset_insert (snd idx) (del_set del dir_path)) del) s2))"

definition drawn_srd :: "'h sgx \<Rightarrow> 'h enclave \<Rightarrow> ((nat \<times> nat) list \<times> 'h enclave) option" where
  "drawn_srd S s =
     (let m = srd_path2hashs_m (wl s); srd_total_num = srd_num m; num = srd_validate_num srd_total_num in
      if num < srd_total_num then draw_srd S m num [] s else Some (all_srd m, s))"

definition validate_srd ::
  "'h sgx \<Rightarrow> 'h ocalls \<Rightarrow> ('h enclave \<Rightarrow> 'h enclave) \<Rightarrow> 'h enclave \<Rightarrow> 'h enclave option" where
  "validate_srd S H yld s =
     (if get_upgrade_status (wl s) = ENC_UPGRADE_STATUS_SUCCESS then Some s
      else do {
        (idxs, s1) \<leftarrow> drawn_srd S s;
        let (del, s2) = validate_srd_loop S H yld idxs [] s1;
        srd_random_delete S H (int (SRD_PUNISH_FACTOR * del_count del)) del s2
      })"

section \<open>Files: the blocks of one file\<close>

text \<open>The start and the end of a leaf's hash in the text of a tree.\<close>

definition stag :: string where
  "stag = quoted MT_LINKS_NUM @ '':0,'' @ quoted MT_HASH @ '':'' @ [dquote]"

definition etag :: string where
  "etag = [dquote] @ '','' @ quoted MT_SIZE"

text \<open>The \<open>do\<close> loop that goes to the leaf with the wanted number.\<close>

function find_leaf :: "string \<Rightarrow> nat \<Rightarrow> nat \<Rightarrow> nat \<Rightarrow> (nat \<times> nat) option" where
  "find_leaf tree_str spos cur_block_idx check_block_idx = (case string_find tree_str stag spos of
     None \<Rightarrow> None
   | Some p \<Rightarrow>
       if cur_block_idx < check_block_idx
       then find_leaf tree_str (p + length stag) (Suc cur_block_idx) check_block_idx
       else Some (p + length stag, Suc cur_block_idx))"
  by pat_completeness auto
termination
  by (relation "measure (\<lambda>(_, _, cur, check). check - cur)") auto

declare find_leaf.simps [simp del]

datatype verdict = Block_Ok | Block_Lost | Karst_Offline

fun check_blocks :: "'h sgx \<Rightarrow> 'h ocalls \<Rightarrow> string \<Rightarrow> string \<Rightarrow> nat list \<Rightarrow> nat \<Rightarrow> nat \<Rightarrow> 'h \<Rightarrow> verdict \<times> 'h" where
  "check_blocks S H root_hash tree_str [] spos cur_block_idx h = (Block_Ok, h)"
| "check_blocks S H root_hash tree_str (i # is) spos cur_block_idx h =
     (case find_leaf tree_str spos cur_block_idx i of
       None \<Rightarrow> (Block_Lost, h)
     | Some (spos1, cur1) \<Rightarrow> (case string_find tree_str etag spos1 of
         None \<Rightarrow> (Block_Lost, h)
       | Some epos \<Rightarrow>
           let leaf_hash = substr tree_str spos1 (epos - spos1) in
           (case ocall_validate_get_file H root_hash (to_string i @ ''_'' @ leaf_hash) h of
             ((st, p_sealed_data), h1) \<Rightarrow>
               if st \<noteq> CRUST_SUCCESS
               then (if st = CRUST_VALIDATE_KARST_OFFLINE then Karst_Offline else Block_Lost, h1)
               else (case hex_string_to_bytes (alloc S) leaf_hash (length leaf_hash) of
                 None \<Rightarrow> check_blocks S H root_hash tree_str is spos1 cur1 h1
               | Some leaf_hash_u \<Rightarrow>
                   if take HASH_LENGTH leaf_hash_u \<noteq> take HASH_LENGTH (sgx_sha256_msg (sha256 S) p_sealed_data)
                   then (Block_Lost, h1)
                   else check_blocks S H root_hash tree_str is epos cur1 h1))))"

text \<open>Drawing the blocks to check; the numbers of a \<open>std::set\<close>.\<close>

fun draw_blocks :: "'h sgx \<Rightarrow> nat \<Rightarrow> nat \<Rightarrow> nat list \<Rightarrow> 'h enclave \<Rightarrow> nat list \<times> 'h enclave" where
  "draw_blocks S file_block_num 0 idxs s = (idxs, s)"
| "draw_blocks S file_block_num (Suc n) idxs s = (case rand_u32 S s of
     (rand_val, s1) \<Rightarrow> draw_blocks S file_block_num n (oset_insert (rand_val mod file_block_num) idxs) s1)"

text \<open>
  The check of one file: its tree from the database, the tree itself, then random blocks.
\<close>

definition check_file :: "'h sgx \<Rightarrow> 'h ocalls \<Rightarrow> json \<Rightarrow> 'h enclave \<Rightarrow> (verdict \<times> 'h enclave) option" where
  "check_file S H f s = do {
     let root_hash = ToString (alloc S) (json_get f FILE_HASH);
     let file_block_num = size_of_int (ToInt (json_get f FILE_BLOCK_NUM));
     ((st, p_data), s1) \<leftarrow> try_host (persist_get_unsafe (alloc S) H root_hash) s;
     case (if st = CRUST_SUCCESS then p_data else None) of
       None \<Rightarrow> Some (Block_Lost, s1)
     | Some data \<Rightarrow> do {
         let tree_str = string_of_bytes data;
         tree_json \<leftarrow> Load (alloc S) False tree_str;
         if root_hash \<noteq> ToString (alloc S) (json_get tree_json FILE_HASH) \<or>
            validate_merkletree_json S tree_json \<noteq> CRUST_SUCCESS
         then Some (Block_Lost, s1)
         else
           let (idxs, s2) = draw_blocks S file_block_num (min MEANINGFUL_VALIDATE_MIN_BLOCK_NUM file_block_num) [] s1
           in Some (call_host (check_blocks S H root_hash tree_str idxs 0 0) s2)
       }
   }"

section \<open>Files: the loop\<close>

text \<open>What a verdict does to a file and to the record of changed files.\<close>

definition judge :: "verdict \<Rightarrow> nat \<Rightarrow> json \<Rightarrow> (nat, bool) omap \<Rightarrow> json \<times> (nat, bool) omap" where
  "judge v i f changed =
     (if v = Block_Lost \<and> file_status f CURRENT_STATUS = FILE_STATUS_VALID
      then (set_file_status CURRENT_STATUS FILE_STATUS_LOST f, omap_upd i True changed)
      else if v = Block_Ok \<and> file_status f CURRENT_STATUS = FILE_STATUS_LOST
      then (set_file_status CURRENT_STATUS FILE_STATUS_VALID f, omap_upd i False changed)
      else (f, changed))"

text \<open>\<open>True\<close> in the result: the file service went offline and the validation was given up.\<close>

fun validate_files_loop ::
  "'h sgx \<Rightarrow> 'h ocalls \<Rightarrow> ('h enclave \<Rightarrow> 'h enclave) \<Rightarrow> nat list \<Rightarrow> (nat, bool) omap \<Rightarrow> 'h enclave \<Rightarrow>
     ((bool \<times> (nat, bool) omap) \<times> 'h enclave) option" where
  "validate_files_loop S H yld [] changed s = Some ((False, changed), s)"
| "validate_files_loop S H yld (i # is) changed s =
     (let s1 = sched_yield H yld SCHED_VALIDATE_FILE s in
      if length (checked_files (wl s1)) \<le> i then validate_files_loop S H yld is changed s1
      else
        let f = checked_files (wl s1) ! i in
        if file_status f CURRENT_STATUS = FILE_STATUS_UNCONFIRMED \<or> file_status f CURRENT_STATUS = FILE_STATUS_DELETED
        then validate_files_loop S H yld is changed s1
        else (case check_file S H f s1 of
          None \<Rightarrow> None
        | Some (v, s2) \<Rightarrow>
            if v = Karst_Offline then Some ((True, changed), s2)
            else
              let (f', changed') = judge v i f changed in
              validate_files_loop S H yld is changed'
                (on_wl (\<lambda>w. w \<lparr> checked_files := (checked_files w)[i := f'] \<rparr>) s2)))"

text \<open>
  The statistics are updated at the end, once per changed file.  \<open>None\<close> stands for an index behind
  the end of the files.
\<close>

fun update_specs :: "(nat \<times> bool) list \<Rightarrow> workload \<Rightarrow> workload option" where
  "update_specs [] w = Some w"
| "update_specs ((i, lost) # es) w =
     (if length (checked_files w) \<le> i then None
      else
        let f = checked_files w ! i in
        update_specs es (set_wl_spec2 (file_status f CURRENT_STATUS) (if lost then FILE_STATUS_VALID else FILE_STATUS_LOST)
          (file_old_size f) w))"

definition check_file_num :: "nat \<Rightarrow> nat" where
  "check_file_num n = (if n > MEANINGFUL_VALIDATE_MIN_NUM then nat \<lfloor>of_nat n * MEANINGFUL_VALIDATE_RATE\<rfloor> else n)"

fun draw_files :: "'h sgx \<Rightarrow> nat \<Rightarrow> nat \<Rightarrow> 'h enclave \<Rightarrow> nat list \<times> 'h enclave" where
  "draw_files S file_num 0 s = ([], s)"
| "draw_files S file_num (Suc n) s = (case rand_u32 S s of (rand_val, s1) \<Rightarrow>
     (case draw_files S file_num n s1 of (idxs, s2) \<Rightarrow> ((rand_val mod file_num) # idxs, s2)))"

definition take_new_files :: "workload \<Rightarrow> workload" where
  "take_new_files w = w \<lparr> checked_files := checked_files w @ new_files w, new_files := [] \<rparr>"

definition validate_meaningful_file ::
  "'h sgx \<Rightarrow> 'h ocalls \<Rightarrow> ('h enclave \<Rightarrow> 'h enclave) \<Rightarrow> 'h enclave \<Rightarrow> 'h enclave option" where
  "validate_meaningful_file S H yld s =
     (if get_upgrade_status (wl s) = ENC_UPGRADE_STATUS_SUCCESS then Some s
      else
        let s1 = on_wl take_new_files s in
        (case call_host (ocall_validate_init H) s1 of (st, s2) \<Rightarrow>
          if st \<noteq> CRUST_SUCCESS
          then Some (on_host (ocall_validate_close H)
                 (if checked_files (wl s2) \<noteq> [] then on_wl (set_report_file_flag False) s2 else s2))
          else
            let file_num = length (checked_files (wl s2)) in
            (case draw_files S file_num (check_file_num file_num) s2 of (idxs, s3) \<Rightarrow>
              (case validate_files_loop S H yld idxs [] s3 of
                None \<Rightarrow> None
              | Some ((offline, changed), s4) \<Rightarrow>
                  if offline then Some (on_host (ocall_validate_close H) (on_wl (set_report_file_flag False) s4))
                  else (case update_specs changed (wl s4) of
                    None \<Rightarrow> None
                  | Some w \<Rightarrow> Some (on_host (ocall_validate_close H) (s4 \<lparr> wl := w \<rparr>)))))))"

section \<open>Lemmas: drawing random data\<close>

lemma draw_srd_ok:
  assumes "m \<noteq> []" and "\<forall>e \<in> set m. snd e \<noteq> []"
  shows "\<exists>idxs' s'. draw_srd S m n idxs s = Some (idxs', s') \<and> wl s' = wl s"
proof (induction n arbitrary: idxs s)
  case (Suc n)
  obtain r1 s1 where r1: "rand_u32 S s = (r1, s1)" by (cases "rand_u32 S s")
  obtain r2 s2 where r2: "rand_u32 S s1 = (r2, s2)" by (cases "rand_u32 S s1")
  have wl: "wl s2 = wl s" using rand_eq(1) [OF r1] rand_eq(1) [OF r2] by simp
  have "m ! (r1 mod length m) \<in> set m" using assms(1) by (simp add: length_greater_0_conv)
  then have "snd (m ! (r1 mod length m)) \<noteq> []" using assms(2) by blast
  then show ?case
    using Suc.IH [of "oset_insert (r1 mod length m, r2 mod length (snd (m ! (r1 mod length m)))) idxs" s2] r1 r2 assms(1) wl
    by (simp add: Let_def)
qed simp

lemma drawn_srd_ok:
  assumes "\<forall>e \<in> set (srd_path2hashs_m (wl s)). snd e \<noteq> []"
  shows "\<exists>idxs s'. drawn_srd S s = Some (idxs, s') \<and> wl s' = wl s"
proof (cases "srd_path2hashs_m (wl s)")
  case Nil
  then show ?thesis by (simp add: drawn_srd_def omap_total_Nil)
next
  case (Cons e m)
  then show ?thesis
    using draw_srd_ok [OF _ assms, of S "srd_validate_num (srd_num (srd_path2hashs_m (wl s)))" "[]" s]
    by (simp add: drawn_srd_def Let_def)
qed

section \<open>Lemmas: checking random data\<close>

lemma srd_check_wl [frame_simps]: "wl (snd (srd_check S H dir g s)) = wl s"
  by (auto simp: srd_check_def Let_def dest!: frame_eqs split: prod.splits option.splits)

text \<open>What the other threads must leave alone while the mutex is released.\<close>

definition keeps_srd :: "('h enclave \<Rightarrow> 'h enclave) \<Rightarrow> bool" where
  "keeps_srd yld \<longleftrightarrow> (\<forall>s. srd_path2hashs_m (wl (yld s)) = srd_path2hashs_m (wl s) \<and>
     srd_info_json (wl (yld s)) = srd_info_json (wl s))"

lemma sched_yield_srd:
  "keeps_srd yld \<Longrightarrow> srd_path2hashs_m (wl (sched_yield H yld pid s)) = srd_path2hashs_m (wl s) \<and>
     srd_info_json (wl (sched_yield H yld pid s)) = srd_info_json (wl s)"
  by (simp add: keeps_srd_def sched_yield_def Let_def case_prod_beta frame_simps)

lemma choice_ok_insert:
  assumes "omap_ok m" and "choice_ok m (del_count del, del)" and "p < length m" and "i < length (snd (m ! p))"
  defines "del' \<equiv> omap_upd (fst (m ! p)) (oset_insert i (del_set del (fst (m ! p)))) del"
  shows "choice_ok m (del_count del', del')"
proof -
  have "srd_entry m (fst (m ! p)) = snd (m ! p)" using assms(1,3) by (intro omap_list_in) simp_all
  then show ?thesis
    using assms(2,4) unfolding choice_ok_def del'_def by (auto simp: omap_simps) metis
qed

lemma validate_srd_loop_ok:
  assumes "omap_ok m" and "keeps_srd yld" and "choice_ok m (del_count del, del)" and "srd_path2hashs_m (wl s) = m"
  shows "case validate_srd_loop S H yld idxs del s of (del', s') \<Rightarrow>
    choice_ok m (del_count del', del') \<and> srd_path2hashs_m (wl s') = m \<and> srd_info_json (wl s') = srd_info_json (wl s)"
  using assms(3,4)
proof (induction idxs arbitrary: del s)
  case (Cons idx idxs)
  let ?s = "sched_yield H yld SCHED_VALIDATE_SRD s"
  have s: "srd_path2hashs_m (wl ?s) = m" "srd_info_json (wl ?s) = srd_info_json (wl s)"
    using sched_yield_srd [OF assms(2)] Cons.prems(2) by simp_all
  show ?case
  proof (cases "length m \<le> fst idx \<or> length (snd (m ! fst idx)) \<le> snd idx")
    case True
    then show ?thesis using Cons.IH [OF Cons.prems(1) s(1)] s by (simp add: Let_def)
  next
    case False
    let ?c = "srd_check S H (fst (m ! fst idx)) (snd (m ! fst idx) ! snd idx) ?s"
    let ?del = "if fst ?c then del else omap_upd (fst (m ! fst idx)) (oset_insert (snd idx) (del_set del (fst (m ! fst idx)))) del"
    have "choice_ok m (del_count ?del, ?del)"
      using choice_ok_insert [OF assms(1) Cons.prems(1), of "fst idx" "snd idx"] Cons.prems(1) False by simp
    from Cons.IH [OF this, of "snd ?c"] show ?thesis
      using False s by (simp add: Let_def case_prod_beta frame_simps)
  qed
qed simp

lemma choice_ok_Nil: "choice_ok m (del_count [], [])"
  by (simp add: choice_ok_def omap_simps omap_list_def omap_total_def oset_ok_def)

lemma assigned_ok_cong:
  "srd_path2hashs_m w = srd_path2hashs_m w' \<Longrightarrow> srd_info_json w = srd_info_json w' \<Longrightarrow> assigned_ok w = assigned_ok w'"
  by (simp add: assigned_ok_def)

text \<open>The entries that stay when the chosen ones go.\<close>

definition keeps_only :: "(string \<Rightarrow> nat set) \<Rightarrow> (string, bytes list) omap \<Rightarrow> (string, bytes list) omap \<Rightarrow> bool" where
  "keeps_only D m m' \<longleftrightarrow> (\<forall>p. srd_entry m' p = nths (srd_entry m p) (- D p))"

lemma random_delete_ok:
  assumes "omap_ok (srd_path2hashs_m (wl s))" and "choice_ok (srd_path2hashs_m (wl s)) (del_count del, del)"
    and "assigned_ok (wl s)"
  defines "m \<equiv> srd_path2hashs_m (wl s)"
  shows "\<exists>s' D. srd_random_delete S H (int (SRD_PUNISH_FACTOR * del_count del)) del s = Some s' \<and>
    keeps_only D m (srd_path2hashs_m (wl s')) \<and> (\<forall>p. set (del_set del p) \<subseteq> D p) \<and>
    min (2 * del_count del) (srd_num m) + srd_num (srd_path2hashs_m (wl s')) \<le> srd_num m \<and> assigned_ok (wl s')"
proof -
  let ?c = "int (min (2 * del_count del) (srd_num m))"
  have c: "min (int (2 * del_count del)) (int (srd_num m)) = ?c" by simp
  show ?thesis
  proof (cases "?c = 0")
    case True
    have le: "length (del_set del p) \<le> length (srd_entry m p)" for p
      using del_set_le [OF assms(2), of p] by (simp add: m_def)
    have none: "del_set del p = []" for p
    proof (cases "del_count del = 0")
      case True
      have "length (del_set del p) \<le> del_count del" by (rule omap_list_le_total)
      then show ?thesis using True by simp
    next
      case False
      then have "srd_num m = 0" using \<open>?c = 0\<close> by simp
      then have "length (srd_entry m p) = 0" using omap_list_le_total [of m p] by simp
      then show ?thesis using le [of p] by simp
    qed
    have "srd_random_delete S H (int (SRD_PUNISH_FACTOR * del_count del)) del s = Some s"
      using True c by (simp add: srd_random_delete_def srd_decrease_def m_def)
    then show ?thesis
      using assms(3) none True by (intro exI [of _ s] exI [of _ "\<lambda>_. {}"]) (auto simp: keeps_only_def m_def nths_all)
  next
    case False
    then have pos: "0 < del_count del" by simp
    obtain num s' del' where r: "srd_decrease S H (int (2 * del_count del)) del s = Some (num, s')"
      "erased del' m (srd_path2hashs_m (wl s'))" "?c \<le> int (del_count del')"
      "\<And>p. set (del_set del p) \<subseteq> set (del_set del' p)" "assigned_ok (wl s')"
      using srd_decrease_ok [OF assms(1,2), of "int (2 * del_count del)" ?c S H] c False assms(3) unfolding m_def by metis
    have "srd_random_delete S H (int (SRD_PUNISH_FACTOR * del_count del)) del s = Some s'"
      using r(1) pos by (simp add: srd_random_delete_def)
    then show ?thesis
      using r by (intro exI [of _ s'] exI [of _ "\<lambda>p. set (del_set del' p)"]) (auto simp: keeps_only_def erased_def)
  qed
qed

section \<open>Lemmas: an honest host\<close>

text \<open>
  The host still has what was sealed: for every entry the file of leaf hashes and every leaf, with
  the right hashes.
\<close>

definition has_file :: "'h ocalls \<Rightarrow> string \<Rightarrow> bytes \<Rightarrow> bool" where
  "has_file H path data \<longleftrightarrow> (\<forall>h. snd (fst (ocall_get_file H path h)) = Some data)"

definition honest_entry :: "'h sgx \<Rightarrow> 'h ocalls \<Rightarrow> string \<Rightarrow> bytes \<Rightarrow> bool" where
  "honest_entry S H dir g \<longleftrightarrow>
     (let g_path = dir @ ''/'' @ hexstring_safe (alloc S) (take HASH_LENGTH g) in
      \<exists>mh. has_file H (get_m_hashs_file_path g_path) mh \<and>
        take HASH_LENGTH g = take HASH_LENGTH (sgx_sha256_msg (sha256 S) mh) \<and>
        (\<forall>i < SRD_RAND_DATA_NUM. \<exists>d. has_file H (get_leaf_path g_path (of_nat i) (take HASH_LENGTH (drop (i * 32) mh))) d \<and>
           take HASH_LENGTH (drop (i * 32) mh) = take HASH_LENGTH (sgx_sha256_msg (sha256 S) d)))"

definition honest_host :: "'h sgx \<Rightarrow> 'h ocalls \<Rightarrow> (string, bytes list) omap \<Rightarrow> bool" where
  "honest_host S H m \<longleftrightarrow> (\<forall>e \<in> set m. \<forall>g \<in> set (snd e). honest_entry S H (fst e) g)"

lemma has_file_call:
  "has_file H path d \<Longrightarrow> call_host (ocall_get_file H path) s = ((st, r), s') \<Longrightarrow> r = Some d"
  using has_file_def [of H path d] by (auto simp: call_host_def split: prod.splits dest: spec [of _ "hst s"])

lemma srd_check_honest: "honest_entry S H dir g \<Longrightarrow> fst (srd_check S H dir g s)"
proof -
  let ?p = "dir @ ''/'' @ hexstring_safe (alloc S) (take HASH_LENGTH g)"
  assume "honest_entry S H dir g"
  then obtain mh where mh: "has_file H (get_m_hashs_file_path ?p) mh"
    "take HASH_LENGTH g = take HASH_LENGTH (sgx_sha256_msg (sha256 S) mh)"
    and leaves: "\<And>i. i < SRD_RAND_DATA_NUM \<Longrightarrow>
      \<exists>d. has_file H (get_leaf_path ?p (of_nat i) (take HASH_LENGTH (drop (i * 32) mh))) d \<and>
        take HASH_LENGTH (drop (i * 32) mh) = take HASH_LENGTH (sgx_sha256_msg (sha256 S) d)"
    by (auto simp: honest_entry_def Let_def)
  obtain st s1 where c1: "call_host (ocall_get_file H (get_m_hashs_file_path ?p)) s = ((st, Some mh), s1)"
    using has_file_call [OF mh(1)] by (metis prod.exhaust)
  obtain r s2 where r: "rand_u32 S s1 = (r, s2)" by (cases "rand_u32 S s1")
  let ?i = "r mod SRD_RAND_DATA_NUM"
  have "?i < SRD_RAND_DATA_NUM" by (simp add: SRD_RAND_DATA_NUM_def)
  from leaves [OF this] obtain d where d: "has_file H (get_leaf_path ?p (of_nat ?i) (take HASH_LENGTH (drop (?i * 32) mh))) d"
    "take HASH_LENGTH (drop (?i * 32) mh) = take HASH_LENGTH (sgx_sha256_msg (sha256 S) d)" by blast
  obtain st2 s3 where c2: "call_host (ocall_get_file H (get_leaf_path ?p (of_nat ?i) (take HASH_LENGTH (drop (?i * 32) mh)))) s2 =
      ((st2, Some d), s3)" using has_file_call [OF d(1)] by (metis prod.exhaust)
  show ?thesis unfolding srd_check_def Let_def using c1 r c2 mh(2) d(2) by (simp add: Let_def)
qed

lemma validate_srd_loop_honest:
  assumes "keeps_srd yld" and "honest_host S H m" and "srd_path2hashs_m (wl s) = m"
  shows "fst (validate_srd_loop S H yld idxs del s) = del \<and> srd_path2hashs_m (wl (snd (validate_srd_loop S H yld idxs del s))) = m"
  using assms(3)
proof (induction idxs arbitrary: s)
  case (Cons idx idxs)
  let ?s = "sched_yield H yld SCHED_VALIDATE_SRD s"
  have s: "srd_path2hashs_m (wl ?s) = m" using sched_yield_srd [OF assms(1)] Cons.prems by simp
  show ?case
  proof (cases "length m \<le> fst idx \<or> length (snd (m ! fst idx)) \<le> snd idx")
    case True
    then show ?thesis using Cons.IH [OF s] s by (simp add: Let_def)
  next
    case False
    let ?c = "srd_check S H (fst (m ! fst idx)) (snd (m ! fst idx) ! snd idx) ?s"
    have "fst ?c" using False assms(2) by (intro srd_check_honest) (auto simp: honest_host_def)
    then show ?thesis using Cons.IH [of "snd ?c"] s False by (simp add: Let_def case_prod_beta frame_simps)
  qed
qed simp

section \<open>Properties of the validation of random data\<close>



text \<open>
  An honest host loses nothing: when the host returns for every entry what was sealed, the
  validation leaves all random data in place, whichever entries are drawn.
\<close>

theorem validate_srd_honest:
  assumes "wl_inv (wl s)" and "keeps_srd yld" and "honest_host S H (srd_path2hashs_m (wl s))"
    and "\<forall>e \<in> set (srd_path2hashs_m (wl s)). snd e \<noteq> []"
  shows "\<exists>s'. validate_srd S H yld s = Some s' \<and> srd_path2hashs_m (wl s') = srd_path2hashs_m (wl s)"
proof (cases "get_upgrade_status (wl s) = ENC_UPGRADE_STATUS_SUCCESS")
  case False
  obtain idxs s1 where d: "drawn_srd S s = Some (idxs, s1)" "wl s1 = wl s" using drawn_srd_ok [OF assms(4)] by blast
  have "fst (validate_srd_loop S H yld idxs [] s1) = []"
    "srd_path2hashs_m (wl (snd (validate_srd_loop S H yld idxs [] s1))) = srd_path2hashs_m (wl s)"
    using validate_srd_loop_honest [OF assms(2,3), of s1 idxs "[]"] d(2) by simp_all
  then show ?thesis using d False by (simp add: validate_srd_def case_prod_beta srd_random_delete_def omap_total_Nil)
qed (simp add: validate_srd_def)

definition honest_ocalls :: "unit ocalls" where
  "honest_ocalls = quiet_ocalls \<lparr> ocall_get_file := (\<lambda>_ h. ((CRUST_SUCCESS, Some (replicate (SRD_RAND_DATA_NUM * 32) 0)), h)) \<rparr>"

theorem validate_srd_honest_witness:
  "\<exists>s'. validate_srd quiet_sgx honest_ocalls (\<lambda>s. s)
       (demo_enclave (demo_workload \<lparr> srd_path2hashs_m := [(''a'', [replicate 32 0])] \<rparr>) ()) = Some s' \<and>
     srd_path2hashs_m (wl s') = [(''a'', [replicate 32 0])]"
proof -
  let ?w = "demo_workload \<lparr> srd_path2hashs_m := [(''a'', [replicate 32 0])] \<rparr>"
  have "wl_inv demo_workload" by (simp add: demo_workload_def wl_inv_new)
  then have "wl_inv ?w" by (simp add: wl_inv_def omap_ok_def)
  moreover have "keeps_srd (\<lambda>s :: unit enclave. s)" by (simp add: keeps_srd_def)
  moreover have "honest_entry quiet_sgx honest_ocalls ''a'' (replicate 32 0)"
  proof -
    have "32 \<le> SRD_RAND_DATA_NUM * 32 - i * 32" if "i < SRD_RAND_DATA_NUM" for i using that by simp
    then show ?thesis
      by (auto simp: honest_entry_def has_file_def honest_ocalls_def Let_def sgx_sha256_msg_def min_absorb1
          intro!: exI [of _ "replicate (SRD_RAND_DATA_NUM * 32) 0"])
  qed
  ultimately show ?thesis
    using validate_srd_honest [of "demo_enclave ?w ()" "\<lambda>s. s" quiet_sgx honest_ocalls] by (simp add: honest_host_def)
qed

section \<open>Lemmas: files\<close>

lemma check_file_wl: "check_file S H f s = Some (v, s') \<Longrightarrow> wl s' = wl s"
proof -
  have "wl (snd (draw_blocks S n k idxs s)) = wl s" for n k idxs s
    by (induction k arbitrary: idxs s) (auto simp: case_prod_beta frame_simps)
  then have draw: "draw_blocks S n k idxs s = (is, s') \<Longrightarrow> wl s' = wl s" for n k idxs s "is" s' by (metis snd_conv)
  assume "check_file S H f s = Some (v, s')"
  then show ?thesis
    by (auto simp: check_file_def bind_eq_Some_conv Let_def case_prod_beta frame_simps draw [OF prod.collapse [symmetric]]
        dest!: try_host_wl arg_cong [where f = "\<lambda>x. wl (snd x)"] split: option.splits if_splits)
qed

lemma draw_files_wl: "wl (snd (draw_files S n k s)) = wl s"
  by (induction k arbitrary: s) (auto simp: case_prod_beta frame_simps)

text \<open>
  The record of changed files is right: a changed file moved between valid and lost as recorded, and
  every other file is as it was.
\<close>

definition moved :: "bool option \<Rightarrow> json \<Rightarrow> json \<Rightarrow> bool" where
  "moved r old cur \<longleftrightarrow> (case r of
     None \<Rightarrow> cur = old
   | Some lost \<Rightarrow>
       file_status old CURRENT_STATUS = (if lost then FILE_STATUS_VALID else FILE_STATUS_LOST) \<and>
       cur = set_file_status CURRENT_STATUS (if lost then FILE_STATUS_LOST else FILE_STATUS_VALID) old)"

definition changes :: "json list \<Rightarrow> json list \<Rightarrow> (nat, bool) omap \<Rightarrow> bool" where
  "changes old cur ch \<longleftrightarrow> omap_ok ch \<and> length cur = length old \<and>
     (\<forall>i < length old. moved (map_of ch i) (old ! i) (cur ! i)) \<and> (\<forall>i \<in> dom (map_of ch). i < length old)"

lemma changes_upd:
  assumes "changes old cur ch" and "i < length old" and "moved (Some lost) (old ! i) f'"
  shows "changes old (cur[i := f']) (omap_upd i lost ch) \<and> dom (map_of (omap_upd i lost ch)) \<subseteq> insert i (dom (map_of ch))"
proof -
  have ok: "omap_ok ch" using assms(1) by (simp add: changes_def)
  have map: "map_of (omap_upd i lost ch) = (map_of ch)(i \<mapsto> lost)" by (rule map_of_omap_upd [OF ok])
  show ?thesis using assms ok unfolding changes_def map by (auto simp: omap_ok_upd nth_list_update)
qed

lemma moved_judge:
  "judge v i f ch = (f', ch') \<Longrightarrow> f' = f \<and> ch' = ch \<or> (\<exists>lost. ch' = omap_upd i lost ch \<and> moved (Some lost) f f')"
  by (auto simp: judge_def moved_def split: if_splits)

lemma changes_judge:
  assumes "changes old cur ch" and "i < length old" and "map_of ch i = None" and "judge v i (cur ! i) ch = (f', ch')"
  shows "changes old (cur[i := f']) ch' \<and> dom (map_of ch') \<subseteq> insert i (dom (map_of ch))"
proof -
  have "moved (map_of ch i) (old ! i) (cur ! i)" using assms(1,2) unfolding changes_def by blast
  then have cur: "cur ! i = old ! i" by (simp add: assms(3) moved_def)
  from moved_judge [OF assms(4)] show ?thesis
  proof
    assume "f' = cur ! i \<and> ch' = ch"
    then show ?thesis using assms(1) by auto
  next
    assume "\<exists>lost. ch' = omap_upd i lost ch \<and> moved (Some lost) (cur ! i) f'"
    then obtain lost where "ch' = omap_upd i lost ch" "moved (Some lost) (old ! i) f'" using cur by auto
    then show ?thesis using changes_upd [OF assms(1,2)] by simp
  qed
qed

definition keeps_files :: "('h enclave \<Rightarrow> 'h enclave) \<Rightarrow> bool" where
  "keeps_files yld \<longleftrightarrow> (\<forall>s. wl (yld s) = wl s)"

lemma sched_yield_files: "keeps_files yld \<Longrightarrow> wl (sched_yield H yld pid s) = wl s"
  by (simp add: keeps_files_def sched_yield_def Let_def case_prod_beta frame_simps)

lemma validate_files_loop_ok:
  assumes "keeps_files yld" and "distinct idxs" and "set idxs \<inter> dom (map_of ch) = {}"
    and "changes old (checked_files (wl s)) ch"
    and "validate_files_loop S H yld idxs ch s = Some ((offline, ch'), s')"
  shows "changes old (checked_files (wl s')) ch' \<and> wl s' = (wl s) \<lparr> checked_files := checked_files (wl s') \<rparr>"
  using assms(2-5)
proof (induction idxs arbitrary: ch s)
  case (Cons i idxs)
  let ?s = "sched_yield H yld SCHED_VALIDATE_FILE s"
  have wl: "wl ?s = wl s" by (rule sched_yield_files [OF assms(1)])
  let ?f = "checked_files (wl s) ! i"
  show ?case
  proof (cases "length (checked_files (wl s)) \<le> i \<or> file_status ?f CURRENT_STATUS = FILE_STATUS_UNCONFIRMED \<or>
      file_status ?f CURRENT_STATUS = FILE_STATUS_DELETED")
    case True
    then have "validate_files_loop S H yld (i # idxs) ch s = validate_files_loop S H yld idxs ch ?s"
      using wl by (auto simp: Let_def)
    then show ?thesis using Cons.IH [of ch ?s] Cons.prems wl by simp
  next
    case False
    then obtain v s2 where v: "check_file S H ?f ?s = Some (v, s2)"
      using Cons.prems(4) wl by (auto simp: Let_def split: option.splits)
    have wl2: "wl s2 = wl s" using check_file_wl [OF v] wl by simp
    show ?thesis
    proof (cases "v = Karst_Offline")
      case True
      then show ?thesis using False Cons.prems(3,4) v wl wl2 by (auto simp: Let_def)
    next
      case ok: False
      obtain f' ch1 where j: "judge v i ?f ch = (f', ch1)" by (metis prod.exhaust)
      let ?s3 = "on_wl (\<lambda>w. w \<lparr> checked_files := (checked_files w)[i := f'] \<rparr>) s2"
      have i: "i < length old" "map_of ch i = None" using False Cons.prems(2,3) by (auto simp: changes_def dom_def)
      note c = changes_judge [OF Cons.prems(3) i j]
      have "validate_files_loop S H yld idxs ch1 ?s3 = Some ((offline, ch'), s')"
        using False ok Cons.prems(4) v wl j by (simp add: Let_def)
      moreover have "checked_files (wl ?s3) = (checked_files (wl s))[i := f']" by (simp add: frame_simps wl2)
      moreover have "set idxs \<inter> dom (map_of ch1) = {}" using c Cons.prems(1,2) by auto
      ultimately have "changes old (checked_files (wl s')) ch' \<and> wl s' = (wl ?s3) \<lparr> checked_files := checked_files (wl s') \<rparr>"
        using Cons.IH [of ch1 ?s3] c Cons.prems(1) by simp
      then show ?thesis by (simp add: frame_simps wl2)
    qed
  qed
qed simp

lemma moved_file:
  assumes "moved (Some lost) old cur" and "wf_file old"
  shows "wf_file cur" and "file_old_size cur = file_old_size old" and "small_file cur = small_file old"
    and "file_status cur CURRENT_STATUS = (if lost then FILE_STATUS_LOST else FILE_STATUS_VALID)"
    and "file_status old CURRENT_STATUS = (if lost then FILE_STATUS_VALID else FILE_STATUS_LOST)"
  using assms by (simp_all add: moved_def wl_simps split: if_splits)

text \<open>
  The statistics catch up with the files: \<open>gs\<close> is the list the books agree with, in which the
  remaining changed files still have their old entries.
\<close>

lemma update_specs_books:
  assumes "wl_stats.books w (gs @ rest)" and "distinct (map fst es)" and "length gs = length (checked_files w)"
    and "\<forall>(i, lost) \<in> set es. i < length gs \<and> moved (Some lost) (gs ! i) (checked_files w ! i) \<and>
           wf_file (gs ! i) \<and> small_file (gs ! i)"
    and "\<forall>i < length gs. i \<notin> fst ` set es \<longrightarrow> gs ! i = checked_files w ! i"
  shows "\<exists>w'. update_specs es w = Some w' \<and> wl_stats.books w' (checked_files w @ rest) \<and>
    w' = w \<lparr> wl_spec_info := wl_spec_info w' \<rparr>"
  using assms
proof (induction es arbitrary: w gs)
  case Nil
  then have "gs = checked_files w" by (intro nth_equalityI) simp_all
  then show ?case using Nil.prems(1) by simp
next
  case (Cons e es)
  obtain i lost where e: "e = (i, lost)" by (cases e)
  let ?f = "checked_files w ! i"
  have i: "i < length gs" "moved (Some lost) (gs ! i) ?f" "wf_file (gs ! i)" "small_file (gs ! i)"
    using Cons.prems(4) e by auto
  note m = moved_file [OF i(2,3)]
  let ?st = "if lost then FILE_STATUS_LOST else FILE_STATUS_VALID"
  let ?st' = "if lost then FILE_STATUS_VALID else FILE_STATUS_LOST"
  let ?w = "set_wl_spec2 ?st ?st' (file_old_size ?f) w"
  have "wl_stats.books ?w ((gs @ rest)[i := ?f])"
    using Cons.prems(1) i m by (intro wl_stats.books_move) (auto simp: nth_append)
  then have "wl_stats.books ?w (gs[i := ?f] @ rest)" using i(1) by (simp add: list_update_append)
  moreover have i': "i \<notin> fst ` set es" and "distinct (map fst es)" using Cons.prems(2) e by auto
  moreover have len: "length (gs[i := ?f]) = length (checked_files ?w)" using Cons.prems(3) by (simp add: set_wl_spec2_def Let_def)
  moreover have "checked_files ?w = checked_files w" by (simp add: set_wl_spec2_def Let_def)
  moreover have "\<forall>(j, l) \<in> set es. j < length (gs[i := ?f]) \<and> moved (Some l) (gs[i := ?f] ! j) (checked_files w ! j) \<and>
      wf_file (gs[i := ?f] ! j) \<and> small_file (gs[i := ?f] ! j)"
  proof clarify
    fix j l assume "(j, l) \<in> set es"
    then have "j \<noteq> i" using i' by force
    then show "j < length (gs[i := ?f]) \<and> moved (Some l) (gs[i := ?f] ! j) (checked_files w ! j) \<and>
      wf_file (gs[i := ?f] ! j) \<and> small_file (gs[i := ?f] ! j)" using Cons.prems(4) \<open>(j, l) \<in> set es\<close> by fastforce
  qed
  moreover have "\<forall>j < length (gs[i := ?f]). j \<notin> fst ` set es \<longrightarrow> gs[i := ?f] ! j = checked_files w ! j"
    using Cons.prems(5) e i(1) by (auto simp: nth_list_update)
  ultimately have IH: "\<exists>w'. update_specs es ?w = Some w' \<and> wl_stats.books w' (checked_files ?w @ rest) \<and>
      w' = ?w \<lparr> wl_spec_info := wl_spec_info w' \<rparr>"
    using Cons.IH [of ?w "gs[i := ?f]"] by simp
  have step: "update_specs (e # es) w = update_specs es ?w"
    using i(1) Cons.prems(3) e m(4) by (simp add: Let_def)
  have "?w \<lparr> wl_spec_info := x \<rparr> = w \<lparr> wl_spec_info := x \<rparr>" for x by (simp add: set_wl_spec2_def Let_def)
  then show ?case using IH step by auto
qed

lemma moved_wf: "moved r old cur \<Longrightarrow> wf_file old \<Longrightarrow> wf_file cur"
  by (cases r) (auto simp: moved_def wl_simps)

lemma changes_wf: "changes old cur ch \<Longrightarrow> list_all wf_file old \<Longrightarrow> list_all wf_file cur"
  by (auto simp: changes_def list_all_length intro: moved_wf)

lemma changes_update_specs:
  assumes "wl_stats.books w (old @ rest)" and "changes old (checked_files w) ch"
    and "list_all wf_file old" and "list_all small_file old"
  shows "\<exists>w'. update_specs ch w = Some w' \<and> wl_stats.books w' (checked_files w @ rest) \<and>
    w' = w \<lparr> wl_spec_info := wl_spec_info w' \<rparr>"
proof (rule update_specs_books [OF assms(1)])
  have ok: "omap_ok ch" and len: "length (checked_files w) = length old"
    and mv: "\<And>i. i < length old \<Longrightarrow> moved (map_of ch i) (old ! i) (checked_files w ! i)"
    and dm: "\<And>i. i \<in> dom (map_of ch) \<Longrightarrow> i < length old"
    using assms(2) by (simp_all add: changes_def)
  show dist: "distinct (map fst ch)" using ok by (simp add: omap_ok_def strict_sorted_iff)
  show "length old = length (checked_files w)" using len by simp
  show "\<forall>(i, lost) \<in> set ch. i < length old \<and> moved (Some lost) (old ! i) (checked_files w ! i) \<and>
      wf_file (old ! i) \<and> small_file (old ! i)"
  proof clarify
    fix i lost assume "(i, lost) \<in> set ch"
    then have m: "map_of ch i = Some lost" using dist by simp
    then have i: "i < length old" using dm [of i] by blast
    then show "i < length old \<and> moved (Some lost) (old ! i) (checked_files w ! i) \<and> wf_file (old ! i) \<and> small_file (old ! i)"
      using mv [OF i] m assms(3,4) by (simp add: list_all_length)
  qed
  show "\<forall>i < length old. i \<notin> fst ` set ch \<longrightarrow> old ! i = checked_files w ! i"
  proof clarify
    fix i assume "i < length old" and "i \<notin> fst ` set ch"
    then show "old ! i = checked_files w ! i"
      using mv [of i] by (simp add: map_of_eq_None_iff [symmetric] moved_def)
  qed
qed

lemma take_new_files_ok:
  "wl_inv w \<Longrightarrow> wl_inv (take_new_files w)" "small_files w \<Longrightarrow> small_files (take_new_files w)"
  "stats_agree (take_new_files w) = stats_agree w" "new_files (take_new_files w) = []"
  by (auto simp: take_new_files_def wl_inv_def small_files_def stats_agree_def)

section \<open>Properties of the validation of files\<close>



end
