(* ===== verification/Attestation.thy ===== *)
theory Attestation
  imports Identity
begin

text \<open>
  Remote attestation, \<open>src/enclave/identity/Identity.cpp\<close>: the enclave checks the answer of the
  Intel attestation service, certificate chain, signature, quote, and signs and uploads its
  identity.  OpenSSL is a parameter: a record of the functions the code calls.  The lemmas show
  that an identity is uploaded only after all checks, that \<open>url_decode\<close> inverts percent encoding,
  and what happens when memory runs out.
\<close>

section \<open>OpenSSL\<close>

text \<open>
  A certificate has type \<open>'x\<close>, a public key type \<open>'k\<close>.  A store holds one trusted certificate and
  is that certificate; a stack is the list of its certificates.  A function that returns a fresh
  object returns whether it could be made; a memory BIO is the text written to it.
\<close>

record ('x, 'k) openssl =
  BIO_new_mem :: bool
  BIO_write_mem :: "string \<Rightarrow> int"
  PEM_read_bio_X509 :: "string \<Rightarrow> 'x option"
  BIO_read_base64 :: "string \<Rightarrow> bytes option"
  sk_X509_new_null :: bool
  X509_STORE_new :: bool
  X509_STORE_add_cert :: "'x option \<Rightarrow> int"
  X509_STORE_CTX_new :: bool
  X509_STORE_CTX_init :: "'x option \<Rightarrow> 'x list \<Rightarrow> int"
  X509_verify_cert :: "'x option \<Rightarrow> 'x list \<Rightarrow> int"
  X509_get_pubkey :: "'x \<Rightarrow> 'k option"
  EVP_MD_CTX_new :: bool
  EVP_DigestVerifyInit :: "'k \<Rightarrow> int"
  EVP_DigestVerifyUpdate :: "bytes \<Rightarrow> int"
  EVP_DigestVerifyFinal :: "'k \<Rightarrow> bytes \<Rightarrow> bytes \<Rightarrow> int"

section \<open>Text\<close>

text \<open>The text of a C string ends at its first null character.\<close>

definition c_str :: "string \<Rightarrow> string" where
  "c_str s = takeWhile (\<lambda>c. c \<noteq> CHR 0x00) s"

text \<open>\<open>std::string::substr\<close> throws when it starts behind the end.\<close>

definition substr :: "string \<Rightarrow> nat \<Rightarrow> nat \<Rightarrow> string option" where
  "substr s pos n = (if length s < pos then None else Some (take n (drop pos s)))"

text \<open>The result of \<open>find\<close> as a number: \<open>npos\<close> when there is nothing.\<close>

definition find_pos :: "string \<Rightarrow> string \<Rightarrow> nat \<Rightarrow> nat" where
  "find_pos s p pos = (case string_find s p pos of Some n \<Rightarrow> n | None \<Rightarrow> 2 ^ 64 - 1)"

definition isxdigit :: "char \<Rightarrow> bool" where
  "isxdigit c \<longleftrightarrow> (let n = of_char c :: nat in is_digit c \<or> (65 \<le> n \<and> n \<le> 70) \<or> (97 \<le> n \<and> n \<le> 102))"

definition xdigit_value :: "char \<Rightarrow> nat" where
  "xdigit_value c = (let n = of_char c in if is_digit c then n - 48 else if n \<ge> 97 then n - 87 else n - 55)"

text \<open>
  \<open>strtoul\<close> in base 16: the value, negative after a minus sign, and the text where the conversion
  stopped, which is the whole text when there was no digit.
\<close>

definition strtoul16 :: "string \<Rightarrow> int \<times> string" where
  "strtoul16 s =
     (let s0 = c_str s;
          s1 = dropWhile isspace s0;
          neg = (s1 \<noteq> [] \<and> hd s1 = CHR ''-'');
          s2 = (if s1 \<noteq> [] \<and> (hd s1 = CHR ''-'' \<or> hd s1 = CHR ''+'') then tl s1 else s1);
          s3 = (if length s2 \<ge> 3 \<and> s2 ! 0 = CHR ''0'' \<and> (s2 ! 1 = CHR ''x'' \<or> s2 ! 1 = CHR ''X'') \<and> isxdigit (s2 ! 2)
                then drop 2 s2 else s2);
          ds = takeWhile isxdigit s3;
          v = int (foldl (\<lambda>a c. 16 * a + xdigit_value c) 0 ds)
      in if ds = [] then (0, s0) else (if neg then - v else v, dropWhile isxdigit s3))"

text \<open>
  Decoding a percent-encoded text.  \<open>None\<close> is an exception: too few characters after a percent sign,
  or two that are not read completely.
\<close>

fun url_decode :: "string \<Rightarrow> string option" where
  "url_decode [] = Some []"
| "url_decode (c # cs) =
     (if c = CHR ''+'' then map_option ((#) (CHR '' '')) (url_decode cs)
      else if c = CHR ''%'' then
        (if length cs < 2 then None
         else case strtoul16 (take 2 cs) of (v, e) \<Rightarrow>
           if e \<noteq> [] then None
           else map_option ((#) (char_of (nat (v mod 256)))) (url_decode (drop 2 cs)))
      else map_option ((#) c) (url_decode cs))"

section \<open>Certificates and signatures\<close>

definition INTELSGXATTROOTCA :: string where
  "INTELSGXATTROOTCA = concat (map (\<lambda>l. l @ [CHR 0x0A]) [
     ''-----BEGIN CERTIFICATE-----'',
     ''MIIFSzCCA7OgAwIBAgIJANEHdl0yo7CUMA0GCSqGSIb3DQEBCwUAMH4xCzAJBgNV'',
     ''BAYTAlVTMQswCQYDVQQIDAJDQTEUMBIGA1UEBwwLU2FudGEgQ2xhcmExGjAYBgNV'',
     ''BAoMEUludGVsIENvcnBvcmF0aW9uMTAwLgYDVQQDDCdJbnRlbCBTR1ggQXR0ZXN0'',
     ''YXRpb24gUmVwb3J0IFNpZ25pbmcgQ0EwIBcNMTYxMTE0MTUzNzMxWhgPMjA0OTEy'',
     ''MzEyMzU5NTlaMH4xCzAJBgNVBAYTAlVTMQswCQYDVQQIDAJDQTEUMBIGA1UEBwwL'',
     ''U2FudGEgQ2xhcmExGjAYBgNVBAoMEUludGVsIENvcnBvcmF0aW9uMTAwLgYDVQQD'',
     ''DCdJbnRlbCBTR1ggQXR0ZXN0YXRpb24gUmVwb3J0IFNpZ25pbmcgQ0EwggGiMA0G'',
     ''CSqGSIb3DQEBAQUAA4IBjwAwggGKAoIBgQCfPGR+tXc8u1EtJzLA10Feu1Wg+p7e'',
     ''LmSRmeaCHbkQ1TF3Nwl3RmpqXkeGzNLd69QUnWovYyVSndEMyYc3sHecGgfinEeh'',
     ''rgBJSEdsSJ9FpaFdesjsxqzGRa20PYdnnfWcCTvFoulpbFR4VBuXnnVLVzkUvlXT'',
     ''L/TAnd8nIZk0zZkFJ7P5LtePvykkar7LcSQO85wtcQe0R1Raf/sQ6wYKaKmFgCGe'',
     ''NpEJUmg4ktal4qgIAxk+QHUxQE42sxViN5mqglB0QJdUot/o9a/V/mMeH8KvOAiQ'',
     ''byinkNndn+Bgk5sSV5DFgF0DffVqmVMblt5p3jPtImzBIH0QQrXJq39AT8cRwP5H'',
     ''afuVeLHcDsRp6hol4P+ZFIhu8mmbI1u0hH3W/0C2BuYXB5PC+5izFFh/nP0lc2Lf'',
     ''6rELO9LZdnOhpL1ExFOq9H/B8tPQ84T3Sgb4nAifDabNt/zu6MmCGo5U8lwEFtGM'',
     ''RoOaX4AS+909x00lYnmtwsDVWv9vBiJCXRsCAwEAAaOByTCBxjBgBgNVHR8EWTBX'',
     ''MFWgU6BRhk9odHRwOi8vdHJ1c3RlZHNlcnZpY2VzLmludGVsLmNvbS9jb250ZW50'',
     ''L0NSTC9TR1gvQXR0ZXN0YXRpb25SZXBvcnRTaWduaW5nQ0EuY3JsMB0GA1UdDgQW'',
     ''BBR4Q3t2pn680K9+QjfrNXw7hwFRPDAfBgNVHSMEGDAWgBR4Q3t2pn680K9+Qjfr'',
     ''NXw7hwFRPDAOBgNVHQ8BAf8EBAMCAQYwEgYDVR0TAQH/BAgwBgEB/wIBADANBgkq'',
     ''hkiG9w0BAQsFAAOCAYEAeF8tYMXICvQqeXYQITkV2oLJsp6J4JAqJabHWxYJHGir'',
     ''IEqucRiJSSx+HjIJEUVaj8E0QjEud6Y5lNmXlcjqRXaCPOqK0eGRz6hi+ripMtPZ'',
     ''sFNaBwLQVV905SDjAzDzNIDnrcnXyB4gcDFCvwDFKKgLRjOB/WAqgscDUoGq5ZVi'',
     ''zLUzTqiQPmULAQaB9c6Oti6snEFJiCQ67JLyW/E83/frzCmO5Ru6WjU4tmsmy8Ra'',
     ''Ud4APK0wZTGtfPXU7w+IBdG5Ez0kE1qzxGQaL4gINJ1zMyleDnbuS8UicjJijvqA'',
     ''152Sq049ESDz+1rRGc2NVEqh1KaGXmtXvqxXcTB+Ljy5Bw2ke0v8iGngFBPqCTVB'',
     ''3op5KBG3RjbF6RRSzwzuWfL7QErNC8WEy5yDVARzTA5+xmBc388v9Dm21HGfcC8O'',
     ''DD+gT9sSpssq0ascmvH49MOgjt1yoysLtdCtJW/9FZpoOypaHx0R+mJTLwPXVMrv'',
     ''DaVzWh5aiEx+idkSGMnX'']) @
     ''-----END CERTIFICATE-----''"

definition cert_load_size :: "('x, 'k) openssl \<Rightarrow> string \<Rightarrow> nat \<Rightarrow> 'x option" where
  "cert_load_size X pemdata sz =
     (if \<not> BIO_new_mem X then None
      else if BIO_write_mem X (take sz pemdata) \<noteq> cast_int (int sz) then None
      else PEM_read_bio_X509 X (take sz pemdata))"

definition cert_load :: "('x, 'k) openssl \<Rightarrow> string \<Rightarrow> 'x option" where
  "cert_load X pemdata = cert_load_size X pemdata (length (c_str pemdata))"

definition cert_stack_build :: "('x, 'k) openssl \<Rightarrow> 'x list \<Rightarrow> 'x list option" where
  "cert_stack_build X certs = (if \<not> sk_X509_new_null X then None else Some certs)"

definition cert_verify :: "('x, 'k) openssl \<Rightarrow> 'x option \<Rightarrow> 'x list \<Rightarrow> bool" where
  "cert_verify X store chain =
     (if \<not> X509_STORE_CTX_new X then False
      else if X509_STORE_CTX_init X store chain \<noteq> 1 then False
      else X509_verify_cert X store chain = 1)"

definition sha256_verify :: "('x, 'k) openssl \<Rightarrow> bytes \<Rightarrow> bytes \<Rightarrow> 'k \<Rightarrow> bool" where
  "sha256_verify X msg sig pkey =
     (if \<not> EVP_MD_CTX_new X then False
      else if EVP_DigestVerifyInit X pkey \<noteq> 1 then False
      else if EVP_DigestVerifyUpdate X msg \<noteq> 1 then False
      else EVP_DigestVerifyFinal X pkey msg sig = 1)"

definition cert_init_ca :: "('x, 'k) openssl \<Rightarrow> 'x option \<Rightarrow> 'x option" where
  "cert_init_ca X cert =
     (if \<not> X509_STORE_new X then None
      else if X509_STORE_add_cert X cert \<noteq> 1 then None
      else cert)"

definition base64_decode :: "malloc \<Rightarrow> ('x, 'k) openssl \<Rightarrow> string \<Rightarrow> bytes option" where
  "base64_decode mm X msg =
     (let msg = c_str msg in
      if \<not> enc_malloc mm (length msg + 1) then None else BIO_read_base64 X msg)"

text \<open>
  The loop that cuts the chain at every \<open>-----BEGIN\<close> behind the first character and loads the
  pieces.  The result has the first piece and the certificates.
\<close>

lemma string_find_bounds: "string_find s p pos = Some n \<Longrightarrow> pos \<le> n \<and> n \<le> length s"
  by (auto simp: string_find_def split: if_splits dest!: find_sub_Some)

function load_certs :: "('x, 'k) openssl \<Rightarrow> string \<Rightarrow> nat \<Rightarrow> string \<Rightarrow> 'x list \<Rightarrow> (string \<times> 'x list) option" where
  "load_certs X certchain cstart first certvec =
     (let cend = string_find certchain ''-----BEGIN'' (cstart + 1);
          len = (case cend of None \<Rightarrow> length certchain | Some e \<Rightarrow> e) - cstart;
          piece = take len (drop cstart certchain);
          first = (if first = [] then piece else first)
      in case cert_load X piece of
           None \<Rightarrow> None
         | Some cert \<Rightarrow> (case cend of
             None \<Rightarrow> Some (first, certvec @ [cert])
           | Some e \<Rightarrow> load_certs X certchain e first (certvec @ [cert])))"
  by pat_completeness auto
termination
  by (relation "measure (\<lambda>(X, certchain, cstart, first, certvec). length certchain - cstart)")
    (auto dest!: string_find_bounds [OF sym])

declare load_certs.simps [simp del]

section \<open>Verification\<close>

text \<open>
  The quote in the body: from behind the tag to two characters before the end.  Positions are
  \<open>int\<close>s.
\<close>

definition quote_text :: "string \<Rightarrow> string option" where
  "quote_text isv_body =
     (let quoteSPos = cast_int (int (find_pos isv_body ([CHR 0x22] @ IAS_ISV_BODY_TAG @ [CHR 0x22] @ '':'' @ [CHR 0x22]) 0));
          quoteSPos = cast_int (int (find_pos isv_body ([CHR 0x22] @ '':'' @ [CHR 0x22]) (size_of_int quoteSPos))) + 3;
          quoteEPos = cast_int (int (length isv_body)) - 2
      in substr isv_body (size_of_int quoteSPos) (size_of_int (quoteEPos - quoteSPos)))"

text \<open>
  \<open>sgx_quote_t\<close> has 436 bytes; its report body starts at byte 48, with the measurement at byte 64
  and the report data at byte 320 of the body.
\<close>

abbreviation (input) quote_size :: nat where
  "quote_size \<equiv> 436"

definition quote_mr_enclave :: "bytes \<Rightarrow> bytes" where
  "quote_mr_enclave q = take 32 (drop 112 (q @ replicate (quote_size - length q) 0))"

definition quote_report_data :: "bytes \<Rightarrow> bytes" where
  "quote_report_data q = take 64 (drop 368 (q @ replicate (quote_size - length q) 0))"

text \<open>The text of the signing certificate between its first and last line, without line breaks.\<close>

definition cert_body :: "string \<Rightarrow> string option" where
  "cert_body certchain_1 =
     (let spos = (find_pos certchain_1 (''-----BEGIN CERTIFICATE-----'' @ [CHR 0x0A]) 0 + 28) mod 2 ^ 64;
          epos = find_pos certchain_1 ([CHR 0x0A] @ ''-----END CERTIFICATE-----'') 0
      in case substr certchain_1 spos (nat ((int epos - int spos) mod 2 ^ 64)) of
           None \<Rightarrow> None
         | Some c \<Rightarrow> replace c [CHR 0x0A] [])"

definition identity_json :: "malloc \<Rightarrow> string \<Rightarrow> string \<Rightarrow> string \<Rightarrow> string \<Rightarrow> bytes \<Rightarrow> json" where
  "identity_json mm cert ias_sig isv_body account signature =
     json_set (json_set (json_set (json_set (json_set JNull
       IAS_CERT (JString cert))
       IAS_SIG (JString ias_sig))
       IAS_ISV_BODY (JString isv_body))
       IAS_CHAIN_ACCOUNT_ID (JString account))
       IAS_REPORT_SIG (JString (hexstring_safe mm signature))"

text \<open>
  What is signed.  \<open>None\<close> is a copy from the null pointer that \<open>hex_string_to_bytes\<close> returns for an
  account it cannot read.
\<close>

definition identity_data :: "malloc \<Rightarrow> string \<Rightarrow> string \<Rightarrow> string \<Rightarrow> string \<Rightarrow> bytes option" where
  "identity_data mm cert ias_sig isv_body account =
     (case hex_string_to_bytes mm account (length account) of
        Some p \<Rightarrow> Some (bytes_of_string (cert @ ias_sig @ isv_body) @ take (length account div 2) p)
      | None \<Rightarrow> if length account div 2 = 0 then Some (bytes_of_string (cert @ ias_sig @ isv_body)) else None)"

definition sign_and_upload ::
  "'h sgx \<Rightarrow> 'h ocalls \<Rightarrow> string \<Rightarrow> string \<Rightarrow> string \<Rightarrow> bytes \<Rightarrow> 'h enclave \<Rightarrow> crust_status \<times> 'h enclave" where
  "sign_and_upload S H cert ias_sig isv_body org_data s =
     (case call_host (sgx_ecdsa_sign S org_data (get_pri_key (wl s))) s of
        (None, s1) \<Rightarrow> (CRUST_SIGN_PUBKEY_FAILED, s1)
      | (Some signature, s1) \<Rightarrow>
          call_host (ocall_upload_identity H (json_dump (alloc S)
            (identity_json (alloc S) cert ias_sig isv_body (get_account_id (wl s)) signature))) s1)"

text \<open>
  From the check of the quote to the upload.  Running out of memory leaves the status at
  \<open>CRUST_SUCCESS\<close>; a quote longer than its structure is copied behind its end.
\<close>

definition check_quote_and_upload ::
  "('x, 'k) openssl \<Rightarrow> 'h sgx \<Rightarrow> 'h ocalls \<Rightarrow> string \<Rightarrow> string \<Rightarrow> string \<Rightarrow> bytes \<Rightarrow> 'h enclave
     \<Rightarrow> (crust_status \<times> 'h enclave) option" where
  "check_quote_and_upload X S H certchain_1 ias_sig isv_body quote s =
     (if \<not> enc_malloc (alloc S) quote_size then Some (CRUST_SUCCESS, s)
      else if quote_size < length quote then None
      else if quote_report_data quote \<noteq> get_pub_key (wl s) then Some (CRUST_IAS_REPORTDATA_NE, s)
      else if quote_mr_enclave quote \<noteq> get_mr_enclave (wl s) then Some (CRUST_IAS_BADMEASUREMENT, s)
      else case call_host (sgx_ecc256_open_context S) s of (sgx_status, s1) \<Rightarrow>
        if sgx_status \<noteq> SGX_SUCCESS then Some (CRUST_SIGN_PUBKEY_FAILED, s1)
        else do {
          cert \<leftarrow> cert_body certchain_1;
          let account = get_account_id (wl s);
          let org_data_len = length cert + length ias_sig + length isv_body + length account div 2;
          if \<not> alloc S (uint32 org_data_len) 0 then Some (CRUST_SUCCESS, s1)
          else if uint32 org_data_len < org_data_len then None
          else do {
            org_data \<leftarrow> identity_data (alloc S) cert ias_sig isv_body account;
            Some (sign_and_upload S H cert ias_sig isv_body org_data s1)
          }
        })"

text \<open>
  The whole function.  The clean-up frees \<open>iasQuote\<close> whenever it is not null; before the quote is
  reached the variable is not initialised, and \<open>junk\<close> says whether it happens to be non-null then.
\<close>

definition bail_out :: "bool \<Rightarrow> crust_status \<Rightarrow> 'h enclave \<Rightarrow> (crust_status \<times> 'h enclave) option" where
  "bail_out junk status s = (if junk then None else Some (status, s))"

definition id_verify_and_upload_identity ::
  "('x, 'k) openssl \<Rightarrow> 'h sgx \<Rightarrow> 'h ocalls \<Rightarrow> bool \<Rightarrow> string list \<Rightarrow> 'h enclave \<Rightarrow> (crust_status \<times> 'h enclave) option" where
  "id_verify_and_upload_identity X S H junk response s =
     (if length response < 1 then None
      else if response ! 0 = [] then Some (CRUST_IAS_BAD_CERTIFICATE, s)
      else case url_decode (response ! 0) of
        None \<Rightarrow> Some (CRUST_IAS_BAD_CERTIFICATE, s)
      | Some certchain \<Rightarrow> (case load_certs X certchain 0 [] [] of
        None \<Rightarrow> Some (CRUST_IAS_BAD_CERTIFICATE, s)
      | Some (certchain_1, certvec) \<Rightarrow>
        if \<not> enc_malloc (alloc S) (8 * (length certvec + 1)) then Some (CRUST_IAS_INTERNAL_ERROR, s)
        else (case cert_stack_build X certvec of
          None \<Rightarrow> bail_out junk CRUST_IAS_INTERNAL_ERROR s
        | Some stack \<Rightarrow>
          if \<not> cert_verify X (cert_init_ca X (PEM_read_bio_X509 X INTELSGXATTROOTCA)) stack
          then bail_out junk CRUST_IAS_BAD_CERTIFICATE s
          else if length response < 2 then None
          else if response ! 1 = [] then bail_out junk CRUST_IAS_BAD_SIGNATURE s
          else case base64_decode (alloc S) X (response ! 1) of
            None \<Rightarrow> bail_out junk CRUST_IAS_BAD_SIGNATURE s
          | Some sig \<Rightarrow> (case X509_get_pubkey X (hd certvec) of
            None \<Rightarrow> bail_out junk CRUST_IAS_GETPUBKEY_FAILED s
          | Some pkey \<Rightarrow>
            if length response < 3 then None
            else if \<not> sha256_verify X (bytes_of_string (response ! 2)) sig pkey
            then bail_out junk CRUST_IAS_BAD_SIGNATURE s
            else do {
              ias_quote_body \<leftarrow> quote_text (response ! 2);
              (case base64_decode (alloc S) X ias_quote_body of
                 None \<Rightarrow> bail_out junk CRUST_IAS_BAD_BODY s
               | Some quote \<Rightarrow>
                   check_quote_and_upload X S H certchain_1 (response ! 1) (response ! 2) quote s)
            }))))"

section \<open>Lemmas\<close>

lemma sign_and_upload_wl: "sign_and_upload S H cert ias_sig isv_body data s = (st, s') \<Longrightarrow> wl s' = wl s"
  by (auto simp: sign_and_upload_def split: prod.splits option.splits dest!: call_host_eq)

lemma sign_and_upload_success:
  "sign_and_upload S H cert ias_sig isv_body data s = (CRUST_SUCCESS, s') \<Longrightarrow>
     \<exists>signature h h'. sgx_ecdsa_sign S data (get_pri_key (wl s)) h = (Some signature, h') \<and>
       ocall_upload_identity H (json_dump (alloc S)
         (identity_json (alloc S) cert ias_sig isv_body (get_account_id (wl s)) signature)) h' = (CRUST_SUCCESS, hst s')"
  by (auto simp: sign_and_upload_def call_host_def split: prod.splits option.splits) blast

text \<open>The outcomes of the last stage.\<close>

lemma check_quote_and_upload_cases [consumes 1, case_names memory report_data measurement key signed]:
  assumes "check_quote_and_upload X S H certchain_1 ias_sig isv_body quote s = Some (st, s')"
  obtains "wl s' = wl s" "alloc S \<noteq> mem_ok"
  | "st = CRUST_IAS_REPORTDATA_NE" "s' = s"
  | "st = CRUST_IAS_BADMEASUREMENT" "s' = s"
  | "st = CRUST_SIGN_PUBKEY_FAILED" "wl s' = wl s"
  | cert data s1 where "quote_report_data quote = get_pub_key (wl s)" "quote_mr_enclave quote = get_mr_enclave (wl s)"
      "cert_body certchain_1 = Some cert" "wl s1 = wl s"
      "identity_data (alloc S) cert ias_sig isv_body (get_account_id (wl s)) = Some data"
      "sign_and_upload S H cert ias_sig isv_body data s1 = (st, s')"
proof -
  obtain sgx_status s1 where s1: "call_host (sgx_ecc256_open_context S) s = (sgx_status, s1)" by fastforce
  then have "wl s1 = wl s" by (auto dest: call_host_eq)
  moreover have "\<not> enc_malloc (alloc S) n \<Longrightarrow> alloc S \<noteq> mem_ok" "\<not> alloc S n k \<Longrightarrow> alloc S \<noteq> mem_ok" for n k
    by auto
  ultimately show ?thesis using assms s1 that unfolding check_quote_and_upload_def
    by (auto simp: Let_def bind_eq_Some_conv split: if_splits)
qed

lemma check_quote_and_upload_wl:
  "check_quote_and_upload X S H c sig body quote s = Some (st, s') \<Longrightarrow> wl s' = wl s"
  by (cases rule: check_quote_and_upload_cases) (auto dest: sign_and_upload_wl)

text \<open>The function ends before the quote, with an error, or in the last stage after every check.\<close>

lemma id_verify_cases [consumes 1, case_names early verified]:
  assumes "id_verify_and_upload_identity X S H junk response s = Some (st, s')"
  obtains "st \<noteq> CRUST_SUCCESS" "s' = s"
  | certchain certchain_1 certvec sig pkey body quote where
      "url_decode (response ! 0) = Some certchain" "load_certs X certchain 0 [] [] = Some (certchain_1, certvec)"
      "cert_verify X (cert_init_ca X (PEM_read_bio_X509 X INTELSGXATTROOTCA)) certvec"
      "base64_decode (alloc S) X (response ! 1) = Some sig" "X509_get_pubkey X (hd certvec) = Some pkey"
      "sha256_verify X (bytes_of_string (response ! 2)) sig pkey"
      "quote_text (response ! 2) = Some body" "base64_decode (alloc S) X body = Some quote"
      "check_quote_and_upload X S H certchain_1 (response ! 1) (response ! 2) quote s = Some (st, s')"
  using assms unfolding id_verify_and_upload_identity_def bail_out_def cert_stack_build_def
  by (auto simp: bind_eq_Some_conv split: if_splits option.splits)

lemma id_verify_wl:
  "id_verify_and_upload_identity X S H junk response s = Some (st, s') \<Longrightarrow> wl s' = wl s"
  by (cases rule: id_verify_cases) (auto intro: check_quote_and_upload_wl)

section \<open>Percent encoding\<close>

text \<open>An encoder: it quotes the two special characters and whatever else it likes to.\<close>

definition url_encode :: "(char \<Rightarrow> bool) \<Rightarrow> string \<Rightarrow> string" where
  "url_encode also s = concat (map (\<lambda>c.
     if also c \<or> c = CHR ''+'' \<or> c = CHR ''%'' then CHR ''%'' # hex_digits (byte_of_char c) else [c]) s)"

lemma hex_nibble_digit:
  assumes "n < 16"
  shows "isxdigit (hex_nibble n)" "\<not> isspace (hex_nibble n)" "xdigit_value (hex_nibble n) = n"
    "hex_nibble n \<noteq> CHR 0x00" "hex_nibble n \<noteq> CHR ''-''" "hex_nibble n \<noteq> CHR ''+''"
proof -
  have o: "of_char (hex_nibble n) = (if n < 10 then n + 48 else n + 87)"
    using assms by (simp add: hex_nibble_def)
  show "isxdigit (hex_nibble n)" using assms by (simp add: isxdigit_def is_digit_def o)
  have "isspace c \<Longrightarrow> of_char c \<le> (32 :: nat)" for c by (auto simp: isspace_def)
  from this [of "hex_nibble n"] show "\<not> isspace (hex_nibble n)" using o by (auto split: if_splits)
  show "xdigit_value (hex_nibble n) = n" using assms by (auto simp: xdigit_value_def is_digit_def o)
  show "hex_nibble n \<noteq> CHR 0x00" "hex_nibble n \<noteq> CHR ''-''" "hex_nibble n \<noteq> CHR ''+''"
    using o by (auto split: if_splits)
qed

lemma strtoul16_byte: "strtoul16 (hex_digits b) = (int (unat b), [])"
proof -
  have "unat b < 256" by simp
  then have n: "unat b div 16 < 16" "unat b mod 16 < 16" by arith+
  note d = hex_nibble_digit [OF n(1)] hex_nibble_digit [OF n(2)]
  show ?thesis
    by (simp add: hex_digits_eq unsigned_char_to_hex_def strtoul16_def c_str_def Let_def d)
qed

lemma url_decode_quoted:
  "url_decode (CHR ''%'' # hex_digits b @ r) = map_option ((#) (char_of_byte b)) (url_decode r)"
proof -
  have small: "k < 256 \<Longrightarrow> nat (int k mod 256) = k" for k :: nat by simp
  have "char_of (nat (int (unat b) mod 256)) = char_of_byte b"
    unfolding char_of_byte_def small [OF unat_byte_less] ..
  moreover have "take 2 (hex_digits b @ r) = hex_digits b" "drop 2 (hex_digits b @ r) = r" by simp_all
  ultimately show ?thesis using strtoul16_byte [of b] by (simp del: of_nat_unat int_nat_eq)
qed

section \<open>An answer to verify\<close>

text \<open>
  An OpenSSL whose certificates are their texts and that accepts every signature, and a quote with
  the key and the measurement of the enclave.
\<close>

definition demo_openssl :: "(string, bytes) openssl" where
  "demo_openssl = \<lparr>BIO_new_mem = True, BIO_write_mem = (\<lambda>t. int (length t)), PEM_read_bio_X509 = Some,
     BIO_read_base64 = (\<lambda>_. Some (replicate 432 2)), sk_X509_new_null = True, X509_STORE_new = True,
     X509_STORE_add_cert = (\<lambda>_. 1), X509_STORE_CTX_new = True, X509_STORE_CTX_init = (\<lambda>_ _. 1),
     X509_verify_cert = (\<lambda>store _. if store = None then 0 else 1), X509_get_pubkey = (\<lambda>_. Some []),
     EVP_MD_CTX_new = True, EVP_DigestVerifyInit = (\<lambda>_. 1), EVP_DigestVerifyUpdate = (\<lambda>_. 1),
     EVP_DigestVerifyFinal = (\<lambda>_ _ _. 1)\<rparr>"

definition demo_chain :: string where
  "demo_chain = ''-----BEGIN CERTIFICATE-----'' @ [CHR 0x0A] @ ''A'' @ [CHR 0x0A] @ ''-----END CERTIFICATE-----''"

definition demo_isv_body :: string where
  "demo_isv_body = ''{'' @ [CHR 0x22] @ IAS_ISV_BODY_TAG @ [CHR 0x22] @ '':'' @ [CHR 0x22] @ ''q'' @ [CHR 0x22] @ ''}''"

definition demo_node :: "unit enclave" where
  "demo_node = demo_enclave (set_mr_enclave (replicate 32 2) (set_key_pair \<lparr>kp_pub = replicate 64 2, kp_pri = replicate 32 1\<rparr>
     (set_account_id ''ab'' demo_workload))) ()"

lemma demo_texts:
  "url_decode demo_chain = Some demo_chain"
  "load_certs demo_openssl demo_chain 0 [] [] = Some (demo_chain, [demo_chain])"
  "quote_text demo_isv_body = Some ''q''"
  by code_simp+

lemma demo_cert: "cert_body demo_chain = Some ''A''"
proof -
  have "find_pos demo_chain (''-----BEGIN CERTIFICATE-----'' @ [CHR 0x0A]) 0 = 0" "find_pos demo_chain ([CHR 0x0A] @ ''-----END CERTIFICATE-----'') 0 = 29"
    by code_simp+
  then show ?thesis
    by (simp add: cert_body_def Let_def substr_def) (simp add: demo_chain_def replace_def replace_loop.simps string_find_def find_sub.simps)
qed

lemma demo_checks:
  "cert_stack_build demo_openssl certs = Some certs" "cert_init_ca demo_openssl (Some r) = Some r"
  "cert_verify demo_openssl (Some r) certs" "base64_decode mem_ok demo_openssl m = Some (replicate 432 2)"
  "X509_get_pubkey demo_openssl c = Some []" "sha256_verify demo_openssl msg sig k"
  "PEM_read_bio_X509 demo_openssl p = Some p" "\<And>certs. X509_verify_cert demo_openssl None certs \<noteq> 1"
  by (simp_all add: demo_openssl_def cert_stack_build_def cert_init_ca_def cert_verify_def base64_decode_def sha256_verify_def)

lemma demo_upload:
  "\<exists>s'. check_quote_and_upload demo_openssl quiet_sgx quiet_ocalls demo_chain ''s'' demo_isv_body (replicate 432 2) demo_node = Some (CRUST_SUCCESS, s')"
proof -
  have q: "quote_report_data (replicate 432 2) = get_pub_key (wl demo_node)" "quote_mr_enclave (replicate 432 2) = get_mr_enclave (wl demo_node)"
    by (simp_all add: quote_report_data_def quote_mr_enclave_def demo_node_def get_pub_key_def get_mr_enclave_def set_mr_enclave_def set_key_pair_def set_account_id_def)
  have acc: "get_account_id (wl demo_node) = ''ab''" by (simp add: demo_node_def get_account_id_def set_mr_enclave_def set_key_pair_def set_account_id_def)
  have len: "uint32 (length ''A'' + length ''s'' + length demo_isv_body + 1) = length ''A'' + length ''s'' + length demo_isv_body + 1"
    by (intro uint32_id) (simp add: demo_isv_body_def)
  have "\<exists>data. identity_data mem_ok ''A'' ''s'' demo_isv_body ''ab'' = Some data"
    by (simp add: identity_data_def hex_string_to_bytes_def)
  then show ?thesis using len
    by (auto simp: check_quote_and_upload_def q acc demo_cert sign_and_upload_def call_host_def quiet_sgx_def quiet_ocalls_def)
qed

section \<open>Properties\<close>


text \<open>
  \<open>url_decode\<close> undoes percent encoding: for every encoder that quotes the plus and the percent
  sign, and possibly more, as a percent sign with two hexadecimal digits, decoding the encoded text
  gives the text.
\<close>

theorem url_decode_encode: "url_decode (url_encode also s) = Some s"
proof (induction s)
  case (Cons c s)
  then show ?case using url_decode_quoted [of "byte_of_char c" "url_encode also s"]
    by (auto simp: url_encode_def simp del: url_decode.simps) (auto simp: url_encode_def)
qed (simp add: url_encode_def)

end
