(* ===== verification/Enclave.thy ===== *)
theory Enclave
  imports Validator Metadata Attestation
begin

text \<open>
  The entry points of the enclave, \<open>src/enclave/Enclave.cpp\<close>: every ECALL the host can make, with
  its guard against a running upgrade and its entry in the scheduler, and one turn of the main loop.
  A run of the enclave is a sequence of such calls.  The lemmas show that every call keeps the
  invariant of the workload, whatever the host answers, so that it holds in every state the host
  can drive the enclave to.
\<close>

section \<open>Scheduler entries\<close>

definition enter :: "sched_process \<Rightarrow> 'h enclave \<Rightarrow> 'h enclave" where
  "enter pid s = s \<lparr> g_func_m := sched_add pid (g_func_m s) \<rparr>"

definition leave :: "sched_process \<Rightarrow> 'h enclave \<Rightarrow> 'h enclave" where
  "leave pid s = s \<lparr> g_func_m := sched_del pid (g_func_m s) \<rparr>"

definition upgrading :: "'h enclave \<Rightarrow> bool" where
  "upgrading s \<longleftrightarrow> get_upgrade_status (wl s) = ENC_UPGRADE_STATUS_PROCESS"

section \<open>Srd\<close>

definition ecall_srd_increase :: "'h sgx \<Rightarrow> 'h ocalls \<Rightarrow> string \<Rightarrow> 'h enclave \<Rightarrow> 'h enclave" where
  "ecall_srd_increase S H path s =
     (if upgrading s then s else leave SCHED_SRD_CHANGE (srd_increase S H path (enter SCHED_SRD_CHANGE s)))"

definition ecall_srd_decrease :: "'h sgx \<Rightarrow> 'h ocalls \<Rightarrow> int \<Rightarrow> 'h enclave \<Rightarrow> (nat \<times> 'h enclave) option" where
  "ecall_srd_decrease S H change s =
     map_option (\<lambda>(ret, s1). (ret, leave SCHED_SRD_CHANGE s1)) (srd_decrease S H change [] (enter SCHED_SRD_CHANGE s))"

definition ecall_srd_set_change :: "int \<Rightarrow> 'h enclave \<Rightarrow> 'h enclave" where
  "ecall_srd_set_change change s = set_srd_change (get_srd_change s + change) s"

definition ecall_srd_update_metadata ::
  "'h sgx \<Rightarrow> 'h ocalls \<Rightarrow> ('h enclave \<Rightarrow> 'h enclave) \<Rightarrow> string \<Rightarrow> 'h enclave \<Rightarrow> 'h enclave option" where
  "ecall_srd_update_metadata S H yld hashs s =
     map_option (leave SCHED_SRD_CHECK_RESERVED)
       (srd_update_metadata S H yld hashs (enter SCHED_SRD_CHECK_RESERVED s))"

section \<open>Main loop\<close>

text \<open>
  One turn of the endless loop.  The callback is the host's answer to \<open>ocall_srd_change\<close>, which
  calls into the enclave again.
\<close>

definition main_loop_turn ::
  "'h sgx \<Rightarrow> 'h ocalls \<Rightarrow> ('h enclave \<Rightarrow> 'h enclave) \<Rightarrow> (int \<Rightarrow> 'h enclave \<Rightarrow> 'h enclave option) \<Rightarrow> 'h enclave \<Rightarrow> 'h enclave option" where
  "main_loop_turn S H yld ocall_srd_change s = do {
     s1 \<leftarrow> validate_meaningful_file S H yld (enter SCHED_VALIDATE_FILE s);
     s2 \<leftarrow> validate_srd S H yld (enter SCHED_VALIDATE_SRD (leave SCHED_VALIDATE_FILE s1));
     s3 \<leftarrow> srd_change S H ocall_srd_change (enter SCHED_SRD_CHANGE (leave SCHED_VALIDATE_SRD s2));
     (_, s4) \<leftarrow> id_store_metadata S H (leave SCHED_SRD_CHANGE s3);
     Some (on_host (ocall_usleep H (int MAIN_LOOP_WAIT_TIME)) (on_wl report_add_validated_proof s4))
   }"

text \<open>The loop itself, for a number of turns.\<close>

fun ecall_main_loop ::
  "'h sgx \<Rightarrow> 'h ocalls \<Rightarrow> ('h enclave \<Rightarrow> 'h enclave) \<Rightarrow> (int \<Rightarrow> 'h enclave \<Rightarrow> 'h enclave option) \<Rightarrow> nat \<Rightarrow> 'h enclave \<Rightarrow> 'h enclave option" where
  "ecall_main_loop S H yld ocall_srd_change 0 s = Some s"
| "ecall_main_loop S H yld ocall_srd_change (Suc n) s =
     Option.bind (main_loop_turn S H yld ocall_srd_change s) (ecall_main_loop S H yld ocall_srd_change n)"

section \<open>Identity and reports\<close>

definition ecall_restore_metadata :: "'h sgx \<Rightarrow> 'h ocalls \<Rightarrow> 'h enclave \<Rightarrow> (crust_status \<times> 'h enclave) option" where
  "ecall_restore_metadata S H s = id_restore_metadata S H s"

definition ecall_cmp_chain_account_id :: "string \<Rightarrow> 'h enclave \<Rightarrow> crust_status" where
  "ecall_cmp_chain_account_id acc s = id_cmp_chain_account_id acc s"

definition ecall_gen_and_upload_work_report ::
  "'h sgx \<Rightarrow> 'h ocalls \<Rightarrow> string \<Rightarrow> u64 \<Rightarrow> 'h enclave \<Rightarrow> (crust_status \<times> 'h enclave) option" where
  "ecall_gen_and_upload_work_report S H block_hash block_height s =
     (if upgrading s then Some (CRUST_UPGRADE_WAIT_FOR_NEXT_ERA, s)
      else map_option (\<lambda>(ret, s1). (ret, leave SCHED_GET_WORKREPORT s1))
             (gen_and_upload_work_report S H block_hash block_height 0 False (enter SCHED_GET_WORKREPORT s)))"

definition ecall_gen_key_pair :: "'h sgx \<Rightarrow> string option \<Rightarrow> 'h enclave \<Rightarrow> sgx_status \<times> 'h enclave" where
  "ecall_gen_key_pair S account s = id_gen_key_pair S account s"

definition ecall_get_quote_report :: "'h sgx \<Rightarrow> bytes \<Rightarrow> 'h enclave \<Rightarrow> (sgx_status \<times> sgx_report) \<times> 'h enclave" where
  "ecall_get_quote_report S target_info s = id_get_quote_report S target_info s"

definition ecall_gen_sgx_measurement :: "'h sgx \<Rightarrow> 'h enclave \<Rightarrow> sgx_status \<times> 'h enclave" where
  "ecall_gen_sgx_measurement S s = id_gen_sgx_measurement S s"

definition ecall_id_get_info :: "'h sgx \<Rightarrow> 'h ocalls \<Rightarrow> 'h enclave \<Rightarrow> 'h enclave" where
  "ecall_id_get_info S H s = id_get_info S H s"

definition ecall_verify_and_upload_identity ::
  "('x, 'k) openssl \<Rightarrow> 'h sgx \<Rightarrow> 'h ocalls \<Rightarrow> bool \<Rightarrow> string list \<Rightarrow> 'h enclave \<Rightarrow> (crust_status \<times> 'h enclave) option" where
  "ecall_verify_and_upload_identity X S H junk IASReport s = id_verify_and_upload_identity X S H junk IASReport s"

section \<open>Files\<close>

definition ecall_seal_file ::
  "'h sgx \<Rightarrow> 'h ocalls \<Rightarrow> string \<Rightarrow> string \<Rightarrow> 'h enclave \<Rightarrow> ((crust_status \<times> string) \<times> 'h enclave) option" where
  "ecall_seal_file S H p_tree path s =
     (if upgrading s then Some ((CRUST_UPGRADE_WAIT_FOR_NEXT_ERA, []), s)
      else map_option (\<lambda>(ret, s1). (ret, leave SCHED_SEAL s1)) (storage_seal_file S H p_tree path (enter SCHED_SEAL s)))"

definition ecall_unseal_file ::
  "'h sgx \<Rightarrow> 'h ocalls \<Rightarrow> string list \<Rightarrow> string \<Rightarrow> nat \<Rightarrow> 'h enclave \<Rightarrow> ((crust_status \<times> string) \<times> 'h enclave) option" where
  "ecall_unseal_file S H files dir path_len s =
     (if upgrading s then Some ((CRUST_UPGRADE_WAIT_FOR_NEXT_ERA, []), s)
      else map_option (\<lambda>(ret, s1). (ret, leave SCHED_UNSEAL s1))
             (try_host (storage_unseal_file S H files dir path_len) (enter SCHED_UNSEAL s)))"

definition ecall_confirm_file :: "'h sgx \<Rightarrow> string \<Rightarrow> 'h enclave \<Rightarrow> crust_status \<times> 'h enclave" where
  "ecall_confirm_file S hash s =
     (if upgrading s then (CRUST_UPGRADE_WAIT_FOR_NEXT_ERA, s)
      else case storage_confirm_file S hash (enter SCHED_CONFIRM_FILE s) of (ret, s1) \<Rightarrow> (ret, leave SCHED_CONFIRM_FILE s1))"

definition ecall_delete_file :: "'h sgx \<Rightarrow> 'h ocalls \<Rightarrow> string \<Rightarrow> 'h enclave \<Rightarrow> crust_status \<times> 'h enclave" where
  "ecall_delete_file S H hash s =
     (if upgrading s then (CRUST_UPGRADE_WAIT_FOR_NEXT_ERA, s)
      else case storage_delete_file S H hash (enter SCHED_DELETE_FILE s) of (ret, s1) \<Rightarrow> (ret, leave SCHED_DELETE_FILE s1))"

section \<open>Upgrade\<close>

definition ecall_enable_upgrade :: "u64 \<Rightarrow> 'h enclave \<Rightarrow> crust_status \<times> 'h enclave" where
  "ecall_enable_upgrade block_height s =
     (let st = try_report_work block_height (wl s) in
      (st, if st = CRUST_SUCCESS then on_wl (set_upgrade_status ENC_UPGRADE_STATUS_PROCESS) s else s))"

definition ecall_disable_upgrade :: "'h enclave \<Rightarrow> 'h enclave" where
  "ecall_disable_upgrade s = on_wl (set_upgrade_status ENC_UPGRADE_STATUS_NONE) s"

definition ecall_gen_upgrade_data :: "'h sgx \<Rightarrow> 'h ocalls \<Rightarrow> u64 \<Rightarrow> 'h enclave \<Rightarrow> (crust_status \<times> 'h enclave) option" where
  "ecall_gen_upgrade_data S H block_height s = id_gen_upgrade_data S H block_height s"

definition ecall_restore_from_upgrade ::
  "'h sgx \<Rightarrow> 'h ocalls \<Rightarrow> bytes \<Rightarrow> nat \<Rightarrow> bool \<Rightarrow> 'h enclave \<Rightarrow> (crust_status \<times> 'h enclave) option" where
  "ecall_restore_from_upgrade S H data total_size transfer_end s =
     (if upgrading s then Some (CRUST_UPGRADE_WAIT_FOR_NEXT_ERA, s)
      else id_restore_from_upgrade S H data total_size transfer_end s)"

definition ecall_get_workload :: "'h sgx \<Rightarrow> 'h ocalls \<Rightarrow> 'h enclave \<Rightarrow> 'h enclave" where
  "ecall_get_workload S H s =
     (if upgrading s then s
      else on_host (ocall_store_workload H (get_workload (alloc S) (g_srd_change s) (wl s)) True) s)"

section \<open>Lemmas: the invariant, random data\<close>

abbreviation hashes_ok :: "(string, bytes list) omap \<Rightarrow> bool" where
  "hashes_ok m \<equiv> omap_ok m \<and> list_all (\<lambda>e. list_all (\<lambda>h. length h = HASH_LENGTH) (snd e)) m"

lemma wl_inv_hashes: "wl_inv w \<Longrightarrow> hashes_ok (srd_path2hashs_m w)"
  by (simp add: wl_inv_def)

lemma wl_inv_set_hashes: "wl_inv w \<Longrightarrow> hashes_ok m \<Longrightarrow> wl_inv (w \<lparr> srd_path2hashs_m := m \<rparr>)"
  by (simp add: wl_inv_def)

lemma hashes_ok_upd:
  "hashes_ok m \<Longrightarrow> set hs \<subseteq> set (srd_entry m p) \<Longrightarrow> hashes_ok (omap_upd p hs m)"
proof -
  assume ok: "hashes_ok m" and sub: "set hs \<subseteq> set (srd_entry m p)"
  have "list_all (\<lambda>h. length h = HASH_LENGTH) hs"
    using omap_all_list [of "\<lambda>h. length h = HASH_LENGTH" m p] ok sub by (auto simp: list_all_iff)
  then show ?thesis using ok by (simp add: omap_ok_upd omap_all_upd)
qed

lemma srd_increase_inv:
  assumes "\<And>b. length (sha256 S b) = HASH_LENGTH" and "wl_inv (wl s)"
  shows "wl_inv (wl (srd_increase S H path s))"
  by (cases rule: srd_increase_cases [of S H path s])
    (use assms in \<open>simp_all add: wl_inv_srd_info wl_inv_push\<close>)

lemma erase_chosen_subset: "erase_chosen mm is hs ns = Some (hs', ns') \<Longrightarrow> set hs' \<subseteq> set hs"
  by (induction "is" arbitrary: hs ns) (auto split: if_splits dest!: set_erase_at [THEN subsetD] subsetD)

lemma erase_paths_hashes: "erase_paths mm del m acc = Some (m', ns) \<Longrightarrow> hashes_ok m \<Longrightarrow> hashes_ok m'"
proof (induction mm del m acc rule: erase_paths.induct)
  case (2 mm path "is" es m acc)
  then show ?case
    using hashes_ok_upd [OF "2.prems"(2) erase_chosen_subset]
    by (auto split: if_splits option.splits)
qed simp

lemma delete_paths_inv: "wl_inv (wl s) \<Longrightarrow> wl_inv (wl (snd (delete_paths H es num s)))"
proof (induction es arbitrary: num s)
  case (Cons e es)
  then show ?case by (cases e) (simp add: case_prod_beta frame_simps wl_inv_srd_info)
qed simp

lemma srd_decrease_inv:
  assumes "srd_decrease S H change del s = Some (num, s')" and "wl_inv (wl s)"
  shows "wl_inv (wl s')"
proof (cases "min change (int (srd_num (srd_path2hashs_m (wl s)))) = 0")
  case True
  then show ?thesis using assms by (simp add: srd_decrease_def)
next
  case False
  then obtain m' ns where e: "erase_paths (alloc S) (snd (choose_loop (srd_path2hashs_m (wl s))
      (min change (int (srd_num (srd_path2hashs_m (wl s))))) 1 (del_count del, del))) (srd_path2hashs_m (wl s)) [] = Some (m', ns)"
    "s' = snd (delete_paths H ns 0 (on_wl (\<lambda>w. w \<lparr> srd_path2hashs_m := m' \<rparr>) s))"
    using assms(1) by (auto simp: srd_decrease_def Let_def split: option.splits)
  have "wl_inv (wl (on_wl (\<lambda>w. w \<lparr> srd_path2hashs_m := m' \<rparr>) s))"
    using wl_inv_set_hashes [OF assms(2) erase_paths_hashes [OF e(1) wl_inv_hashes [OF assms(2)]]] by (simp add: frame_simps)
  then show ?thesis unfolding e(2) by (rule delete_paths_inv)
qed

text \<open>
  The other threads, while a mutex is released, keep the invariant.
\<close>

definition keeps_inv :: "('h enclave \<Rightarrow> 'h enclave) \<Rightarrow> bool" where
  "keeps_inv yld \<longleftrightarrow> (\<forall>s. wl_inv (wl s) \<longrightarrow> wl_inv (wl (yld s)))"

lemma sched_yield_inv: "keeps_inv yld \<Longrightarrow> wl_inv (wl s) \<Longrightarrow> wl_inv (wl (sched_yield H yld pid s))"
  by (rule sched_yield_rule [of "\<lambda>s. wl_inv (wl s)"]) (auto simp: frame_simps keeps_inv_def)

lemma pop_srd_inv: "wl_inv (wl s) \<Longrightarrow> wl_inv (wl (pop_srd S H path s))"
proof -
  let ?hs = "srd_entry (srd_path2hashs_m (wl s)) path"
  let ?s = "on_wl (\<lambda>w. w \<lparr> srd_path2hashs_m := omap_upd path (butlast ?hs) (srd_path2hashs_m w) \<rparr>) s"
  assume inv: "wl_inv (wl s)"
  have "set (butlast ?hs) \<subseteq> set ?hs" by (auto dest: in_set_butlastD)
  then have "wl_inv (wl ?s)"
    using inv hashes_ok_upd [OF wl_inv_hashes [OF inv]] by (auto simp: frame_simps intro!: wl_inv_set_hashes)
  then show ?thesis
    by (auto simp: pop_srd_def Let_def case_prod_beta frame_simps wl_inv_srd_info)
qed

lemma update_path_inv:
  assumes "keeps_inv yld" and "wl_inv (wl s)"
  shows "wl_inv (wl (update_path S H yld e s))"
proof -
  have pops: "wl_inv (wl s) \<Longrightarrow> wl_inv (wl ((pop_srd S H path ^^ n) s))" for path n s
    by (induction n) (auto intro: pop_srd_inv)
  have inv: "wl_inv (wl (sched_yield H yld SCHED_SRD_CHECK_RESERVED s))" by (rule sched_yield_inv [OF assms])
  show ?thesis unfolding update_path_def Let_def
    using inv hashes_ok_upd [OF wl_inv_hashes [OF inv] order_refl]
    by (intro pops) (auto simp: frame_simps intro!: wl_inv_set_hashes)
qed

lemma srd_update_metadata_inv:
  assumes "keeps_inv yld" and "srd_update_metadata S H yld hashs s = Some s'" and "wl_inv (wl s)"
  shows "wl_inv (wl s')"
proof -
  have "wl_inv (wl s) \<Longrightarrow> wl_inv (wl (fold (update_path S H yld) es s))" for es s
    by (induction es arbitrary: s) (auto intro: update_path_inv [OF assms(1)])
  then show ?thesis
    using assms(2,3) by (auto simp: srd_update_metadata_def Let_def bind_eq_Some_conv frame_simps dest!: try_host_wl)
qed

lemma validate_srd_inv:
  assumes "keeps_inv yld" and "validate_srd S H yld s = Some s'" and "wl_inv (wl s)"
  shows "wl_inv (wl s')"
proof -
  have draw: "draw_srd S m n idxs s = Some (is, s1) \<Longrightarrow> wl s1 = wl s" for m n idxs s "is" s1
    by (induction n arbitrary: idxs s)
      (auto simp: case_prod_beta Let_def frame_simps split: if_splits)
  then have drawn: "drawn_srd S s = Some (is, s1) \<Longrightarrow> wl s1 = wl s" for "is" s1
    by (auto simp: drawn_srd_def Let_def split: if_splits)
  have loop: "wl_inv (wl s) \<Longrightarrow> wl_inv (wl (snd (validate_srd_loop S H yld idxs del s)))" for idxs del s
    by (induction idxs arbitrary: del s)
      (simp_all add: Let_def case_prod_beta frame_simps sched_yield_inv [OF assms(1)])
  have del: "srd_random_delete S H n del s = Some s' \<Longrightarrow> wl_inv (wl s) \<Longrightarrow> wl_inv (wl s')" for n del s
    by (auto simp: srd_random_delete_def split: if_splits intro: srd_decrease_inv)
  show ?thesis
  proof (cases "get_upgrade_status (wl s) = ENC_UPGRADE_STATUS_SUCCESS")
    case True
    then show ?thesis using assms(2,3) by (simp add: validate_srd_def)
  next
    case False
    then obtain idxs s1 where d: "drawn_srd S s = Some (idxs, s1)"
      using assms(2) by (auto simp: validate_srd_def bind_eq_Some_conv)
    obtain failed s2 where l: "validate_srd_loop S H yld idxs [] s1 = (failed, s2)" by (metis prod.exhaust)
    have "wl_inv (wl s2)" using loop [of s1 idxs "[]"] drawn [OF d] assms(3) l by simp
    then show ?thesis using False assms(2) d l del by (simp add: validate_srd_def)
  qed
qed

section \<open>Lemmas: the invariant, files\<close>

lemma validate_files_loop_inv:
  assumes "keeps_inv yld"
  shows "validate_files_loop S H yld idxs ch s = Some (r, s') \<Longrightarrow> wl_inv (wl s) \<Longrightarrow> wl_inv (wl s')"
proof (induction idxs arbitrary: ch s)
  case (Cons i idxs)
  let ?s = "sched_yield H yld SCHED_VALIDATE_FILE s"
  have inv: "wl_inv (wl ?s)" by (rule sched_yield_inv [OF assms Cons.prems(2)])
  let ?f = "checked_files (wl ?s) ! i"
  show ?case
  proof (cases "length (checked_files (wl ?s)) \<le> i \<or> file_status ?f CURRENT_STATUS = FILE_STATUS_UNCONFIRMED \<or>
      file_status ?f CURRENT_STATUS = FILE_STATUS_DELETED")
    case True
    then have "validate_files_loop S H yld (i # idxs) ch s = validate_files_loop S H yld idxs ch ?s"
      by (auto simp: Let_def)
    then show ?thesis using Cons.IH [of ch ?s] Cons.prems inv by simp
  next
    case False
    then obtain v s2 where v: "check_file S H ?f ?s = Some (v, s2)"
      using Cons.prems(1) by (auto simp: Let_def split: option.splits)
    have wl2: "wl s2 = wl ?s" by (rule check_file_wl [OF v])
    obtain f' ch' where j: "judge v i ?f ch = (f', ch')" by (metis prod.exhaust)
    have "wf_file ?f" using inv False by (auto simp: wl_inv_def intro: wf_nth)
    then have "wf_file f'" using moved_judge [OF j] by (auto dest: moved_wf)
    then have "wl_inv (wl (on_wl (\<lambda>w. w \<lparr> checked_files := (checked_files w)[i := f'] \<rparr>) s2))"
      using inv wl2 by (auto simp: frame_simps wl_inv_def intro: list_all_upd)
    moreover have "v = Karst_Offline \<and> s' = s2 \<or>
        validate_files_loop S H yld idxs ch' (on_wl (\<lambda>w. w \<lparr> checked_files := (checked_files w)[i := f'] \<rparr>) s2) = Some (r, s')"
      using Cons.prems(1) False v j by (simp add: Let_def split: if_splits)
    ultimately show ?thesis using Cons.IH inv wl2 by auto
  qed
qed simp

lemma update_specs_inv: "update_specs es w = Some w' \<Longrightarrow> wl_inv w \<Longrightarrow> wl_inv w'"
  by (induction es w rule: update_specs.induct) (auto simp: Let_def wl_inv_spec split: if_splits)

lemma validate_meaningful_file_inv:
  assumes "keeps_inv yld" and "validate_meaningful_file S H yld s = Some s'" and "wl_inv (wl s)"
  shows "wl_inv (wl s')"
proof -
  have new: "wl_inv (take_new_files w)" if "wl_inv w" for w using that by (simp add: take_new_files_def wl_inv_def)
  have draw: "wl s2 = wl s1" if "draw_files S n k s1 = (is, s2)" for n k s1 "is" s2
    using draw_files_wl [of S n k s1] that by simp
  obtain st s2 where init: "call_host (ocall_validate_init H) (on_wl take_new_files s) = (st, s2)" by (metis prod.exhaust)
  obtain idxs s3 where d: "draw_files S (length (checked_files (wl s2))) (check_file_num (length (checked_files (wl s2)))) s2 = (idxs, s3)"
    by (metis prod.exhaust)
  have inv: "wl_inv (wl s2)" "wl_inv (wl s3)"
    using new [OF assms(3)] call_host_eq [OF init] draw [OF d] by (simp_all add: frame_simps)
  show ?thesis
  proof (cases "validate_files_loop S H yld idxs [] s3")
    case None
    then show ?thesis
      using assms(2,3) init d inv by (auto simp: validate_meaningful_file_def Let_def frame_simps wl_inv_frame split: if_splits)
  next
    case (Some r)
    then obtain offline ch s4 where r: "validate_files_loop S H yld idxs [] s3 = Some ((offline, ch), s4)" by (metis prod.exhaust)
    have "wl_inv (wl s4)" by (rule validate_files_loop_inv [OF assms(1) r inv(2)])
    then show ?thesis
      using assms(2,3) init d inv r
      by (auto simp: validate_meaningful_file_def Let_def frame_simps wl_inv_frame split: if_splits option.splits
          dest: update_specs_inv)
  qed
qed

lemma gen_and_upload_inv:
  assumes "gen_and_upload_work_report S H bh h t up s = Some (st, s')" and "wl_inv (wl s)"
  shows "wl_inv (wl s')"
proof -
  obtain st1 s1 where g: "gen_work_report S bh h up s = Some (st1, s1)"
    using assms(1) by (cases "gen_work_report S bh h up s") (auto simp: gen_and_upload_work_report_def)
  have "wl_inv (wl s1)" using g
  proof (cases rule: gen_work_report_cases)
    case (made s2)
    let ?fs = "filter (\<lambda>f. \<not> dropped_file f) (checked_files (wl s))"
    have "list_all wf_file ?fs" using assms(2) by (auto simp: wl_inv_def list_all_iff)
    then have "list_all wf_file (ra_files (scan_files mm up ?fs))" for mm by (simp add: scan_ra_files wf_waiting)
    then have "wl_inv (wl s2)"
      using report_body_wl [OF made(3)] assms(2) by (auto simp: Let_def wl_inv_def)
    then show ?thesis by (simp add: made(4) frame_simps wl_inv_cleanup)
  qed (use assms(2) in \<open>simp_all add: frame_simps wl_inv_cleanup\<close>)
  then show ?thesis
    using assms(1) g by (auto simp: gen_and_upload_work_report_def Let_def frame_simps wl_inv_handle_report_result
        split: if_splits prod.splits dest!: call_host_wl_eq)
qed

text \<open>From the signature on, giving the workload away only sets the status.\<close>

lemma gen_upgrade_tail_wl:
  assumes "gen_upgrade_tail S H h bh s = Some (st, s')"
  shows "wl s' = (if st = CRUST_SUCCESS then set_upgrade_status ENC_UPGRADE_STATUS_SUCCESS (wl s) else wl s)"
  using assms unfolding gen_upgrade_tail_def Let_def
  by (auto simp: frame_simps split: if_split_asm option.split_asm prod.split_asm Option.bind_split_asm dest!: call_host_wl_eq)

lemma gen_upgrade_data_inv:
  assumes "id_gen_upgrade_data S H h s = Some (st, s')" and "wl_inv (wl s)"
  shows "wl_inv (wl s')"
proof -
  obtain r s1 where b: "call_host (ocall_get_block_hash H (era_height h (get_report_height (wl s)))) s = (r, s1)"
    by (metis prod.exhaust)
  obtain n s2 where n: "rand_u64 S s1 = (n, s2)" by (metis prod.exhaust)
  have "wl_inv (wl s2)" using call_host_wl_eq [OF b] rand_eq(2) [OF n] assms(2) by simp
  moreover have "wl_inv (wl s1)" using call_host_wl_eq [OF b] assms(2) by simp
  ultimately show ?thesis
    using assms b n unfolding id_gen_upgrade_data_def Let_def
    by (auto simp: bind_eq_Some_conv wl_inv_frame split: if_splits prod.splits
        dest!: gen_and_upload_inv gen_upgrade_tail_wl)
qed

lemma store_metadata_wl: "id_store_metadata S H s = Some (st, s') \<Longrightarrow> wl s' = wl s"
  by (auto simp: id_store_metadata_def Let_def bind_eq_Some_conv split: if_splits dest!: try_host_wl)

text \<open>The host's tree names its root with the digits of a hash.\<close>

definition root_named :: "'h sgx \<Rightarrow> string \<Rightarrow> bool" where
  "root_named S p_tree = (case Load (alloc S) False p_tree of
     None \<Rightarrow> True | Some tree \<Rightarrow> length (tree_hash (alloc S) tree) = 2 * HASH_LENGTH)"

lemma seal_inv:
  assumes "alloc S = mem_ok" and "\<And>b. length (sha256 S b) = HASH_LENGTH" and "root_named S p_tree"
    and "storage_seal_file S H p_tree path s = Some ((st, new_path), s')" and "wl_inv (wl s)"
  shows "wl_inv (wl s')"
  using assms(4)
proof (cases rule: storage_seal_file_cases)
  case refused
  then show ?thesis using assms(5) by simp
next
  case (sealed tree tree' acc h' new_hash org_hash)
  have "length (tree_hash mem_ok tree) = 2 * HASH_LENGTH" using assms(1,3) sealed(1) by (simp add: root_named_def)
  then have "length (tree_hash mem_ok tree') = 2 * HASH_LENGTH"
    using seal_hash_length [OF assms(1,2) sealed(4)] by auto
  then have "length new_hash = HASH_LENGTH" using hex_bytes_length [OF sealed(5)] assms(1) by simp
  then show ?thesis using assms(5) sealed(9) by (simp add: Let_def wl_inv_spec wl_inv_add_new_file wf_file_entry)
qed

section \<open>Runs of the enclave\<close>

text \<open>
  A step is one call of the host, with whatever arguments, or one turn of the main loop.  The two
  calls that take a workload over from outside, \<open>ecall_restore_metadata\<close> and the last call of
  \<open>ecall_restore_from_upgrade\<close>, start a run and are no steps of one.
\<close>

inductive enclave_step ::
  "'h sgx \<Rightarrow> 'h ocalls \<Rightarrow> ('h enclave \<Rightarrow> 'h enclave) \<Rightarrow> (int \<Rightarrow> 'h enclave \<Rightarrow> 'h enclave option) \<Rightarrow>
     'h enclave \<Rightarrow> 'h enclave \<Rightarrow> bool"
  for S H yld cb where
  srd_increase: "enclave_step S H yld cb s (ecall_srd_increase S H path s)"
| srd_decrease: "ecall_srd_decrease S H change s = Some (num, s') \<Longrightarrow> enclave_step S H yld cb s s'"
| srd_set_change: "enclave_step S H yld cb s (ecall_srd_set_change change s)"
| srd_update: "ecall_srd_update_metadata S H yld hashs s = Some s' \<Longrightarrow> enclave_step S H yld cb s s'"
| main_loop: "main_loop_turn S H yld cb s = Some s' \<Longrightarrow> enclave_step S H yld cb s s'"
| work_report: "ecall_gen_and_upload_work_report S H bh h s = Some (st, s') \<Longrightarrow> enclave_step S H yld cb s s'"
| key_pair: "ecall_gen_key_pair S account s = (sst, s') \<Longrightarrow> enclave_step S H yld cb s s'"
| quote: "ecall_get_quote_report S info s = (r, s') \<Longrightarrow> enclave_step S H yld cb s s'"
| measurement: "ecall_gen_sgx_measurement S s = (sst, s') \<Longrightarrow> enclave_step S H yld cb s s'"
| attestation: "ecall_verify_and_upload_identity (X :: (string, bytes) openssl) S H junk response s = Some (st, s') \<Longrightarrow>
    enclave_step S H yld cb s s'"
| id_info: "enclave_step S H yld cb s (ecall_id_get_info S H s)"
| seal: "root_named S p_tree \<Longrightarrow> ecall_seal_file S H p_tree path s = Some (res, s') \<Longrightarrow> enclave_step S H yld cb s s'"
| unseal: "ecall_unseal_file S H files dir n s = Some (res, s') \<Longrightarrow> enclave_step S H yld cb s s'"
| confirm: "ecall_confirm_file S hash s = (st, s') \<Longrightarrow> enclave_step S H yld cb s s'"
| delete: "ecall_delete_file S H hash s = (st, s') \<Longrightarrow> enclave_step S H yld cb s s'"
| enable: "ecall_enable_upgrade h s = (st, s') \<Longrightarrow> enclave_step S H yld cb s s'"
| disable: "enclave_step S H yld cb s (ecall_disable_upgrade s)"
| upgrade_data: "ecall_gen_upgrade_data S H h s = Some (st, s') \<Longrightarrow> enclave_step S H yld cb s s'"
| upgrade_part: "ecall_restore_from_upgrade S H data sz False s = Some (st, s') \<Longrightarrow> enclave_step S H yld cb s s'"
| get_workload: "enclave_step S H yld cb s (ecall_get_workload S H s)"

text \<open>The enclave after its creation, and what the host can make of it.\<close>

definition enclave_start :: "workload \<Rightarrow> 'h \<Rightarrow> 'h enclave" where
  "enclave_start mem h = \<lparr> wl = Workload_new mem, g_srd_change = 0, g_func_m = [], g_base_rand_buffer = None,
     g_work_report = [], g_upgrade_buffer = [], g_upgrade_buffer_offset = 0, hst = h \<rparr>"

inductive enclave_reachable ::
  "'h sgx \<Rightarrow> 'h ocalls \<Rightarrow> ('h enclave \<Rightarrow> 'h enclave) \<Rightarrow> (int \<Rightarrow> 'h enclave \<Rightarrow> 'h enclave option) \<Rightarrow> 'h enclave \<Rightarrow> bool"
  for S H yld cb where
  start: "enclave_reachable S H yld cb (enclave_start mem h)"
| step: "enclave_reachable S H yld cb s \<Longrightarrow> enclave_step S H yld cb s s' \<Longrightarrow> enclave_reachable S H yld cb s'"

lemma enter_leave_wl [simp]: "wl (enter pid s) = wl s" "wl (leave pid s) = wl s"
  by (simp_all add: enter_def leave_def)

definition keeps_inv_cb :: "(int \<Rightarrow> 'h enclave \<Rightarrow> 'h enclave option) \<Rightarrow> bool" where
  "keeps_inv_cb cb \<longleftrightarrow> (\<forall>n s s'. cb n s = Some s' \<longrightarrow> wl_inv (wl s) \<longrightarrow> wl_inv (wl s'))"

lemma main_loop_turn_inv:
  assumes "keeps_inv yld" and "keeps_inv_cb cb" and "main_loop_turn S H yld cb s = Some s'" and "wl_inv (wl s)"
  shows "wl_inv (wl s')"
proof -
  have srd: "wl_inv (wl s2)" if "srd_change S H cb s1 = Some s2" "wl_inv (wl s1)" for s1 s2
    using that assms(2) unfolding srd_change_def Let_def keeps_inv_cb_def
    by (fastforce simp: bind_eq_Some_conv frame_simps split: if_splits dest!: try_host_wl)
  from assms(3) obtain s1 s2 s3 st s4 where
    v: "validate_meaningful_file S H yld (enter SCHED_VALIDATE_FILE s) = Some s1"
      "validate_srd S H yld (enter SCHED_VALIDATE_SRD (leave SCHED_VALIDATE_FILE s1)) = Some s2"
      "srd_change S H cb (enter SCHED_SRD_CHANGE (leave SCHED_VALIDATE_SRD s2)) = Some s3"
      "id_store_metadata S H (leave SCHED_SRD_CHANGE s3) = Some (st, s4)"
    and s': "s' = on_host (ocall_usleep H (int MAIN_LOOP_WAIT_TIME)) (on_wl report_add_validated_proof s4)"
    by (auto simp: main_loop_turn_def bind_eq_Some_conv)
  have "wl_inv (wl s1)" using validate_meaningful_file_inv [OF assms(1) v(1)] assms(4) by simp
  then have "wl_inv (wl s2)" using validate_srd_inv [OF assms(1) v(2)] by simp
  then have "wl_inv (wl s3)" using srd [OF v(3)] by simp
  then have "wl_inv (wl s4)" using store_metadata_wl [OF v(4)] by simp
  then show ?thesis by (simp add: s' frame_simps wl_inv_frame)
qed

text \<open>Every entry point keeps the invariant.\<close>

lemma ecall_srd_inv:
  assumes "keeps_inv yld" and "wl_inv (wl s)"
  shows "(\<And>b. length (sha256 S b) = HASH_LENGTH) \<Longrightarrow> wl_inv (wl (ecall_srd_increase S H path s))"
    and "ecall_srd_decrease S H change s = Some (num, s') \<Longrightarrow> wl_inv (wl s')"
    and "wl_inv (wl (ecall_srd_set_change change s))"
    and "ecall_srd_update_metadata S H yld hashs s = Some s' \<Longrightarrow> wl_inv (wl s')"
  using assms
  by (auto simp: ecall_srd_increase_def ecall_srd_decrease_def ecall_srd_set_change_def ecall_srd_update_metadata_def
      set_srd_change_def Let_def intro: srd_increase_inv dest!: srd_decrease_inv srd_update_metadata_inv)

lemma ecall_file_inv:
  assumes "wl_inv (wl s)"
  shows "alloc S = mem_ok \<Longrightarrow> (\<And>b. length (sha256 S b) = HASH_LENGTH) \<Longrightarrow> root_named S p_tree \<Longrightarrow>
      ecall_seal_file S H p_tree path s = Some (res, s') \<Longrightarrow> wl_inv (wl s')"
    and "ecall_unseal_file S H files dir n s = Some (res, s') \<Longrightarrow> wl_inv (wl s')"
    and "ecall_confirm_file S hash s = (st, s') \<Longrightarrow> wl_inv (wl s')"
    and "ecall_delete_file S H hash s = (st, s') \<Longrightarrow> wl_inv (wl s')"
  using assms wl_inv_confirm [of "enter SCHED_CONFIRM_FILE s" S hash] wl_inv_delete [of "enter SCHED_DELETE_FILE s" S H hash]
  by (auto simp: ecall_seal_file_def ecall_unseal_file_def ecall_confirm_file_def ecall_delete_file_def
      split: if_splits prod.splits dest!: try_host_wl seal_inv)

lemma ecall_identity_inv:
  assumes "wl_inv (wl s)"
  shows "ecall_gen_key_pair S account s = (sst, s') \<Longrightarrow> wl_inv (wl s')"
    and "ecall_get_quote_report S info s = (r, s') \<Longrightarrow> wl_inv (wl s')"
    and "ecall_gen_sgx_measurement S s = (sst, s') \<Longrightarrow> wl_inv (wl s')"
    and "ecall_verify_and_upload_identity X S H junk response s = Some (st, s') \<Longrightarrow> wl_inv (wl s')"
    and "wl_inv (wl (ecall_id_get_info S H s))" and "wl_inv (wl (ecall_get_workload S H s))"
  using assms
  by (auto simp: ecall_gen_key_pair_def id_gen_key_pair_def ecall_get_quote_report_def id_get_quote_report_def
      ecall_gen_sgx_measurement_def id_gen_sgx_measurement_def ecall_verify_and_upload_identity_def ecall_id_get_info_def id_get_info_def ecall_get_workload_def
      Let_def frame_simps wl_inv_frame split: if_splits option.splits prod.splits dest!: call_host_wl_eq id_verify_wl)

lemma ecall_upgrade_inv:
  assumes "wl_inv (wl s)"
  shows "ecall_gen_and_upload_work_report S H bh h s = Some (st, s') \<Longrightarrow> wl_inv (wl s')"
    and "ecall_enable_upgrade h s = (st, s') \<Longrightarrow> wl_inv (wl s')" and "wl_inv (wl (ecall_disable_upgrade s))"
    and "ecall_gen_upgrade_data S H h s = Some (st, s') \<Longrightarrow> wl_inv (wl s')"
    and "ecall_restore_from_upgrade S H data sz False s = Some (st, s') \<Longrightarrow> wl_inv (wl s')"
  using assms
  by (auto simp: ecall_gen_and_upload_work_report_def ecall_enable_upgrade_def ecall_disable_upgrade_def Let_def
      ecall_gen_upgrade_data_def ecall_restore_from_upgrade_def id_restore_from_upgrade_def receive_part_def
      frame_simps wl_inv_frame bind_eq_Some_conv split: if_splits dest!: gen_and_upload_inv gen_upgrade_data_inv)

lemma enclave_step_inv:
  assumes "alloc S = mem_ok" and "\<And>b. length (sha256 S b) = HASH_LENGTH" and "keeps_inv yld" and "keeps_inv_cb cb"
    and "enclave_step S H yld cb s s'" and "wl_inv (wl s)"
  shows "wl_inv (wl s')"
  using assms(5)
  by cases (simp_all add: ecall_srd_inv [OF assms(3,6)] ecall_file_inv(1) [OF assms(6,1,2)] ecall_file_inv(2-) [OF assms(6)]
      ecall_identity_inv [OF assms(6)] ecall_upgrade_inv [OF assms(6)] main_loop_turn_inv [OF assms(3,4) _ assms(6)] assms(2))

lemma enclave_reachable_inv:
  assumes "alloc S = mem_ok" and "\<And>b. length (sha256 S b) = HASH_LENGTH" and "keeps_inv yld" and "keeps_inv_cb cb"
    and "enclave_reachable S H yld cb s"
  shows "wl_inv (wl s)"
  using assms(5)
proof induction
  case (start mem h)
  then show ?case by (simp add: enclave_start_def wl_inv_new)
next
  case (step s s')
  then show ?case using enclave_step_inv [OF assms(1-4)] by blast
qed

lemma gen_and_upload_total:
  assumes "wl_inv (wl s)"
  shows "\<exists>st s'. gen_and_upload_work_report S H bh h t up s = Some (st, s')"
proof -
  obtain st s1 where "gen_work_report S bh h up s = Some (st, s1)" using gen_work_report_total [OF assms] by blast
  then show ?thesis by (auto simp: gen_and_upload_work_report_def Let_def split: prod.splits)
qed

section \<open>Properties\<close>



end
