(* ===== verification/Admission.thy ===== *)
theory Admission
  imports Parameters "HOL-Library.Monad_Syntax"
begin

text \<open>
  The admission of calls into the enclave, \<open>src/app/ecalls/ECalls.cpp\<close>: every ECALL wrapper
  first asks \<open>try_get_enclave\<close> for one of the enclave's threads and gives it back with
  \<open>free_enclave\<close>.  The shared counters are one record; the statements between two points where
  another thread can interfere are one function on it.  They are composed twice: into the loop of
  \<open>try_get_enclave\<close>, with the interference as a parameter, and into a step relation on the
  calls in flight of all threads.  The counters are plain integers in the source; the model takes
  every access to one of them as atomic.
\<close>

section \<open>Tables\<close>

abbreviation (input) ENC_MAX_THREAD_NUM :: int where
  "ENC_MAX_THREAD_NUM \<equiv> 15"
abbreviation (input) ENC_RESERVED_THREAD_NUM :: int where
  "ENC_RESERVED_THREAD_NUM \<equiv> 1"
abbreviation (input) ENC_PRIO_TIMEOUT_THRESHOLD :: nat where
  "ENC_PRIO_TIMEOUT_THRESHOLD \<equiv> 1"
abbreviation (input) ENC_PERMANENT_TASK_NUM :: int where
  "ENC_PERMANENT_TASK_NUM \<equiv> 1"
abbreviation (input) ENC_HIGHEST_PRIORITY :: nat where
  "ENC_HIGHEST_PRIORITY \<equiv> 0"
abbreviation (input) ENC_TASK_TIMEOUT :: nat where
  "ENC_TASK_TIMEOUT \<equiv> 30"

text \<open>The two codes of the SGX SDK that \<open>try_get_enclave\<close> returns.\<close>

abbreviation (input) SGX_ERROR_DEVICE_BUSY :: sgx_status where
  "SGX_ERROR_DEVICE_BUSY \<equiv> SGX_ERROR 0x200c"
abbreviation (input) SGX_ERROR_SERVICE_TIMEOUT :: sgx_status where
  "SGX_ERROR_SERVICE_TIMEOUT \<equiv> SGX_ERROR 0x4002"

definition g_task_priority_um :: "(string \<times> nat) list" where
  "g_task_priority_um =
    [(''Ecall_restore_metadata'', 0),
     (''Ecall_gen_key_pair'', 0),
     (''Ecall_cmp_chain_account_id'', 0),
     (''Ecall_get_quote_report'', 0),
     (''Ecall_verify_and_upload_identity'', 0),
     (''Ecall_gen_sgx_measurement'', 0),
     (''Ecall_main_loop'', 0),
     (''Ecall_gen_and_upload_work_report'', 0),
     (''Ecall_confirm_file'', 0),
     (''Ecall_delete_file'', 0),
     (''Ecall_gen_upgrade_data'', 0),
     (''Ecall_restore_from_upgrade'', 0),
     (''Ecall_enable_upgrade'', 0),
     (''Ecall_disable_upgrade'', 0),
     (''Ecall_seal_file'', 1),
     (''Ecall_unseal_file'', 1),
     (''Ecall_srd_decrease'', 1),
     (''Ecall_srd_update_metadata'', 1),
     (''Ecall_srd_set_change'', 1),
     (''Ecall_srd_increase'', 2),
     (''Ecall_id_get_info'', 3),
     (''Ecall_get_workload'', 3)]"

text \<open>\<open>g_task_priority_um[tname]\<close>: a name without an entry gets priority 0.\<close>

definition task_prio :: "string \<Rightarrow> nat" where
  "task_prio name = (case map_of g_task_priority_um name of Some p \<Rightarrow> p | None \<Rightarrow> 0)"

definition g_block_tasks_um :: "(string \<times> string list) list" where
  "g_block_tasks_um =
    [(''Ecall_srd_increase'',
       [''Ecall_seal_file'', ''Ecall_unseal_file'', ''Ecall_gen_and_upload_work_report'', ''Ecall_confirm_file'']),
     (''Ecall_confirm_file'', [''Ecall_gen_and_upload_work_report'']),
     (''Ecall_delete_file'', [''Ecall_gen_and_upload_work_report''])]"

definition block_tasks :: "string \<Rightarrow> string list" where
  "block_tasks name = (case map_of g_block_tasks_um name of Some ts \<Rightarrow> ts | None \<Rightarrow> [])"

definition g_upgrade_block_task :: "string list" where
  "g_upgrade_block_task =
    [''Ecall_seal_file'', ''Ecall_unseal_file'', ''Ecall_srd_decrease'', ''Ecall_srd_increase'',
     ''Ecall_confirm_file'', ''Ecall_delete_file'']"

section \<open>Shared state\<close>

text \<open>
  \<open>g_waiting_task_sum_v\<close>, \<open>g_invoked_ecalls_um\<close>, \<open>g_running_task_um\<close> (for a thread the
  number of its calls by name; the timeout field of its entries is never used) and
  \<open>g_running_task_num\<close>.
\<close>

record admission =
  waiting_v :: "int list"
  invoked_um :: "string \<rightharpoonup> int"
  running_um :: "nat \<rightharpoonup> (string \<rightharpoonup> int)"
  running_num :: int

definition admission_start :: admission where
  "admission_start = \<lparr>waiting_v = [0, 0, 0, 0], invoked_um = Map.empty, running_um = Map.empty, running_num = 0\<rparr>"

text \<open>Reading a counter of a dictionary, which enters a missing one with 0.\<close>

definition counter :: "('k \<rightharpoonup> int) \<Rightarrow> 'k \<Rightarrow> int" where
  "counter m k = (case m k of Some n \<Rightarrow> n | None \<Rightarrow> 0)"

section \<open>Operations\<close>

text \<open>\<open>priority\<close> counts down to 0 and the waiting tasks of every smaller number are added up.\<close>

primrec get_higher_prio_waiting_task_num :: "int list \<Rightarrow> nat \<Rightarrow> int" where
  "get_higher_prio_waiting_task_num v 0 = 0"
| "get_higher_prio_waiting_task_num v (Suc priority) = v ! priority + get_higher_prio_waiting_task_num v priority"

text \<open>The counters a call raises before it waits, and lowers when it stops waiting.\<close>

definition task_enter :: "string \<Rightarrow> admission \<Rightarrow> admission" where
  "task_enter name s =
     (let p = task_prio name in
      s\<lparr>waiting_v := (waiting_v s)[p := waiting_v s ! p + 1],
        invoked_um := (invoked_um s)(name \<mapsto> counter (invoked_um s) name + 1)\<rparr>)"

definition task_leave :: "string \<Rightarrow> sgx_status \<Rightarrow> admission \<Rightarrow> admission" where
  "task_leave name status s =
     (let p = task_prio name; s = s\<lparr>waiting_v := (waiting_v s)[p := waiting_v s ! p - 1]\<rparr> in
      if status \<noteq> SGX_SUCCESS
      then s\<lparr>invoked_um := (invoked_um s)(name \<mapsto> counter (invoked_um s) name - 1)\<rparr>
      else s)"

text \<open>The loop over the tasks that block a task, which stops at the first one that is invoked.\<close>

fun block_scan :: "string list \<Rightarrow> admission \<Rightarrow> bool \<times> admission" where
  "block_scan [] s = (False, s)"
| "block_scan (btask # btasks) s =
     (let n = counter (invoked_um s) btask; s = s\<lparr>invoked_um := (invoked_um s)(btask \<mapsto> n)\<rparr> in
      if n > 0 then (True, s) else block_scan btasks s)"

text \<open>The three reasons to refuse a thread, and the bookkeeping when it is granted.\<close>

definition enclave_refused :: "nat \<Rightarrow> admission \<Rightarrow> bool" where
  "enclave_refused prio s \<longleftrightarrow>
     running_num s \<ge> ENC_MAX_THREAD_NUM
     \<or> (prio > ENC_HIGHEST_PRIORITY \<and> ENC_MAX_THREAD_NUM - running_num s \<le> ENC_RESERVED_THREAD_NUM)
     \<or> get_higher_prio_waiting_task_num (waiting_v s) prio - ENC_PERMANENT_TASK_NUM > 0"

definition take_enclave :: "nat \<Rightarrow> string \<Rightarrow> admission \<Rightarrow> admission" where
  "take_enclave tid name s =
     (case running_um s tid of
        None \<Rightarrow> s\<lparr>running_um := (running_um s)(tid \<mapsto> [name \<mapsto> 1]), running_num := running_num s + 1\<rparr>
      | Some info \<Rightarrow> s\<lparr>running_um := (running_um s)(tid \<mapsto> info(name \<mapsto> counter info name + 1))\<rparr>)"

text \<open>
  The part of a turn after the block check: \<open>lock\<close> says whether \<open>try_lock\<close> gets the mutex.
\<close>

definition try_lock_section :: "nat \<Rightarrow> string \<Rightarrow> bool \<Rightarrow> admission \<Rightarrow> bool \<times> admission" where
  "try_lock_section tid name lock s =
     (if running_num s < ENC_MAX_THREAD_NUM
      then if \<not> lock then (False, s)
           else if enclave_refused (task_prio name) s then (False, s)
           else (True, take_enclave tid name s)
      else (False, s))"

text \<open>
  The code at the label \<open>loop\<close>: a task below the threshold counts its attempts and gives up
  after \<open>ENC_TASK_TIMEOUT\<close> of them.  The first component says whether it gives up.
\<close>

definition round_failed :: "nat \<Rightarrow> string \<Rightarrow> nat \<Rightarrow> sgx_status \<Rightarrow> admission \<Rightarrow> bool \<times> nat \<times> sgx_status \<times> admission" where
  "round_failed tid name timeout status s =
     (if task_prio name > ENC_PRIO_TIMEOUT_THRESHOLD
      then let timeout = timeout + 1 in
        if timeout \<ge> ENC_TASK_TIMEOUT
        then (True, timeout, SGX_ERROR_SERVICE_TIMEOUT, s\<lparr>running_um := (running_um s)(tid := None)\<rparr>)
        else (False, timeout, status, s)
      else (False, timeout, status, s))"

text \<open>
  The loop of \<open>try_get_enclave\<close>.  Turn \<open>i\<close> meets \<open>locks i\<close> as the outcome of
  \<open>try_lock\<close> and \<open>others i\<close> as what the other threads do to the counters while this one sleeps.
\<close>

partial_function (option) try_loop ::
  "nat \<Rightarrow> string \<Rightarrow> (nat \<Rightarrow> bool) \<Rightarrow> (nat \<Rightarrow> admission \<Rightarrow> admission) \<Rightarrow> nat \<Rightarrow> nat \<Rightarrow> sgx_status \<Rightarrow> admission
     \<Rightarrow> (sgx_status \<times> admission) option" where
  "try_loop tid name locks others i timeout status s =
     (let (blocked, s) = block_scan (block_tasks name) s;
          status = (if blocked then SGX_ERROR_DEVICE_BUSY else status);
          (granted, s) = (if blocked then (False, s) else try_lock_section tid name (locks i) s) in
      if granted then Some (status, s)
      else let (stop, timeout, status, s) = round_failed tid name timeout status s in
        if stop then Some (status, s)
        else try_loop tid name locks others (i + 1) timeout status (others i s))"

definition try_get_enclave ::
  "nat \<Rightarrow> string \<Rightarrow> (nat \<Rightarrow> bool) \<Rightarrow> (nat \<Rightarrow> admission \<Rightarrow> admission) \<Rightarrow> admission
     \<Rightarrow> (sgx_status \<times> admission) option" where
  "try_get_enclave tid name locks others s =
     map_option (\<lambda>(status, s). (status, task_leave name status s))
       (try_loop tid name locks others 0 0 SGX_SUCCESS (task_enter name s))"

definition free_enclave :: "nat \<Rightarrow> string \<Rightarrow> admission \<Rightarrow> admission" where
  "free_enclave tid name s =
     (let s = s\<lparr>running_um := (running_um s)(tid := None), running_num := running_num s - 1\<rparr> in
      s\<lparr>invoked_um := (invoked_um s)(name \<mapsto> counter (invoked_um s) name - 1)\<rparr>)"

definition get_upgrade_ecalls_num :: "admission \<Rightarrow> int" where
  "get_upgrade_ecalls_num s =
     fold (\<lambda>task n. case invoked_um s task of
                 None \<Rightarrow> n
               | Some k \<Rightarrow> if k > 0 then n + k else n) g_upgrade_block_task 0"

text \<open>A wrapper: the ECALL runs only between a successful request and the release of the thread.\<close>

definition with_enclave ::
  "nat \<Rightarrow> string \<Rightarrow> (nat \<Rightarrow> bool) \<Rightarrow> (nat \<Rightarrow> admission \<Rightarrow> admission) \<Rightarrow>
     ('e \<times> admission \<Rightarrow> (sgx_status \<times> 'e \<times> admission) option) \<Rightarrow>
     'e \<times> admission \<Rightarrow> (sgx_status \<times> 'e \<times> admission) option" where
  "with_enclave tid name locks others ecall es =
     do {
       (ret, s) \<leftarrow> try_get_enclave tid name locks others (snd es);
       if ret \<noteq> SGX_SUCCESS then Some (ret, fst es, s)
       else do {
         (ret, e, s) \<leftarrow> ecall (fst es, s);
         Some (ret, e, free_enclave tid name s)
       }
     }"

section \<open>Interleavings\<close>

text \<open>
  A call in flight is the name of the wrapper, where in \<open>try_get_enclave\<close> it is (\<open>Running\<close>:
  past it, inside the enclave) and the two local variables of the loop.  A thread has a stack of
  calls, because an OCALL of a running call may make an ECALL again; \<open>nests outer inner\<close> says
  which calls do so.
\<close>

datatype phase = Checking | Locking | Retrying | Leaving | Running

record frame =
  fname :: string
  fphase :: phase
  ftimeout :: nat
  fstatus :: sgx_status

type_synonym adm_cfg = "admission \<times> frame list list"

definition new_frame :: "string \<Rightarrow> frame" where
  "new_frame name = \<lparr>fname = name, fphase = Checking, ftimeout = 0, fstatus = SGX_SUCCESS\<rparr>"

inductive adm_step :: "(string \<Rightarrow> string \<Rightarrow> bool) \<Rightarrow> adm_cfg \<Rightarrow> adm_cfg \<Rightarrow> bool"
  for nests :: "string \<Rightarrow> string \<Rightarrow> bool" where
  call: "t < length K \<Longrightarrow> name \<in> fst ` set g_task_priority_um \<Longrightarrow>
      K ! t = [] \<or> (fphase (hd (K ! t)) = Running \<and> nests (fname (hd (K ! t))) name) \<Longrightarrow>
    adm_step nests (s, K) (task_enter name s, K[t := new_frame name # K ! t])"
| check: "t < length K \<Longrightarrow> K ! t = f # fs \<Longrightarrow> fphase f = Checking \<Longrightarrow>
      block_scan (block_tasks (fname f)) s = (blocked, s') \<Longrightarrow>
    adm_step nests (s, K) (s', K[t :=
      (if blocked then f\<lparr>fphase := Retrying, fstatus := SGX_ERROR_DEVICE_BUSY\<rparr> else f\<lparr>fphase := Locking\<rparr>) # fs])"
| lock: "t < length K \<Longrightarrow> K ! t = f # fs \<Longrightarrow> fphase f = Locking \<Longrightarrow>
      try_lock_section t (fname f) locked s = (granted, s') \<Longrightarrow>
    adm_step nests (s, K) (s', K[t := f\<lparr>fphase := if granted then Leaving else Retrying\<rparr> # fs])"
| retry: "t < length K \<Longrightarrow> K ! t = f # fs \<Longrightarrow> fphase f = Retrying \<Longrightarrow>
      round_failed t (fname f) (ftimeout f) (fstatus f) s = (stop, timeout, status, s') \<Longrightarrow>
    adm_step nests (s, K) (s', K[t :=
      f\<lparr>fphase := if stop then Leaving else Checking, ftimeout := timeout, fstatus := status\<rparr> # fs])"
| leave: "t < length K \<Longrightarrow> K ! t = f # fs \<Longrightarrow> fphase f = Leaving \<Longrightarrow>
    adm_step nests (s, K) (task_leave (fname f) (fstatus f) s,
      K[t := if fstatus f = SGX_SUCCESS then f\<lparr>fphase := Running\<rparr> # fs else fs])"
| free: "t < length K \<Longrightarrow> K ! t = f # fs \<Longrightarrow> fphase f = Running \<Longrightarrow>
    adm_step nests (s, K) (free_enclave t (fname f) s, K[t := fs])"

inductive adm_reachable :: "(string \<Rightarrow> string \<Rightarrow> bool) \<Rightarrow> adm_cfg \<Rightarrow> bool"
  for nests :: "string \<Rightarrow> string \<Rightarrow> bool" where
  start: "adm_reachable nests (admission_start, replicate n [])"
| step: "adm_reachable nests c \<Longrightarrow> adm_step nests c c' \<Longrightarrow> adm_reachable nests c'"

text \<open>
  The nesting of the sources: \<open>srd_change\<close>, which the main loop reaches by an OCALL, makes two
  ECALLs from the same thread (\<open>src/app/process/Srd.cpp\<close>).
\<close>

definition no_nesting :: "string \<Rightarrow> string \<Rightarrow> bool" where
  "no_nesting outer inner = False"

definition main_loop_nesting :: "string \<Rightarrow> string \<Rightarrow> bool" where
  "main_loop_nesting outer inner \<longleftrightarrow>
     outer = ''Ecall_main_loop'' \<and> inner \<in> {''Ecall_srd_set_change'', ''Ecall_srd_decrease''}"

text \<open>The calls of a kind in flight, and the threads with a call inside the enclave.\<close>

definition calls :: "(frame \<Rightarrow> bool) \<Rightarrow> frame list list \<Rightarrow> nat" where
  "calls P K = sum_list (map (\<lambda>fs. length (filter P fs)) K)"

definition threads_inside :: "frame list list \<Rightarrow> nat set" where
  "threads_inside K = {t. t < length K \<and> (\<exists>f \<in> set (K ! t). fphase f = Running)}"

section \<open>Every counter is exact\<close>

definition waits :: "nat \<Rightarrow> frame \<Rightarrow> bool" where
  "waits p f \<longleftrightarrow> fphase f \<noteq> Running \<and> task_prio (fname f) = p"

definition counters_exact :: "adm_cfg \<Rightarrow> bool" where
  "counters_exact c \<longleftrightarrow>
     length (waiting_v (fst c)) = 4 \<and>
     (\<forall>p < 4. waiting_v (fst c) ! p = int (calls (waits p) (snd c))) \<and>
     (\<forall>name. counter (invoked_um (fst c)) name = int (calls (\<lambda>f. fname f = name) (snd c)))"

lemma task_prio_less: "task_prio name < 4"
proof -
  have "\<forall>p \<in> snd ` set g_task_priority_um. p < 4" by (simp add: g_task_priority_um_def)
  then show ?thesis
    by (force simp: task_prio_def split: option.splits dest: map_of_SomeD)
qed

lemma calls_update:
  "t < length K \<Longrightarrow> int (calls P (K[t := fs])) =
     int (calls P K) + int (length (filter P fs)) - int (length (filter P (K ! t)))"
proof -
  assume t: "t < length K"
  have "length (filter P (K ! t)) \<le> calls P K"
    using t by (auto simp: calls_def intro!: member_le_sum_list)
  then show ?thesis
    using t by (simp add: calls_def map_update sum_list_update of_nat_diff)
qed

lemma calls_start: "calls P (replicate n []) = 0"
  by (simp add: calls_def)

lemma counter_upd [simp]: "counter (m(k \<mapsto> v)) l = (if l = k then v else counter m l)"
  by (simp add: counter_def)

lemma counter_touch [simp]: "counter (m(k \<mapsto> counter m k)) = counter m"
  by (rule ext) simp

lemma block_scan_frame:
  "running_um (snd (block_scan ts s)) = running_um s" "running_num (snd (block_scan ts s)) = running_num s"
  "waiting_v (snd (block_scan ts s)) = waiting_v s"
  "counter (invoked_um (snd (block_scan ts s))) = counter (invoked_um s)"
  by (induction ts s rule: block_scan.induct) (auto simp: Let_def)

lemma block_scan_iff:
  "fst (block_scan ts s) \<longleftrightarrow> list_ex (\<lambda>t. 0 < counter (invoked_um s) t) ts"
proof (induction ts s rule: block_scan.induct)
  case (2 btask btasks s)
  then show ?case by (simp add: Let_def del: fun_upd_apply)
qed simp

lemma try_lock_section_frame:
  "waiting_v (snd (try_lock_section t name l s)) = waiting_v s"
  "invoked_um (snd (try_lock_section t name l s)) = invoked_um s"
  by (auto simp: try_lock_section_def take_enclave_def split: option.splits)

lemma round_failed_frame:
  "round_failed t name n st s = (stop, n', st', s') \<Longrightarrow>
     waiting_v s' = waiting_v s \<and> invoked_um s' = invoked_um s \<and> running_num s' = running_num s \<and>
     (running_um s' = running_um s \<or> running_um s' = (running_um s)(t := None))"
  by (auto simp: round_failed_def Let_def split: if_splits)

lemma counters_exact_step:
  assumes "adm_step nests c c'" and "counters_exact c"
  shows "counters_exact c'"
  using assms
proof (induction rule: adm_step.induct)
  case (call t K name s)
  then show ?case
    by (auto simp: counters_exact_def task_enter_def Let_def calls_update new_frame_def waits_def
      nth_list_update task_prio_less)
next
  case (check t K f fs s blocked s')
  then show ?case using block_scan_frame [of "block_tasks (fname f)" s]
    by (auto simp: counters_exact_def calls_update waits_def)
next
  case (lock t K f fs locked s granted s')
  then show ?case using try_lock_section_frame [of t "fname f" locked s]
    by (auto simp: counters_exact_def calls_update waits_def)
next
  case (retry t K f fs s stop timeout status s')
  then show ?case using round_failed_frame [OF retry(4)]
    by (auto simp: counters_exact_def calls_update waits_def)
next
  case (leave t K f fs s)
  then show ?case
    by (auto simp: counters_exact_def task_leave_def Let_def calls_update waits_def
      nth_list_update task_prio_less)
next
  case (free t K f fs s)
  then show ?case
    by (auto simp: counters_exact_def free_enclave_def Let_def calls_update waits_def)
qed

lemma counters_exact_reachable: "adm_reachable nests c \<Longrightarrow> counters_exact c"
proof (induction rule: adm_reachable.induct)
  case (start n)
  have "p < 4 \<Longrightarrow> [0, 0, 0, 0 :: int] ! p = 0" for p by (auto simp: less_Suc_eq numeral_eq_Suc)
  then show ?case by (simp add: counters_exact_def admission_start_def calls_start counter_def)
qed (rule counters_exact_step)

lemma calls_member:
  "distinct ns \<Longrightarrow> int (calls (\<lambda>f. fname f \<in> set ns) K) = (\<Sum>n \<leftarrow> ns. int (calls (\<lambda>f. fname f = n) K))"
proof (induction ns)
  case (Cons n ns)
  have "length (filter (\<lambda>f. fname f \<in> set (n # ns)) fs) =
      length (filter (\<lambda>f. fname f = n) fs) + length (filter (\<lambda>f. fname f \<in> set ns) fs)" for fs :: "frame list"
    using Cons.prems by (induction fs) auto
  then show ?case using Cons by (simp add: calls_def sum_list_addf)
qed (simp add: calls_def)

lemma fold_counters:
  assumes "\<And>n. 0 \<le> counter m n"
  shows "fold (\<lambda>task n. case m task of None \<Rightarrow> n | Some k \<Rightarrow> if k > 0 then n + k else n) ns a =
    a + (\<Sum>n \<leftarrow> ns. counter m n)"
proof (induction ns arbitrary: a)
  case (Cons n ns)
  then show ?case using assms [of n] by (auto simp: counter_def split: option.splits)
qed simp

lemma calls_none: "calls P K = 0 \<longleftrightarrow> (\<forall>fs \<in> set K. \<forall>f \<in> set fs. \<not> P f)"
  by (simp add: calls_def filter_empty_conv)

section \<open>The number of threads inside\<close>

text \<open>
  Without nested calls a thread that was granted its place has an entry in
  \<open>g_running_task_um\<close>, and \<open>g_running_task_num\<close> is at least the number of entries.
\<close>

definition granted_frame :: "frame \<Rightarrow> bool" where
  "granted_frame f \<longleftrightarrow> fphase f = Running \<or> (fphase f = Leaving \<and> fstatus f = SGX_SUCCESS)"

definition slots_ok :: "adm_cfg \<Rightarrow> bool" where
  "slots_ok c \<longleftrightarrow>
     (\<forall>t < length (snd c). length (snd c ! t) \<le> 1 \<and>
        (\<forall>f \<in> set (snd c ! t). granted_frame f \<longrightarrow> running_um (fst c) t \<noteq> None)) \<and>
     dom (running_um (fst c)) \<subseteq> {..< length (snd c)} \<and>
     int (card (dom (running_um (fst c)))) \<le> running_num (fst c) \<and>
     running_num (fst c) \<le> ENC_MAX_THREAD_NUM"

lemma slots_ok_finite: "slots_ok (s, K) \<Longrightarrow> finite (dom (running_um s))"
  by (auto simp: slots_ok_def intro: finite_subset)

text \<open>One thread moves: its stack and its entry change, the others keep theirs.\<close>

lemma slots_ok_move:
  assumes "slots_ok (s, K)" and "t < length K" and "length fs \<le> 1"
    and "\<And>u. u \<noteq> t \<Longrightarrow> running_um s' u = running_um s u"
    and "\<And>f. f \<in> set fs \<Longrightarrow> granted_frame f \<Longrightarrow> running_um s' t \<noteq> None"
    and "int (card (dom (running_um s'))) \<le> running_num s'" and "running_num s' \<le> ENC_MAX_THREAD_NUM"
  shows "slots_ok (s', K[t := fs])"
proof -
  have "dom (running_um s') \<subseteq> insert t (dom (running_um s))" using assms(4) by (force simp: dom_def)
  also have "\<dots> \<subseteq> {..< length K}" using assms(1,2) by (simp add: slots_ok_def)
  finally have "running_um s' u \<noteq> None \<Longrightarrow> u < length K" for u by auto
  then show ?thesis using assms by (auto simp: slots_ok_def nth_list_update)
qed

lemma slots_ok_length: "slots_ok (s, K) \<Longrightarrow> t < length K \<Longrightarrow> K ! t = f # fs \<Longrightarrow> fs = []"
  by (force simp: slots_ok_def)

lemma take_enclave_slots:
  assumes "slots_ok (s, K)" and "running_num s < ENC_MAX_THREAD_NUM"
    and "s' = take_enclave t name s"
  shows "u \<noteq> t \<Longrightarrow> running_um s' u = running_um s u" "running_um s' t \<noteq> None"
    "int (card (dom (running_um s'))) \<le> running_num s'" "running_num s' \<le> ENC_MAX_THREAD_NUM"
  using assms slots_ok_finite [OF assms(1)]
  by (auto simp: slots_ok_def take_enclave_def insert_absorb domI card_insert_if domIff split: option.splits)

lemma slots_ok_step:
  assumes "adm_step no_nesting c c'" and "slots_ok c"
  shows "slots_ok c'"
  using assms
proof (induction rule: adm_step.induct)
  case (call t K name s)
  then show ?case
    by (intro slots_ok_move) (auto simp: no_nesting_def task_enter_def Let_def new_frame_def granted_frame_def slots_ok_def)
next
  case (check t K f fs s blocked s')
  have "running_um s' = running_um s" "running_num s' = running_num s"
    using block_scan_frame [of "block_tasks (fname f)" s] check by simp_all
  then show ?case using check slots_ok_length [of s K t f fs]
    by (intro slots_ok_move) (auto simp: granted_frame_def slots_ok_def split: if_splits)
next
  case (lock t K f fs locked s granted s')
  show ?case
  proof (cases granted)
    case True
    then have "s' = take_enclave t (fname f) s" "running_num s < ENC_MAX_THREAD_NUM"
      using lock by (auto simp: try_lock_section_def split: if_splits)
    then show ?thesis using lock slots_ok_length [of s K t f fs] take_enclave_slots [of s K s' t]
      by (intro slots_ok_move) auto
  next
    case False
    then have "s' = s" using lock by (auto simp: try_lock_section_def split: if_splits)
    then show ?thesis using False lock slots_ok_length [of s K t f fs]
      by (intro slots_ok_move) (auto simp: granted_frame_def slots_ok_def)
  qed
next
  case (retry t K f fs s stop timeout status s')
  have "dom (running_um s') \<subseteq> dom (running_um s)" and n: "running_num s' = running_num s"
    and u: "\<And>u. u \<noteq> t \<Longrightarrow> running_um s' u = running_um s u"
    using round_failed_frame [OF retry(4)] by (auto split: if_splits)
  then have "card (dom (running_um s')) \<le> card (dom (running_um s))"
    by (intro card_mono slots_ok_finite [OF retry(5)])
  moreover have "stop \<Longrightarrow> status \<noteq> SGX_SUCCESS"
    using retry(4) by (auto simp: round_failed_def Let_def split: if_splits)
  ultimately show ?case using retry u n slots_ok_length [of s K t f fs]
    by (intro slots_ok_move) (auto simp: granted_frame_def slots_ok_def split: if_splits)
next
  case (leave t K f fs s)
  then show ?case using slots_ok_length [of s K t f fs]
    by (intro slots_ok_move) (auto simp: task_leave_def Let_def granted_frame_def slots_ok_def)
next
  case (free t K f fs s)
  then have "running_um s t \<noteq> None" by (force simp: slots_ok_def granted_frame_def)
  then have "card (dom (running_um s)) = Suc (card (dom (running_um s) - {t}))"
    by (intro card.remove slots_ok_finite [OF free(4)]) auto
  then show ?case using free slots_ok_length [of s K t f fs]
    by (intro slots_ok_move) (auto simp: free_enclave_def Let_def granted_frame_def slots_ok_def)
qed

lemma slots_ok_reachable: "adm_reachable no_nesting c \<Longrightarrow> slots_ok c"
proof (induction rule: adm_reachable.induct)
  case (start n)
  then show ?case by (simp add: slots_ok_def admission_start_def)
qed (rule slots_ok_step)

section \<open>Runs\<close>

text \<open>
  The moves of one call, put together: a call that meets no obstacle is inside after four steps.
\<close>

definition running_frame :: "string \<Rightarrow> frame" where
  "running_frame name = (new_frame name)\<lparr>fphase := Running\<rparr>"

definition settled :: "adm_cfg \<Rightarrow> bool" where
  "settled c \<longleftrightarrow> (\<forall>fs \<in> set (snd c). \<forall>f \<in> set fs. fphase f = Running)"

lemma settled_waiting:
  assumes "adm_reachable nests (s, K)" and "settled (s, K)"
  shows "p < 4 \<Longrightarrow> waiting_v s ! p = 0" "length (waiting_v s) = 4"
proof -
  have "calls (waits p) K = 0" using assms(2) by (auto simp: calls_none settled_def waits_def)
  then show "p < 4 \<Longrightarrow> waiting_v s ! p = 0" "length (waiting_v s) = 4"
    using counters_exact_reachable [OF assms(1)] by (simp_all add: counters_exact_def)
qed

lemma higher_settled:
  assumes "\<And>q. q < p \<Longrightarrow> v ! q = 0" shows "get_higher_prio_waiting_task_num v p = 0"
  using assms by (induction p) auto

lemma run_enter:
  assumes r: "adm_reachable nests (s, K)" and "settled (s, K)" and t: "t < length K"
    and name: "name \<in> fst ` set g_task_priority_um"
    and stack: "K ! t = [] \<or> (fphase (hd (K ! t)) = Running \<and> nests (fname (hd (K ! t))) name)"
    and free: "\<forall>b \<in> set (block_tasks name). calls (\<lambda>f. fname f = b) (K[t := new_frame name # K ! t]) = 0"
    and room: "running_num s < ENC_MAX_THREAD_NUM - ENC_RESERVED_THREAD_NUM \<or>
      task_prio name = 0 \<and> running_num s < ENC_MAX_THREAD_NUM"
  shows "\<exists>s'. adm_reachable nests (s', K[t := running_frame name # K ! t]) \<and>
    running_num s' = running_num (take_enclave t name s) \<and> running_um s' = running_um (take_enclave t name s)"
proof -
  define K1 where "K1 = K[t := new_frame name # K ! t]"
  define s1 where "s1 = task_enter name s"
  have r1: "adm_reachable nests (s1, K1)"
    unfolding s1_def K1_def by (rule adm_reachable.step [OF r]) (rule adm_step.call [where nests = nests, OF t name stack])
  have len: "t < length K1" and top: "K1 ! t = new_frame name # K ! t" using t by (simp_all add: K1_def)
  obtain b s2 where s2: "block_scan (block_tasks (fname (new_frame name))) s1 = (b, s2)" by fastforce
  have "\<not> b"
    using counters_exact_reachable [OF r1] free s2 block_scan_iff [of "block_tasks name" s1]
    by (auto simp: counters_exact_def K1_def new_frame_def list_ex_iff)
  then have r2: "adm_reachable nests (s2, K[t := (new_frame name)\<lparr>fphase := Locking\<rparr> # K ! t])"
    using adm_reachable.step [OF r1 adm_step.check [OF len top _ s2]] t by (simp add: K1_def new_frame_def)
  have same: "running_num s2 = running_num s" "running_um s2 = running_um s" "waiting_v s2 = waiting_v s1"
    using block_scan_frame [of "block_tasks name" s1] s2
    by (simp_all add: new_frame_def s1_def task_enter_def Let_def)
  have "get_higher_prio_waiting_task_num (waiting_v s2) (task_prio name) = 0"
    using settled_waiting [OF r assms(2)] task_prio_less [of name]
    by (intro higher_settled) (simp add: same s1_def task_enter_def Let_def)
  then have go: "try_lock_section t (fname ((new_frame name)\<lparr>fphase := Locking\<rparr>)) True s2 = (True, take_enclave t name s2)"
    using room by (auto simp: try_lock_section_def enclave_refused_def same new_frame_def)
  have r3: "adm_reachable nests (take_enclave t name s2, K[t := (new_frame name)\<lparr>fphase := Leaving\<rparr> # K ! t])"
    using adm_reachable.step [OF r2 adm_step.lock [OF _ _ _ go]] t by (simp add: new_frame_def)
  have "adm_reachable nests (task_leave name SGX_SUCCESS (take_enclave t name s2), K[t := running_frame name # K ! t])"
    using adm_reachable.step [OF r3 adm_step.leave [of t _ "(new_frame name)\<lparr>fphase := Leaving\<rparr>"]] t
    by (simp add: new_frame_def running_frame_def)
  then show ?thesis
    by (rule exI [where x = "task_leave name SGX_SUCCESS (take_enclave t name s2)", OF conjI])
      (auto simp: task_leave_def Let_def take_enclave_def same split: option.splits)
qed

lemma in_task_table:
  "name \<in> {''Ecall_gen_and_upload_work_report'', ''Ecall_confirm_file'', ''Ecall_main_loop'',
     ''Ecall_srd_set_change'', ''Ecall_gen_sgx_measurement''} \<Longrightarrow> name \<in> fst ` set g_task_priority_um"
  by (auto simp: g_task_priority_um_def)

lemma task_prio_simps [simp]:
  "task_prio ''Ecall_gen_and_upload_work_report'' = 0" "task_prio ''Ecall_confirm_file'' = 0"
  "task_prio ''Ecall_main_loop'' = 0" "task_prio ''Ecall_gen_sgx_measurement'' = 0"
  "task_prio ''Ecall_srd_set_change'' = 1" "task_prio ''Ecall_get_workload'' = 3"
  by (simp_all add: task_prio_def g_task_priority_um_def)

lemma block_tasks_simps [simp]:
  "block_tasks ''Ecall_gen_and_upload_work_report'' = []" "block_tasks ''Ecall_main_loop'' = []"
  "block_tasks ''Ecall_confirm_file'' = [''Ecall_gen_and_upload_work_report'']"
  "block_tasks ''Ecall_gen_sgx_measurement'' = []" "block_tasks ''Ecall_srd_set_change'' = []"
  "block_tasks ''Ecall_get_workload'' = []"
  by (simp_all add: block_tasks_def g_block_tasks_um_def)

text \<open>
  A thread asks to confirm a file while another one makes a work report: it is told to wait and
  remembers the busy status.
\<close>

abbreviation (input) busy_frame :: frame where
  "busy_frame \<equiv> (new_frame ''Ecall_confirm_file'')\<lparr>fphase := Retrying, fstatus := SGX_ERROR_DEVICE_BUSY\<rparr>"

lemma run_blocked:
  assumes r: "adm_reachable nests (s, K)" and t: "t < length K" "K ! t = []"
    and w: "w < length K" "K ! w = [running_frame ''Ecall_gen_and_upload_work_report'']"
  shows "\<exists>s'. adm_reachable nests (s', K[t := [busy_frame], w := []]) \<and>
    running_num s' = running_num s - 1 \<and> running_um s' = (running_um s)(w := None)"
proof -
  let ?c = "''Ecall_confirm_file''" and ?w = "''Ecall_gen_and_upload_work_report''"
  have tw: "t \<noteq> w" using t w by auto
  have r1: "adm_reachable nests (task_enter ?c s, K[t := [new_frame ?c]])"
    using adm_reachable.step [OF r adm_step.call [where nests = nests, OF t(1) in_task_table disjI1 [OF t(2)]]] t by simp
  obtain b s2 where s2: "block_scan (block_tasks (fname (new_frame ?c))) (task_enter ?c s) = (b, s2)" by fastforce
  have "\<not> calls (\<lambda>f. fname f = ?w) (K[t := [new_frame ?c]]) = 0"
    using w tw unfolding calls_none by (force simp: in_set_conv_nth running_frame_def new_frame_def)
  then have "b"
    using counters_exact_reachable [OF r1] s2 block_scan_iff [of "[?w]" "task_enter ?c s"]
    by (auto simp: counters_exact_def new_frame_def)
  then have r2: "adm_reachable nests (s2, K[t := [busy_frame]])"
    using adm_reachable.step [OF r1 adm_step.check [of t _ _ "[]", OF _ _ _ s2]] t by (simp add: new_frame_def)
  have "adm_reachable nests (free_enclave w ?w s2, K[t := [busy_frame], w := []])"
    using adm_reachable.step [OF r2 adm_step.free [of w _ "running_frame ?w" "[]"]] w tw
    by (simp add: running_frame_def new_frame_def)
  then show ?thesis
    using block_scan_frame(1,2) [of "[?w]" "task_enter ?c s"] s2
    by (intro exI [where x = "free_enclave w ?w s2"])
      (auto simp: free_enclave_def task_enter_def Let_def new_frame_def)
qed

text \<open>
  When the work report is done the waiting thread is granted its place, but its status is still
  the busy one, so it returns without ever giving the place back.
\<close>

lemma run_leak:
  assumes r: "adm_reachable nests (s, K[t := [busy_frame]])" and t: "t < length K" and K: "\<forall>fs \<in> set (K[t := []]). fs = []"
    and room: "running_num s < ENC_MAX_THREAD_NUM"
  shows "\<exists>s'. adm_reachable nests (s', K[t := []]) \<and>
    running_num s' = running_num (take_enclave t ''Ecall_confirm_file'' s) \<and>
    running_um s' = running_um (take_enclave t ''Ecall_confirm_file'' s)"
proof -
  let ?c = "''Ecall_confirm_file''" and ?w = "''Ecall_gen_and_upload_work_report''"
  let ?f = "\<lambda>ph. busy_frame\<lparr>fphase := ph\<rparr>"
  have rf: "round_failed t (fname busy_frame) (ftimeout busy_frame) (fstatus busy_frame) s =
      (False, 0, SGX_ERROR_DEVICE_BUSY, s)"
    by (simp add: round_failed_def new_frame_def)
  have r1: "adm_reachable nests (s, K[t := [?f Checking]])"
    using adm_reachable.step [OF r adm_step.retry [of t _ busy_frame "[]", OF _ _ _ rf]] t by (simp add: new_frame_def)
  obtain b s2 where s2: "block_scan (block_tasks (fname (?f Checking))) s = (b, s2)" by fastforce
  have "calls (\<lambda>f. fname f = ?w) (K[t := []]) = 0" using K unfolding calls_none by auto
  then have "calls (\<lambda>f. fname f = ?w) (K[t := [?f Checking]]) = 0"
    using calls_update [of t "K[t := []]" "\<lambda>f. fname f = ?w" "[?f Checking]"] t by (simp add: new_frame_def)
  then have "\<not> b"
    using counters_exact_reachable [OF r1] s2 block_scan_iff [of "[?w]" s]
    by (auto simp: counters_exact_def new_frame_def)
  then have r2: "adm_reachable nests (s2, K[t := [?f Locking]])"
    using adm_reachable.step [OF r1 adm_step.check [of t _ _ "[]", OF _ _ _ s2]] t by (simp add: new_frame_def)
  have same: "running_num s2 = running_num s" "running_um s2 = running_um s"
    using block_scan_frame(1,2) [of "[?w]" s] s2 by (simp_all add: new_frame_def)
  have go: "try_lock_section t (fname (?f Locking)) True s2 = (True, take_enclave t ?c s2)"
    using room by (simp add: try_lock_section_def enclave_refused_def same new_frame_def)
  have r3: "adm_reachable nests (take_enclave t ?c s2, K[t := [?f Leaving]])"
    using adm_reachable.step [OF r2 adm_step.lock [OF _ _ _ go]] t by (simp add: new_frame_def)
  have "adm_reachable nests (task_leave ?c SGX_ERROR_DEVICE_BUSY (take_enclave t ?c s2), K[t := []])"
    using adm_reachable.step [OF r3 adm_step.leave [of t _ "?f Leaving" "[]"]] t by (simp add: new_frame_def)
  then show ?thesis
    by (rule exI [where x = "task_leave ?c SGX_ERROR_DEVICE_BUSY (take_enclave t ?c s2)", OF conjI])
      (auto simp: task_leave_def Let_def take_enclave_def same split: option.splits)
qed

text \<open>Repeated by as many threads as there are places, this leaves an empty enclave that is full.\<close>

lemma leak_many:
  "k \<le> 15 \<Longrightarrow> \<exists>s. adm_reachable nests (s, replicate 16 []) \<and> running_num s = int k \<and>
     (\<forall>t. running_um s t \<noteq> None \<longrightarrow> t < k)"
proof (induction k)
  case 0
  show ?case by (rule exI [where x = admission_start])
    (simp add: adm_reachable.start, simp add: admission_start_def)
next
  case (Suc k)
  let ?K = "replicate 16 [] :: frame list list" and ?w = "''Ecall_gen_and_upload_work_report''"
  from Suc obtain s where s: "adm_reachable nests (s, ?K)" "running_num s = int k"
    "\<And>t. running_um s t \<noteq> None \<Longrightarrow> t < k" by auto
  then have fresh: "running_um s 15 = None" "running_um s k = None" using Suc.prems by fastforce+
  obtain s1 where s1: "adm_reachable nests (s1, ?K[15 := [running_frame ?w]])"
      "running_num s1 = int k + 1" "running_um s1 = (running_um s)(15 \<mapsto> [?w \<mapsto> 1])"
    using run_enter [OF s(1), of 15 ?w] s Suc.prems fresh
    by (auto simp: settled_def take_enclave_def in_task_table)
  obtain s2 where s2: "adm_reachable nests (s2, ?K[15 := [running_frame ?w], k := [busy_frame], 15 := []])"
      "running_num s2 = int k" "running_um s2 = running_um s"
    using run_blocked [OF s1(1), of k 15] s1 Suc.prems fresh by (auto simp: fun_upd_idem)
  have eq: "?K[15 := [running_frame ?w], k := [busy_frame], 15 := []] = ?K[k := [busy_frame]]"
    using Suc.prems by (intro nth_equalityI) (auto simp: nth_list_update)
  have "?K[k := []] = ?K" using Suc.prems by (simp add: list_update_same_conv)
  then show ?case using run_leak [of nests s2 ?K k] s2 Suc.prems fresh s(3)
    by (auto simp: eq take_enclave_def less_SucI split: if_splits)
qed

text \<open>
  The main loop and one nested call of its thread, then as many other threads as the counter
  allows.
\<close>

lemma run_nested:
  "\<exists>s. adm_reachable main_loop_nesting (s, [running_frame ''Ecall_main_loop''] # replicate 15 []) \<and>
     running_num s = 0 \<and> running_um s = Map.empty"
proof -
  let ?m = "''Ecall_main_loop''" and ?c = "''Ecall_srd_set_change''"
  let ?K = "[running_frame ?m] # replicate 15 [] :: frame list list"
  have r0: "adm_reachable main_loop_nesting (admission_start, replicate 16 [])" by (rule adm_reachable.start)
  have rep: "replicate 16 [] = [] # (replicate 15 [] :: frame list list)" by (simp flip: replicate_Suc)
  obtain s1 where s1: "adm_reachable main_loop_nesting (s1, ?K)" "running_num s1 = 1"
      "running_um s1 = [0 \<mapsto> [?m \<mapsto> 1]]"
    using run_enter [OF r0, of 0 ?m] by (auto simp: settled_def take_enclave_def in_task_table admission_start_def rep)
  have "main_loop_nesting ?m ?c" by (simp add: main_loop_nesting_def)
  then obtain s2 where s2: "adm_reachable main_loop_nesting (s2, [running_frame ?c, running_frame ?m] # replicate 15 [])"
      "running_num s2 = 1" "dom (running_um s2) = {0}"
    using run_enter [OF s1(1), of 0 ?c] s1
    by (auto simp: settled_def take_enclave_def in_task_table running_frame_def new_frame_def)
  have "adm_reachable main_loop_nesting (free_enclave 0 ?c s2, ?K)"
    using adm_reachable.step [OF s2(1) adm_step.free [of 0 _ "running_frame ?c" "[running_frame ?m]"]]
    by (simp add: running_frame_def new_frame_def)
  moreover have "running_um (free_enclave 0 ?c s2) = Map.empty"
    using s2(3) unfolding dom_eq_empty_conv [symmetric] by (simp add: free_enclave_def Let_def)
  ultimately show ?thesis using s2(2)
    by (intro exI [where x = "free_enclave 0 ?c s2"]) (auto simp: free_enclave_def Let_def)
qed

lemma run_many:
  assumes "adm_reachable nests (s, [running_frame n] # replicate 15 [])" "running_num s = 0" "running_um s = Map.empty"
  shows "k \<le> 15 \<Longrightarrow> \<exists>s. adm_reachable nests (s,
      [running_frame n] # replicate k [running_frame ''Ecall_gen_sgx_measurement''] @ replicate (15 - k) []) \<and>
    running_num s = int k \<and> (\<forall>t. running_um s t \<noteq> None \<longrightarrow> t \<le> k)"
proof (induction k)
  case 0
  then show ?case using assms by auto
next
  case (Suc k)
  let ?m = "''Ecall_gen_sgx_measurement''"
  let ?K = "\<lambda>k. [running_frame n] # replicate k [running_frame ?m] @ replicate (15 - k) []"
  from Suc obtain s where s: "adm_reachable nests (s, ?K k)" "running_num s = int k"
    "\<And>t. running_um s t \<noteq> None \<Longrightarrow> t \<le> k" by auto
  have "15 - k = Suc (15 - Suc k)" using Suc.prems by simp
  then have upd: "(?K k)[Suc k := [running_frame ?m]] = ?K (Suc k)" and "?K k ! Suc k = []"
    by (simp_all add: list_update_append nth_append replicate_app_Cons_same)
  moreover have "running_um s (Suc k) = None" using s(3) by fastforce
  moreover have "settled (s, ?K k)" by (auto simp: settled_def running_frame_def)
  ultimately show ?case using run_enter [OF s(1), of "Suc k" ?m] s Suc.prems
    by (force simp: in_task_table take_enclave_def)
qed

section \<open>The loop ends\<close>

text \<open>A task below the threshold returns: every turn that fails counts.\<close>

lemma try_loop_low_prio:
  assumes "task_prio name > ENC_PRIO_TIMEOUT_THRESHOLD" and "timeout < ENC_TASK_TIMEOUT"
  shows "\<exists>st s'. try_loop tid name locks others i timeout status s = Some (st, s')"
  using assms(2)
proof (induction "ENC_TASK_TIMEOUT - timeout" arbitrary: i timeout status s rule: less_induct)
  case less
  note step = less.hyps [of "timeout + 1"]
  show ?case
    using assms(1) less.prems step
    by (subst try_loop.simps) (auto simp: round_failed_def Let_def split: prod.splits)
qed

text \<open>
  A task above the threshold waits for ever when the enclave is full and no thread gives its
  place back.
\<close>

lemma try_loop_starves:
  assumes "task_prio name \<le> ENC_PRIO_TIMEOUT_THRESHOLD"
    and "\<And>i s. running_num s \<ge> ENC_MAX_THREAD_NUM \<Longrightarrow> running_num (others i s) \<ge> ENC_MAX_THREAD_NUM"
    and "running_num s \<ge> ENC_MAX_THREAD_NUM"
  shows "try_loop tid name locks others i timeout status s = None"
proof -
  have "task_prio name \<le> ENC_PRIO_TIMEOUT_THRESHOLD \<longrightarrow>
      (\<forall>i s. running_num s \<ge> ENC_MAX_THREAD_NUM \<longrightarrow> running_num (others i s) \<ge> ENC_MAX_THREAD_NUM) \<longrightarrow>
      \<not> running_num s \<ge> ENC_MAX_THREAD_NUM"
    if "try_loop tid name locks others i timeout status s = Some y" for y
    using that
  proof (rule try_loop.raw_induct [where P = "\<lambda>tid name locks others i timeout status s y.
      task_prio name \<le> ENC_PRIO_TIMEOUT_THRESHOLD \<longrightarrow>
      (\<forall>i s. running_num s \<ge> ENC_MAX_THREAD_NUM \<longrightarrow> running_num (others i s) \<ge> ENC_MAX_THREAD_NUM) \<longrightarrow>
      \<not> running_num s \<ge> ENC_MAX_THREAD_NUM", rotated], goal_cases)
    case (1 tl tid name locks others i timeout status s y)
    obtain b s1 where s1: "block_scan (block_tasks name) s = (b, s1)" by fastforce
    then have same: "running_num s1 = running_num s" using block_scan_frame(2) [of "block_tasks name" s] by simp
    show ?case
    proof (intro impI notI)
      assume p: "task_prio name \<le> 1" and o: "\<forall>i s. 15 \<le> running_num s \<longrightarrow> 15 \<le> running_num (others i s)"
        and full: "15 \<le> running_num s"
      have "tl tid name locks others (i + 1) timeout (if b then SGX_ERROR_DEVICE_BUSY else status) (others i s1) = Some y"
        using 1(2) s1 p full by (cases b) (simp_all add: Let_def try_lock_section_def round_failed_def same)
      from 1(1) [OF this] show False using p o full by (simp add: same)
    qed
  qed
  then show ?thesis using assms by (cases "try_loop tid name locks others i timeout status s") auto
qed

section \<open>Properties\<close>



text \<open>
  C13. As long as no running call makes another one from the same thread, at most
  \<open>ENC_MAX_THREAD_NUM\<close> threads are inside the enclave at any moment, however the calls
  interleave, are refused, time out or fail.
\<close>

theorem threads_inside_bounded:
  assumes "adm_reachable no_nesting (s, K)"
  shows "int (card (threads_inside K)) \<le> running_num s \<and> running_num s \<le> ENC_MAX_THREAD_NUM"
proof -
  have ok: "slots_ok (s, K)" using slots_ok_reachable [OF assms] .
  have "threads_inside K \<subseteq> dom (running_um s)"
    using ok by (fastforce simp: threads_inside_def slots_ok_def granted_frame_def)
  then have "card (threads_inside K) \<le> card (dom (running_um s))" by (rule card_mono [OF slots_ok_finite [OF ok]])
  then show ?thesis using ok by (simp add: slots_ok_def)
qed

theorem threads_inside_bounded_witness:
  "\<exists>s :: admission. int (card (threads_inside [[running_frame ''Ecall_main_loop'']])) \<le> running_num s \<and>
     running_num s \<le> ENC_MAX_THREAD_NUM"
proof -
  have "adm_reachable no_nesting (admission_start, replicate 1 [])" by (rule adm_reachable.start)
  then obtain s where "adm_reachable no_nesting (s, [[running_frame ''Ecall_main_loop'']])"
    using run_enter [of no_nesting admission_start "replicate 1 []" 0 "''Ecall_main_loop''"]
    by (auto simp: settled_def in_task_table admission_start_def)
  from threads_inside_bounded [OF this] show ?thesis by blast
qed

text \<open>
  C34. A request of a task below the timeout threshold always returns, whatever the other threads do
  meanwhile and however often the mutex is taken.
\<close>

theorem low_prio_call_returns:
  assumes "task_prio name > ENC_PRIO_TIMEOUT_THRESHOLD"
  shows "\<exists>status s'. try_get_enclave tid name locks others s = Some (status, s')"
  using try_loop_low_prio [OF assms, of 0 tid locks others 0 SGX_SUCCESS "task_enter name s"]
  by (auto simp: try_get_enclave_def)

theorem low_prio_call_returns_witness:
  "\<exists>status s'. try_get_enclave 0 ''Ecall_get_workload'' (\<lambda>i. False) (\<lambda>i s. s) admission_start = Some (status, s')"
  by (rule low_prio_call_returns) simp

text \<open>
  A call that finds the mutex free, none of its blocking tasks invoked, no more than the
  permanent task of higher priority waiting and a place beside the reserved one is let in at its
  first attempt, the ECALL runs exactly once, and afterwards every counter is as before.
\<close>

theorem uncontended_call_balanced:
  assumes "locks 0" and "\<not> fst (block_scan (block_tasks name) (task_enter name s))"
    and "length (waiting_v s) = 4" and "get_higher_prio_waiting_task_num (waiting_v s) (task_prio name) \<le> 1"
    and "running_num s < ENC_MAX_THREAD_NUM - ENC_RESERVED_THREAD_NUM" and "running_um s tid = None"
  shows "\<exists>s'. with_enclave tid name locks others (\<lambda>(e, s). Some (ret, ecall e, s)) (e, s) = Some (ret, ecall e, s') \<and>
    waiting_v s' = waiting_v s \<and> counter (invoked_um s') = counter (invoked_um s) \<and>
    running_um s' = running_um s \<and> running_num s' = running_num s"
proof -
  let ?s1 = "task_enter name s"
  obtain s2 where s2: "block_scan (block_tasks name) ?s1 = (False, s2)"
    using assms(2) by (cases "block_scan (block_tasks name) ?s1") auto
  note same = block_scan_frame [of "block_tasks name" ?s1, unfolded s2 snd_conv]
  have h: "get_higher_prio_waiting_task_num (v[p := x]) p = get_higher_prio_waiting_task_num v p" for v x p
  proof -
    have "q \<le> p \<Longrightarrow> get_higher_prio_waiting_task_num (v[p := x]) q = get_higher_prio_waiting_task_num v q" for q
      by (induction q) auto
    then show ?thesis by simp
  qed
  have "try_get_enclave tid name locks others s = Some (SGX_SUCCESS, task_leave name SGX_SUCCESS (take_enclave tid name s2))"
    unfolding try_get_enclave_def by (subst try_loop.simps)
      (use assms in \<open>simp add: s2 Let_def try_lock_section_def enclave_refused_def same h, simp add: task_enter_def Let_def h\<close>)
  moreover have "(waiting_v s)[task_prio name := waiting_v s ! task_prio name + 1,
      task_prio name := waiting_v s ! task_prio name] = waiting_v s" by simp
  ultimately show ?thesis using assms(3,6) task_prio_less [of name] same
    by (auto simp: with_enclave_def free_enclave_def task_leave_def take_enclave_def task_enter_def Let_def fun_eq_iff
      split: option.splits)
qed

theorem uncontended_call_balanced_witness:
  "\<exists>s'. with_enclave 7 ''Ecall_gen_sgx_measurement'' (\<lambda>i. True) (\<lambda>i s. s) (\<lambda>(e, s). Some (SGX_SUCCESS, Suc e, s))
      (3, admission_start) = Some (SGX_SUCCESS, 4, s') \<and> running_num s' = 0"
  using uncontended_call_balanced [of "\<lambda>i. True" "''Ecall_gen_sgx_measurement''" admission_start 7
    "\<lambda>i s. s" SGX_SUCCESS Suc 3]
  by (auto simp: admission_start_def)

text \<open>
  A call that was blocked once keeps the status \<open>SGX_ERROR_DEVICE_BUSY\<close> when it is admitted
  later: it returns an error and its place is never given back.  There is a run after which no
  thread has a call in flight, the enclave counts as full, and a request for a work report waits
  for ever.
\<close>

theorem blocked_calls_fill_enclave:
  "\<exists>s. adm_reachable no_nesting (s, replicate 16 []) \<and> running_num s = ENC_MAX_THREAD_NUM \<and>
     (\<forall>tid locks. try_get_enclave tid ''Ecall_gen_and_upload_work_report'' locks (\<lambda>i s. s) s = None)"
proof -
  from leak_many [of 15 no_nesting] obtain s where
    "adm_reachable no_nesting (s, replicate 16 [])" "running_num s = ENC_MAX_THREAD_NUM" by auto
  moreover from this(2) have "try_get_enclave tid ''Ecall_gen_and_upload_work_report'' locks (\<lambda>i s. s) s = None" for tid locks
    unfolding try_get_enclave_def by (subst try_loop_starves) (simp_all add: task_enter_def Let_def)
  ultimately show ?thesis by blast
qed

text \<open>
  C39. The ECALL that \<open>srd_change\<close> makes from the thread of the main loop takes no place but gives
  one back: with it more threads than \<open>ENC_MAX_THREAD_NUM\<close>, the number of thread control
  structures of the enclave, are let in.
\<close>

theorem nested_call_exceeds_limit:
  "\<exists>s K. adm_reachable main_loop_nesting (s, K) \<and> int (card (threads_inside K)) = ENC_MAX_THREAD_NUM + 1"
proof -
  let ?K = "[running_frame ''Ecall_main_loop''] # replicate 15 [running_frame ''Ecall_gen_sgx_measurement'']"
  obtain s0 where "adm_reachable main_loop_nesting (s0, [running_frame ''Ecall_main_loop''] # replicate 15 [])"
      "running_num s0 = 0" "running_um s0 = Map.empty"
    using run_nested by blast
  from run_many [OF this, of 15] obtain s where "adm_reachable main_loop_nesting (s, ?K)" by auto
  moreover have "threads_inside ?K = {..< 16}"
  proof (intro equalityI subsetI)
    fix t :: nat assume "t \<in> {..< 16}"
    then show "t \<in> threads_inside ?K" by (cases t) (auto simp: threads_inside_def running_frame_def)
  qed (simp add: threads_inside_def)
  ultimately show ?thesis by (intro exI [where x = s] exI [where x = ?K]) simp
qed

end
