(* ===== verification/ECalls.thy ===== *)
theory ECalls
  imports Enclave Admission
begin

text \<open>
  The ECALL wrappers of the application, \<open>src/app/ecalls/ECalls.cpp\<close>: each asks for a thread of
  the enclave, makes the ECALL and gives the thread back.  The state is the enclave with the
  admission counters.  The lemmas show that a wrapper either leaves the enclave alone or makes
  exactly its ECALL, and so that every run of the application is a run of the enclave.
\<close>

section \<open>Calling\<close>

text \<open>
  A caller: its thread, what its request meets (\<^const>\<open>try_get_enclave\<close>), what the generated proxy
  answers when it does not enter the enclave, and what other threads and nested calls do to the
  counters while the ECALL runs.
\<close>

record caller =
  thread_id :: nat
  locks :: "nat \<Rightarrow> bool"
  others :: "nat \<Rightarrow> admission \<Rightarrow> admission"
  entry_status :: sgx_status
  meanwhile :: "admission \<Rightarrow> admission"

text \<open>The state of the application: the enclave and the counters.\<close>

type_synonym 'h app_state = "'h enclave \<times> admission"

text \<open>The result of a wrapper: its status, and what the ECALL wrote to its output if it was made.\<close>

type_synonym ('h, 'r) ecall_result = "(sgx_status \<times> 'r option \<times> 'h app_state) option"

definition invoke ::
  "string \<Rightarrow> caller \<Rightarrow> ('h enclave \<Rightarrow> ('r \<times> 'h enclave) option) \<Rightarrow> 'h app_state \<Rightarrow> ('h, 'r) ecall_result" where
  "invoke name c ecall a =
     map_option (\<lambda>(ret, (e, out), s). (ret, out, e, s))
       (with_enclave (thread_id c) name (locks c) (others c)
         (\<lambda>((e, out), s).
            if entry_status c \<noteq> SGX_SUCCESS then Some (entry_status c, (e, out), s)
            else map_option (\<lambda>(r, e). (SGX_SUCCESS, (e, Some r), meanwhile c s)) (ecall e))
         ((fst a, None), snd a))"

section \<open>Wrappers\<close>

definition Ecall_srd_increase ::
  "'h sgx \<Rightarrow> 'h ocalls \<Rightarrow> caller \<Rightarrow> string \<Rightarrow> 'h app_state \<Rightarrow> ('h, unit) ecall_result" where
  "Ecall_srd_increase S H c path =
     invoke ''Ecall_srd_increase'' c (\<lambda>e. Some ((), ecall_srd_increase S H path e))"

definition Ecall_srd_decrease ::
  "'h sgx \<Rightarrow> 'h ocalls \<Rightarrow> caller \<Rightarrow> int \<Rightarrow> 'h app_state \<Rightarrow> ('h, nat) ecall_result" where
  "Ecall_srd_decrease S H c change =
     invoke ''Ecall_srd_decrease'' c (\<lambda>e. ecall_srd_decrease S H change e)"

definition Ecall_main_loop ::
  "'h sgx \<Rightarrow> 'h ocalls \<Rightarrow> ('h enclave \<Rightarrow> 'h enclave) \<Rightarrow> (int \<Rightarrow> 'h enclave \<Rightarrow> 'h enclave option) \<Rightarrow> caller \<Rightarrow> nat \<Rightarrow> 'h app_state \<Rightarrow> ('h, unit) ecall_result" where
  "Ecall_main_loop S H yld cb c turns =
     invoke ''Ecall_main_loop'' c (\<lambda>e. map_option (Pair ()) (ecall_main_loop S H yld cb turns e))"

definition Ecall_restore_metadata ::
  "'h sgx \<Rightarrow> 'h ocalls \<Rightarrow> caller \<Rightarrow> 'h app_state \<Rightarrow> ('h, crust_status) ecall_result" where
  "Ecall_restore_metadata S H c =
     invoke ''Ecall_restore_metadata'' c (\<lambda>e. ecall_restore_metadata S H e)"

definition Ecall_cmp_chain_account_id ::
  "caller \<Rightarrow> string \<Rightarrow> 'h app_state \<Rightarrow> ('h, crust_status) ecall_result" where
  "Ecall_cmp_chain_account_id c account =
     invoke ''Ecall_cmp_chain_account_id'' c (\<lambda>e. Some (ecall_cmp_chain_account_id account e, e))"

definition Ecall_gen_and_upload_work_report ::
  "'h sgx \<Rightarrow> 'h ocalls \<Rightarrow> caller \<Rightarrow> string \<Rightarrow> u64 \<Rightarrow> 'h app_state \<Rightarrow> ('h, crust_status) ecall_result" where
  "Ecall_gen_and_upload_work_report S H c block_hash block_height =
     invoke ''Ecall_gen_and_upload_work_report'' c (\<lambda>e. ecall_gen_and_upload_work_report S H block_hash block_height e)"

definition Ecall_gen_key_pair ::
  "'h sgx \<Rightarrow> caller \<Rightarrow> string option \<Rightarrow> 'h app_state \<Rightarrow> ('h, sgx_status) ecall_result" where
  "Ecall_gen_key_pair S c account =
     invoke ''Ecall_gen_key_pair'' c (\<lambda>e. Some (ecall_gen_key_pair S account e))"

definition Ecall_get_quote_report ::
  "'h sgx \<Rightarrow> caller \<Rightarrow> bytes \<Rightarrow> 'h app_state \<Rightarrow> ('h, (sgx_status \<times> sgx_report)) ecall_result" where
  "Ecall_get_quote_report S c target_info =
     invoke ''Ecall_get_quote_report'' c (\<lambda>e. Some (ecall_get_quote_report S target_info e))"

definition Ecall_gen_sgx_measurement ::
  "'h sgx \<Rightarrow> caller \<Rightarrow> 'h app_state \<Rightarrow> ('h, sgx_status) ecall_result" where
  "Ecall_gen_sgx_measurement S c =
     invoke ''Ecall_gen_sgx_measurement'' c (\<lambda>e. Some (ecall_gen_sgx_measurement S e))"

definition Ecall_verify_and_upload_identity ::
  "('x, 'k) openssl \<Rightarrow> 'h sgx \<Rightarrow> 'h ocalls \<Rightarrow> bool \<Rightarrow> caller \<Rightarrow> string list \<Rightarrow> 'h app_state \<Rightarrow> ('h, crust_status) ecall_result" where
  "Ecall_verify_and_upload_identity X S H junk c IASReport =
     invoke ''Ecall_verify_and_upload_identity'' c (\<lambda>e. ecall_verify_and_upload_identity X S H junk IASReport e)"

definition Ecall_seal_file ::
  "'h sgx \<Rightarrow> 'h ocalls \<Rightarrow> caller \<Rightarrow> string \<Rightarrow> string \<Rightarrow> 'h app_state \<Rightarrow> ('h, (crust_status \<times> string)) ecall_result" where
  "Ecall_seal_file S H c p_tree path =
     invoke ''Ecall_seal_file'' c (\<lambda>e. ecall_seal_file S H p_tree path e)"

definition Ecall_unseal_file ::
  "'h sgx \<Rightarrow> 'h ocalls \<Rightarrow> caller \<Rightarrow> string list \<Rightarrow> string \<Rightarrow> nat \<Rightarrow> 'h app_state \<Rightarrow> ('h, (crust_status \<times> string)) ecall_result" where
  "Ecall_unseal_file S H c files p_dir path_len =
     invoke ''Ecall_unseal_file'' c (\<lambda>e. ecall_unseal_file S H files p_dir path_len e)"

definition Ecall_srd_set_change ::
  "caller \<Rightarrow> int \<Rightarrow> 'h app_state \<Rightarrow> ('h, unit) ecall_result" where
  "Ecall_srd_set_change c change =
     invoke ''Ecall_srd_set_change'' c (\<lambda>e. Some ((), ecall_srd_set_change change e))"

definition Ecall_srd_update_metadata ::
  "'h sgx \<Rightarrow> 'h ocalls \<Rightarrow> ('h enclave \<Rightarrow> 'h enclave) \<Rightarrow> caller \<Rightarrow> string \<Rightarrow> 'h app_state \<Rightarrow> ('h, unit) ecall_result" where
  "Ecall_srd_update_metadata S H yld c hashs =
     invoke ''Ecall_srd_update_metadata'' c (\<lambda>e. map_option (Pair ()) (ecall_srd_update_metadata S H yld hashs e))"

definition Ecall_confirm_file ::
  "'h sgx \<Rightarrow> caller \<Rightarrow> string \<Rightarrow> 'h app_state \<Rightarrow> ('h, crust_status) ecall_result" where
  "Ecall_confirm_file S c hash =
     invoke ''Ecall_confirm_file'' c (\<lambda>e. Some (ecall_confirm_file S hash e))"

definition Ecall_delete_file ::
  "'h sgx \<Rightarrow> 'h ocalls \<Rightarrow> caller \<Rightarrow> string \<Rightarrow> 'h app_state \<Rightarrow> ('h, crust_status) ecall_result" where
  "Ecall_delete_file S H c hash =
     invoke ''Ecall_delete_file'' c (\<lambda>e. Some (ecall_delete_file S H hash e))"

definition Ecall_gen_upgrade_data ::
  "'h sgx \<Rightarrow> 'h ocalls \<Rightarrow> caller \<Rightarrow> u64 \<Rightarrow> 'h app_state \<Rightarrow> ('h, crust_status) ecall_result" where
  "Ecall_gen_upgrade_data S H c block_height =
     invoke ''Ecall_gen_upgrade_data'' c (\<lambda>e. ecall_gen_upgrade_data S H block_height e)"

definition Ecall_restore_from_upgrade ::
  "'h sgx \<Rightarrow> 'h ocalls \<Rightarrow> caller \<Rightarrow> bytes \<Rightarrow> nat \<Rightarrow> bool \<Rightarrow> 'h app_state \<Rightarrow> ('h, crust_status) ecall_result" where
  "Ecall_restore_from_upgrade S H c meta total_size transfer_end =
     invoke ''Ecall_restore_from_upgrade'' c (\<lambda>e. ecall_restore_from_upgrade S H meta total_size transfer_end e)"

definition Ecall_enable_upgrade ::
  "caller \<Rightarrow> u64 \<Rightarrow> 'h app_state \<Rightarrow> ('h, crust_status) ecall_result" where
  "Ecall_enable_upgrade c block_height =
     invoke ''Ecall_enable_upgrade'' c (\<lambda>e. Some (ecall_enable_upgrade block_height e))"

definition Ecall_disable_upgrade ::
  "caller \<Rightarrow> 'h app_state \<Rightarrow> ('h, unit) ecall_result" where
  "Ecall_disable_upgrade c =
     invoke ''Ecall_disable_upgrade'' c (\<lambda>e. Some ((), ecall_disable_upgrade e))"

definition Ecall_id_get_info ::
  "'h sgx \<Rightarrow> 'h ocalls \<Rightarrow> caller \<Rightarrow> 'h app_state \<Rightarrow> ('h, unit) ecall_result" where
  "Ecall_id_get_info S H c =
     invoke ''Ecall_id_get_info'' c (\<lambda>e. Some ((), ecall_id_get_info S H e))"

definition Ecall_get_workload ::
  "'h sgx \<Rightarrow> 'h ocalls \<Rightarrow> caller \<Rightarrow> 'h app_state \<Rightarrow> ('h, unit) ecall_result" where
  "Ecall_get_workload S H c =
     invoke ''Ecall_get_workload'' c (\<lambda>e. Some ((), ecall_get_workload S H e))"

section \<open>Runs of the application\<close>

text \<open>
  A step is one wrapper, by any caller with any arguments.  As for the enclave, the calls that take
  a workload over from outside start a run.
\<close>

inductive app_step ::
  "'h sgx \<Rightarrow> 'h ocalls \<Rightarrow> ('h enclave \<Rightarrow> 'h enclave) \<Rightarrow> (int \<Rightarrow> 'h enclave \<Rightarrow> 'h enclave option) \<Rightarrow>
     'h app_state \<Rightarrow> 'h app_state \<Rightarrow> bool"
  for S H yld cb where
  srd_increase: "Ecall_srd_increase S H c path a = Some (ret, out, a') \<Longrightarrow> app_step S H yld cb a a'"
| srd_decrease: "Ecall_srd_decrease S H c change a = Some (ret, out, a') \<Longrightarrow> app_step S H yld cb a a'"
| main_loop: "Ecall_main_loop S H yld cb c turns a = Some (ret, out, a') \<Longrightarrow> app_step S H yld cb a a'"
| cmp_chain_account_id: "Ecall_cmp_chain_account_id c account a = Some (ret, out, a') \<Longrightarrow> app_step S H yld cb a a'"
| gen_and_upload_work_report: "Ecall_gen_and_upload_work_report S H c block_hash block_height a = Some (ret, out, a') \<Longrightarrow> app_step S H yld cb a a'"
| gen_key_pair: "Ecall_gen_key_pair S c account a = Some (ret, out, a') \<Longrightarrow> app_step S H yld cb a a'"
| get_quote_report: "Ecall_get_quote_report S c target_info a = Some (ret, out, a') \<Longrightarrow> app_step S H yld cb a a'"
| gen_sgx_measurement: "Ecall_gen_sgx_measurement S c a = Some (ret, out, a') \<Longrightarrow> app_step S H yld cb a a'"
| verify_and_upload_identity: "Ecall_verify_and_upload_identity (X :: (string, bytes) openssl) S H junk c IASReport a = Some (ret, out, a') \<Longrightarrow> app_step S H yld cb a a'"
| seal_file: "root_named S p_tree \<Longrightarrow> Ecall_seal_file S H c p_tree path a = Some (ret, out, a') \<Longrightarrow> app_step S H yld cb a a'"
| unseal_file: "Ecall_unseal_file S H c files p_dir path_len a = Some (ret, out, a') \<Longrightarrow> app_step S H yld cb a a'"
| srd_set_change: "Ecall_srd_set_change c change a = Some (ret, out, a') \<Longrightarrow> app_step S H yld cb a a'"
| srd_update_metadata: "Ecall_srd_update_metadata S H yld c hashs a = Some (ret, out, a') \<Longrightarrow> app_step S H yld cb a a'"
| confirm_file: "Ecall_confirm_file S c hash a = Some (ret, out, a') \<Longrightarrow> app_step S H yld cb a a'"
| delete_file: "Ecall_delete_file S H c hash a = Some (ret, out, a') \<Longrightarrow> app_step S H yld cb a a'"
| gen_upgrade_data: "Ecall_gen_upgrade_data S H c block_height a = Some (ret, out, a') \<Longrightarrow> app_step S H yld cb a a'"
| restore_from_upgrade: "Ecall_restore_from_upgrade S H c meta total_size False a = Some (ret, out, a') \<Longrightarrow> app_step S H yld cb a a'"
| enable_upgrade: "Ecall_enable_upgrade c block_height a = Some (ret, out, a') \<Longrightarrow> app_step S H yld cb a a'"
| disable_upgrade: "Ecall_disable_upgrade c a = Some (ret, out, a') \<Longrightarrow> app_step S H yld cb a a'"
| id_get_info: "Ecall_id_get_info S H c a = Some (ret, out, a') \<Longrightarrow> app_step S H yld cb a a'"
| get_workload: "Ecall_get_workload S H c a = Some (ret, out, a') \<Longrightarrow> app_step S H yld cb a a'"

inductive app_reachable ::
  "'h sgx \<Rightarrow> 'h ocalls \<Rightarrow> ('h enclave \<Rightarrow> 'h enclave) \<Rightarrow> (int \<Rightarrow> 'h enclave \<Rightarrow> 'h enclave option) \<Rightarrow>
     'h app_state \<Rightarrow> bool"
  for S H yld cb where
  start: "app_reachable S H yld cb (enclave_start mem h, admission_start)"
| step: "app_reachable S H yld cb a \<Longrightarrow> app_step S H yld cb a a' \<Longrightarrow> app_reachable S H yld cb a'"

section \<open>Lemmas\<close>

text \<open>A wrapper makes its ECALL, or nothing happens in the enclave.\<close>

lemma invoke_cases [consumes 1, case_names refused made]:
  assumes "invoke name c ecall a = Some (ret, out, a')"
  obtains "fst a' = fst a" "out = None" "ret \<noteq> SGX_SUCCESS"
  | r where "out = Some r" "ecall (fst a) = Some (r, fst a')" "ret = SGX_SUCCESS"
  using assms
  by (auto simp: invoke_def with_enclave_def bind_eq_Some_conv split: if_splits)

lemma invoke_simulates:
  assumes "invoke name c ecall a = Some (ret, out, a')"
    and "\<And>r e'. ecall (fst a) = Some (r, e') \<Longrightarrow> R\<^sup>*\<^sup>* (fst a) e'"
  shows "R\<^sup>*\<^sup>* (fst a) (fst a')"
  using assms(1) by (cases rule: invoke_cases) (auto intro: assms(2))

lemma main_loop_steps:
  "ecall_main_loop S H yld cb n e = Some e' \<Longrightarrow> (enclave_step S H yld cb)\<^sup>*\<^sup>* e e'"
proof (induction n arbitrary: e)
  case (Suc n)
  then obtain e1 where "main_loop_turn S H yld cb e = Some e1" "ecall_main_loop S H yld cb n e1 = Some e'"
    by (auto simp: bind_eq_Some_conv)
  then show ?case using Suc.IH enclave_step.main_loop by (metis converse_rtranclp_into_rtranclp)
qed simp

lemmas wrapper_defs =
  Ecall_srd_increase_def Ecall_srd_decrease_def Ecall_main_loop_def Ecall_restore_metadata_def Ecall_cmp_chain_account_id_def Ecall_gen_and_upload_work_report_def Ecall_gen_key_pair_def Ecall_get_quote_report_def Ecall_gen_sgx_measurement_def Ecall_verify_and_upload_identity_def Ecall_seal_file_def Ecall_unseal_file_def Ecall_srd_set_change_def Ecall_srd_update_metadata_def Ecall_confirm_file_def Ecall_delete_file_def Ecall_gen_upgrade_data_def Ecall_restore_from_upgrade_def Ecall_enable_upgrade_def Ecall_disable_upgrade_def Ecall_id_get_info_def Ecall_get_workload_def

lemma app_step_simulates:
  assumes "app_step S H yld cb a a'"
  shows "(enclave_step S H yld cb)\<^sup>*\<^sup>* (fst a) (fst a')"
  using assms
  by cases (unfold wrapper_defs, (erule invoke_simulates,
    (auto intro: enclave_step.intros r_into_rtranclp main_loop_steps simp del: ecall_main_loop.simps) [1])+)

lemma app_reachable_simulates:
  assumes "app_reachable S H yld cb a"
  shows "enclave_reachable S H yld cb (fst a)"
  using assms
proof induction
  case (start mem h)
  then show ?case by (simp add: enclave_reachable.start)
next
  case (step a a')
  from app_step_simulates [OF step.hyps(2)] step.IH show ?case
    by (induction rule: rtranclp_induct) (auto intro: enclave_reachable.step)
qed

section \<open>A caller that meets no obstacle\<close>

definition demo_caller :: caller where
  "demo_caller = \<lparr>thread_id = 1, locks = (\<lambda>i. True), others = (\<lambda>i s. s), entry_status = SGX_SUCCESS, meanwhile = (\<lambda>s. s)\<rparr>"

lemma demo_try:
  "block_tasks name = [] \<Longrightarrow> task_prio name \<le> 1 \<Longrightarrow>
     \<exists>s. try_get_enclave 1 name (\<lambda>i. True) (\<lambda>i s. s) admission_start = Some (SGX_SUCCESS, s)"
  unfolding try_get_enclave_def le_Suc_eq [of _ 0, folded One_nat_def]
  by (subst try_loop.simps) (auto simp: Let_def try_lock_section_def enclave_refused_def task_enter_def admission_start_def)

lemma demo_invoke:
  assumes "block_tasks name = []" and "task_prio name \<le> 1" and "ecall e = Some (r, e')"
  shows "\<exists>s. invoke name demo_caller ecall (e, admission_start) = Some (SGX_SUCCESS, Some r, e', s)"
  using demo_try [OF assms(1,2)] assms(3) by (auto simp: invoke_def with_enclave_def demo_caller_def)

section \<open>Properties\<close>

text \<open>
  A wrapper is all or nothing: it returns \<open>SGX_SUCCESS\<close> exactly when the ECALL was made, once and
  on the state of the enclave the caller found, and then the output is the ECALL's; with any other
  status the enclave is untouched and nothing was written to the output.
\<close>

theorem wrapper_all_or_nothing:
  assumes "invoke name c ecall (e, s) = Some (ret, out, e', s')"
  shows "if ret = SGX_SUCCESS then \<exists>r. out = Some r \<and> ecall e = Some (r, e') else e' = e \<and> out = None"
  using assms by (cases rule: invoke_cases) auto

theorem wrapper_all_or_nothing_witness:
  "\<exists>s'. Ecall_srd_set_change demo_caller 5 (enclave_start demo_workload (), admission_start) =
     Some (SGX_SUCCESS, Some (), ecall_srd_set_change 5 (enclave_start demo_workload ()), s')"
proof -
  let ?e = "enclave_start demo_workload ()"
  obtain r e' s' where i: "invoke ''Ecall_srd_set_change'' demo_caller (\<lambda>e. Some ((), ecall_srd_set_change 5 e)) (?e, admission_start)
      = Some (SGX_SUCCESS, Some r, e', s')"
    using demo_invoke [of "''Ecall_srd_set_change''" "\<lambda>e. Some ((), ecall_srd_set_change 5 e)" ?e] by auto
  from wrapper_all_or_nothing [OF i] i show ?thesis by (auto simp: Ecall_srd_set_change_def)
qed



end
