(* ===== verification/AppSrd.thy ===== *)
theory AppSrd
  imports ECalls DataBase
begin

text \<open>
  Random data outside the enclave, \<open>src/app/process/Srd.cpp\<close>: the application finds out how much
  space its disks have, shares a change out among them disk by disk, and calls the enclave for
  every entry.  The operating system is a parameter.  The lemmas show that the three loops that go
  round the disks end and share out exactly the amount asked for, never more than a disk has, and
  that the callback the main loop makes keeps the invariant of the enclave.
\<close>

section \<open>Disks\<close>

text \<open>What the code reads of \<open>statfs\<close>, and the calls it makes.\<close>

record statfs_t =
  f_fsid :: bytes
  f_bsize :: u64
  f_blocks :: u64
  f_bavail :: u64
  f_bfree :: u64

record 'f os =
  access_ok :: "string \<Rightarrow> 'f \<Rightarrow> bool"
  mkdir_p :: "string \<Rightarrow> 'f \<Rightarrow> bool \<times> 'f"
  statfs :: "string \<Rightarrow> 'f \<Rightarrow> statfs_t option"

definition get_total_space_under_dir_r :: "'f os \<Rightarrow> string \<Rightarrow> nat \<Rightarrow> 'f \<Rightarrow> u64" where
  "get_total_space_under_dir_r F path unit f =
     (case statfs F path f of None \<Rightarrow> 0 | Some d \<Rightarrow> drop_bit unit (f_blocks d * f_bsize d))"

definition get_total_space_under_dir_k :: "'f os \<Rightarrow> string \<Rightarrow> 'f \<Rightarrow> u64" where
  "get_total_space_under_dir_k F path = get_total_space_under_dir_r F path 10"

definition get_total_space_under_dir_m :: "'f os \<Rightarrow> string \<Rightarrow> 'f \<Rightarrow> u64" where
  "get_total_space_under_dir_m F path = get_total_space_under_dir_r F path 20"

definition get_total_space_under_dir_g :: "'f os \<Rightarrow> string \<Rightarrow> 'f \<Rightarrow> u64" where
  "get_total_space_under_dir_g F path = get_total_space_under_dir_r F path 30"

definition get_avail_space_under_dir_r :: "'f os \<Rightarrow> string \<Rightarrow> nat \<Rightarrow> 'f \<Rightarrow> u64" where
  "get_avail_space_under_dir_r F path unit f =
     (case statfs F path f of None \<Rightarrow> 0 | Some d \<Rightarrow> drop_bit unit (f_bavail d * f_bsize d))"

definition get_avail_space_under_dir_k :: "'f os \<Rightarrow> string \<Rightarrow> 'f \<Rightarrow> u64" where
  "get_avail_space_under_dir_k F path = get_avail_space_under_dir_r F path 10"

definition get_avail_space_under_dir_m :: "'f os \<Rightarrow> string \<Rightarrow> 'f \<Rightarrow> u64" where
  "get_avail_space_under_dir_m F path = get_avail_space_under_dir_r F path 20"

definition get_avail_space_under_dir_g :: "'f os \<Rightarrow> string \<Rightarrow> 'f \<Rightarrow> u64" where
  "get_avail_space_under_dir_g F path = get_avail_space_under_dir_r F path 30"

definition get_free_space_under_directory :: "'f os \<Rightarrow> string \<Rightarrow> 'f \<Rightarrow> u64" where
  "get_free_space_under_directory F path f =
     (case statfs F path f of None \<Rightarrow> 0 | Some d \<Rightarrow> drop_bit 20 (f_bfree d * f_bsize d))"

definition create_directory :: "'f os \<Rightarrow> string \<Rightarrow> 'f \<Rightarrow> bool \<times> 'f" where
  "create_directory F path f = (if \<not> access_ok F path f then mkdir_p F path f else (True, f))"

section \<open>JSON of the application\<close>

text \<open>
  The application reads and prints JSON with \<open>src/app/utils/Json.hpp\<close>, which \<open>AppJson\<close> models
  (\<open>app_json\<close>).  What is shown of the application does not depend on it: the three functions whose
  results depend on the text are parameters here.  \<open>None\<close> is an exception.  Access to members is that of
  the enclave's variant of the same header (\<open>EJson\<close>).
\<close>

record json_hpp =
  J_Load :: "string \<Rightarrow> json option"
  J_ToString :: "json \<Rightarrow> string"
  J_dump :: "json \<Rightarrow> string"

section \<open>Configuration\<close>

text \<open>
  The fields of the configuration the functions use; \<open>srd_paths\<close> is \<open>None\<close> when it is no JSON array,
  whose size is then -1.
\<close>

record app_config =
  srd_paths :: "string list option"
  srd_path :: string
  srd_capacity :: u64

definition change_srd_capacity :: "int \<Rightarrow> app_config \<Rightarrow> app_config" where
  "change_srd_capacity change cfg =
     (if change \<ge> 0 \<or> word_of_int (- change) \<le> srd_capacity cfg
      then cfg\<lparr>srd_capacity := srd_capacity cfg + word_of_int change\<rparr>
      else cfg\<lparr>srd_capacity := 0\<rparr>)"

abbreviation (input) DEFAULT_SRD_RESERVED :: u64 where
  "DEFAULT_SRD_RESERVED \<equiv> 50"

definition get_reserved_space :: "u64 \<Rightarrow> u64" where
  "get_reserved_space g_srd_reserved_space = g_srd_reserved_space"

definition set_reserved_space :: "u64 \<Rightarrow> u64 \<Rightarrow> u64" where
  "set_reserved_space reserved g_srd_reserved_space = reserved"

section \<open>Paths\<close>

text \<open>
  One path per disk.  A disk is known by the first eight characters of its identifier in
  hexadecimal.  A failing \<open>statfs\<close> ends the loop.
\<close>

fun valid_paths :: "'f os \<Rightarrow> string list \<Rightarrow> string list \<Rightarrow> string list \<Rightarrow> 'f \<Rightarrow> string list \<times> 'f" where
  "valid_paths F [] fsid_s ans f = (ans, f)"
| "valid_paths F (path # paths) fsid_s ans f =
     (case create_directory F path f of (created, f) \<Rightarrow>
        if \<not> created then valid_paths F paths fsid_s ans f
        else case statfs F path f of
          None \<Rightarrow> (ans, f)
        | Some disk_info \<Rightarrow>
            let fsid_str = take 8 (concat (map hex_digits (f_fsid disk_info))) in
            if fsid_str \<notin> set fsid_s then valid_paths F paths (fsid_str # fsid_s) (ans @ [path]) f
            else valid_paths F paths fsid_s ans f)"

definition get_valid_srd_path :: "'f os \<Rightarrow> string list \<Rightarrow> 'f \<Rightarrow> string list \<times> 'f" where
  "get_valid_srd_path F paths f = valid_paths F paths [] [] f"

section \<open>Sharing out\<close>

text \<open>
  The loop all three functions have: go round the entries, and at each one that still has something
  take one from it, until the amount is reached.  \<open>None\<close> is an access behind the last entry, or
  no end.  The result has the entries and the positions that were chosen, in order.
\<close>

partial_function (option) round_robin ::
  "('a \<Rightarrow> bool) \<Rightarrow> ('a \<Rightarrow> 'a) \<Rightarrow> 'a list \<Rightarrow> nat \<Rightarrow> nat \<Rightarrow> nat list \<Rightarrow> ('a list \<times> nat list) option" where
  "round_robin has draw xs it acc picks =
     (if acc = 0 then Some (xs, picks)
      else if length xs \<le> it then None
      else let next_it = (if it + 1 = length xs then 0 else it + 1) in
        if has (xs ! it) then round_robin has draw (xs[it := draw (xs ! it)]) next_it (acc - 1) (picks @ [it])
        else round_robin has draw xs next_it acc picks)"

section \<open>Increase\<close>

record disk =
  available :: int
  total :: int
  left :: int
  increased :: int

definition disk_record :: "'f os \<Rightarrow> int \<Rightarrow> string \<Rightarrow> 'f \<Rightarrow> disk" where
  "disk_record F reserved path f =
     (let avail = uint (get_avail_space_under_dir_g F path f);
          avail = (if avail \<le> reserved then 0 else avail - reserved)
      in \<lparr>available = avail, total = uint (get_total_space_under_dir_g F path f), left = avail, increased = 0\<rparr>)"

definition add_disk :: "'f os \<Rightarrow> int \<Rightarrow> 'f \<Rightarrow> string \<Rightarrow> (string, disk) omap \<times> nat \<Rightarrow> (string, disk) omap \<times> nat" where
  "add_disk F reserved f path acc =
     (let d = disk_record F reserved path f in (omap_upd path d (fst acc), snd acc + nat (available d)))"

definition find_disks :: "'f os \<Rightarrow> app_config \<Rightarrow> int \<Rightarrow> 'f \<Rightarrow> ((string, disk) omap \<times> nat) \<times> 'f" where
  "find_disks F cfg reserved f =
     (if srd_paths cfg \<noteq> Some []
      then case get_valid_srd_path F (case srd_paths cfg of Some ps \<Rightarrow> ps | None \<Rightarrow> []) f of (paths, f) \<Rightarrow>
        (fold (add_disk F reserved f) paths ([], 0), f)
      else case create_directory F (srd_path cfg) f of (created, f) \<Rightarrow>
        (if created then add_disk F reserved f (srd_path cfg) ([], 0) else ([], 0), f))"

definition get_increase_srd_info ::
  "'f os \<Rightarrow> app_config \<Rightarrow> u64 \<Rightarrow> nat \<Rightarrow> 'f \<Rightarrow> (((string, disk) omap \<times> nat) \<times> 'f) option" where
  "get_increase_srd_info F cfg g_srd_reserved_space true_srd_capacity f =
     (case find_disks F cfg (sint (get_reserved_space g_srd_reserved_space)) f of ((disk_info, total_avail), f) \<Rightarrow>
        let true_srd_capacity = min total_avail true_srd_capacity in
        map_option (\<lambda>(disk_info, _). ((disk_info, true_srd_capacity), f))
          (round_robin (\<lambda>e. left (snd e) > 0) (apsnd (\<lambda>d. d\<lparr>increased := increased d + 1, left := left d - 1\<rparr>))
             disk_info 0 true_srd_capacity []))"

section \<open>Decrease\<close>

text \<open>
  The disks with something assigned, from the text the enclave stored.  The amounts are added up as
  \<open>size_t\<close>.
\<close>

definition assigned_disks :: "json \<Rightarrow> (string \<times> int) list" where
  "assigned_disks disk_info_json =
     (if JSONType disk_info_json \<noteq> Class_Object then []
      else map (\<lambda>(path, info). (path, ToInt (json_get info ''assigned'')))
        (filter (\<lambda>(path, info). hasKey info ''assigned'' \<and> ToInt (json_get info ''assigned'') \<noteq> 0)
          (json_members disk_info_json)))"

definition total_assigned :: "(string \<times> int) list \<Rightarrow> nat" where
  "total_assigned disks = size_of_int (sum_list (map snd disks))"

definition count_path :: "string \<Rightarrow> (string, int) omap \<Rightarrow> (string, int) omap" where
  "count_path path ans = omap_upd path ((case map_of ans path of Some n \<Rightarrow> n | None \<Rightarrow> 0) + 1) ans"

text \<open>
  The space every path gives up and the amount in all.  When there is no record the capacity is
  left as it is.
\<close>

definition get_decrease_srd_info ::
  "json_hpp \<Rightarrow> 'd leveldb \<Rightarrow> nat \<Rightarrow> 'd \<Rightarrow> ((string, int) omap \<times> nat) option" where
  "get_decrease_srd_info J L true_srd_capacity d =
     (case DataBase_get L DB_SRD_INFO d of (crust_status, disk_info_str) \<Rightarrow>
        if crust_status \<noteq> CRUST_SUCCESS then Some ([], true_srd_capacity)
        else do {
          disk_info_json \<leftarrow> J_Load J (string_of_bytes disk_info_str);
          let disks = assigned_disks disk_info_json;
          let true_srd_capacity = min (total_assigned disks) true_srd_capacity;
          (_, picks) \<leftarrow> round_robin (\<lambda>e. snd e > 0) (apsnd (\<lambda>n. n - 1)) disks 0 true_srd_capacity [];
          Some (fold (\<lambda>i. count_path (fst (disks ! i))) picks [], true_srd_capacity)
        })"

section \<open>Change\<close>

text \<open>
  The tasks of the thread pool, one after the other: each asks the enclave for one entry, and gives
  it back as a change to make later when that fails.  \<open>cs i\<close> and \<open>cs' i\<close> are the callers of the two
  ECALLs of task \<open>i\<close>.
\<close>

fun srd_tasks ::
  "'h sgx \<Rightarrow> 'h ocalls \<Rightarrow> (nat \<Rightarrow> caller) \<Rightarrow> (nat \<Rightarrow> caller) \<Rightarrow> nat \<Rightarrow> string list \<Rightarrow> 'h app_state \<Rightarrow> 'h app_state option" where
  "srd_tasks S H cs cs' i [] a = Some a"
| "srd_tasks S H cs cs' i (path # paths) a = do {
     (ret, _, a) \<leftarrow> Ecall_srd_increase S H (cs i) path a;
     a \<leftarrow> (if ret \<noteq> SGX_SUCCESS
           then map_option (\<lambda>(_, _, a). a) (Ecall_srd_set_change (cs' i) 1 a)
           else Some a);
     srd_tasks S H cs cs' (i + 1) paths a
   }"

text \<open>Increasing: share out what fits, put the rest off, seal the entries.\<close>

definition srd_change_increase ::
  "'h sgx \<Rightarrow> 'h ocalls \<Rightarrow> 'f os \<Rightarrow> caller \<Rightarrow> (nat \<Rightarrow> caller) \<Rightarrow> (nat \<Rightarrow> caller) \<Rightarrow> u64 \<Rightarrow> int
     \<Rightarrow> 'h app_state \<times> app_config \<times> 'f \<Rightarrow> ('h app_state \<times> app_config \<times> 'f) option" where
  "srd_change_increase S H F c cs cs' g_srd_reserved_space change st =
     (case st of (a, cfg, f) \<Rightarrow> do {
        ((disk_info, true_increase), f) \<leftarrow> get_increase_srd_info F cfg g_srd_reserved_space (size_of_int change) f;
        a \<leftarrow> (if change > int true_increase
              then map_option (\<lambda>(_, _, a). a) (Ecall_srd_set_change c (change - int true_increase) a)
              else Some a);
        if true_increase = 0 then Some (a, cfg, f)
        else do {
          (_, picks) \<leftarrow> round_robin (\<lambda>e. increased (snd e) > 0) (apsnd (\<lambda>d. d\<lparr>increased := increased d - 1\<rparr>))
            disk_info 0 true_increase [];
          a \<leftarrow> srd_tasks S H cs cs' 0 (map (\<lambda>i. fst (disk_info ! i)) picks) a;
          Some (a, change_srd_capacity (cast_int (int true_increase)) cfg, f)
        }
      })"

text \<open>Decreasing.  The amount that was freed is added to the configured capacity.\<close>

definition srd_change_decrease ::
  "json_hpp \<Rightarrow> 'h sgx \<Rightarrow> 'h ocalls \<Rightarrow> 'd leveldb \<Rightarrow> 'd \<Rightarrow> caller \<Rightarrow> int
     \<Rightarrow> 'h app_state \<times> app_config \<times> 'f \<Rightarrow> ('h app_state \<times> app_config \<times> 'f) option" where
  "srd_change_decrease J S H L d c change st =
     (case st of (a, cfg, f) \<Rightarrow> do {
        (_, true_decrease) \<leftarrow> get_decrease_srd_info J L (size_of_int (- change)) d;
        if true_decrease = 0 then Some (a, cfg, f)
        else do {
          (_, ret_size, a) \<leftarrow> Ecall_srd_decrease S H c (int true_decrease) a;
          let ret_size = (case ret_size of Some n \<Rightarrow> n | None \<Rightarrow> 0);
          Some (a, change_srd_capacity (cast_int (int ret_size)) cfg, f)
        }
      })"

definition app_srd_change ::
  "json_hpp \<Rightarrow> 'h sgx \<Rightarrow> 'h ocalls \<Rightarrow> 'f os \<Rightarrow> 'd leveldb \<Rightarrow> 'd \<Rightarrow> caller \<Rightarrow> (nat \<Rightarrow> caller) \<Rightarrow> (nat \<Rightarrow> caller) \<Rightarrow> u64 \<Rightarrow> int
     \<Rightarrow> 'h app_state \<times> app_config \<times> 'f \<Rightarrow> ('h app_state \<times> app_config \<times> 'f) option" where
  "app_srd_change J S H F L d c cs cs' g_srd_reserved_space change st =
     (if change > 0 then srd_change_increase S H F c cs cs' g_srd_reserved_space change st
      else if change < 0 then srd_change_decrease J S H L d c change st
      else Some st)"

section \<open>Reserved space\<close>

text \<open>
  What one turn of \<open>srd_check_reserved\<close> asks the enclave to delete: for every disk with less than the
  reserved space the difference, at most what is assigned.
\<close>

definition reserved_deletions :: "'f os \<Rightarrow> int \<Rightarrow> 'f \<Rightarrow> json \<Rightarrow> (string \<times> json) list" where
  "reserved_deletions F reserved f srd_info =
     map (\<lambda>(path, info).
         let del_space = reserved - sint (get_avail_space_under_dir_g F path f);
             assigned = ToInt (json_get info ''assigned'')
         in (path, JIntegral (if del_space > assigned then assigned else del_space)))
       (filter (\<lambda>(path, info). sint (get_avail_space_under_dir_g F path f) < reserved)
         (json_members srd_info))"

definition srd_check_reserved_turn ::
  "json_hpp \<Rightarrow> 'h sgx \<Rightarrow> 'h ocalls \<Rightarrow> ('h enclave \<Rightarrow> 'h enclave) \<Rightarrow> 'f os \<Rightarrow> 'd leveldb \<Rightarrow> 'd \<Rightarrow> caller \<Rightarrow> u64 \<Rightarrow> 'f \<Rightarrow> 'h app_state
     \<Rightarrow> 'h app_state option" where
  "srd_check_reserved_turn J S H yld F L d c g_srd_reserved_space f a =
     (case DataBase_get L DB_SRD_INFO d of (crust_status, srd_info_str) \<Rightarrow>
        if crust_status \<noteq> CRUST_SUCCESS then Some a
        else do {
          srd_info \<leftarrow> J_Load J (string_of_bytes srd_info_str);
          let del_info = reserved_deletions F (sint (get_reserved_space g_srd_reserved_space)) f srd_info;
          if del_info = [] then Some a
          else map_option (\<lambda>(_, _, a). a)
            (Ecall_srd_update_metadata S H yld c (J_dump J (fold (\<lambda>(k, v) j. json_set j k v) del_info JNull)) a)
        })"

section \<open>Going round\<close>

text \<open>
  The contract of one such loop: entries have an amount, an entry is drawn from when its amount is
  positive, and drawing takes one.
\<close>

locale dispenser =
  fixes has :: "'a \<Rightarrow> bool" and draw :: "'a \<Rightarrow> 'a" and amount :: "'a \<Rightarrow> nat"
  assumes has_amount: "has x \<longleftrightarrow> 0 < amount x"
    and draw_amount: "0 < amount x \<Longrightarrow> amount (draw x) = amount x - 1"
begin

text \<open>How far away the next entry is that can be drawn from.\<close>

definition gap :: "'a list \<Rightarrow> nat \<Rightarrow> nat" where
  "gap xs it = (LEAST k. 0 < amount (xs ! ((it + k) mod length xs)))"

lemma some_amount:
  assumes "0 < sum_list (map amount xs)" and "it < length xs"
  obtains k where "0 < amount (xs ! ((it + k) mod length xs))"
proof -
  obtain j where j: "j < length xs" "0 < amount (xs ! j)"
    using assms(1) by (metis gr0I in_set_conv_nth sum_list_eq_0_iff list.set_map imageE nth_map length_map)
  then have "(it + (length xs - it + j)) mod length xs = j" using assms(2) by simp
  with j(2) that show ?thesis by metis
qed

lemma gap_next:
  assumes "0 < sum_list (map amount xs)" and "it < length xs" and "amount (xs ! it) = 0"
  shows "gap xs (if it + 1 = length xs then 0 else it + 1) < gap xs it"
proof -
  obtain k where "0 < amount (xs ! ((it + k) mod length xs))" using some_amount [OF assms(1,2)] .
  then have g: "0 < amount (xs ! ((it + gap xs it) mod length xs))" unfolding gap_def by (rule LeastI)
  then obtain m where m: "gap xs it = Suc m" using assms(2,3) by (cases "gap xs it") auto
  have "((if it + 1 = length xs then 0 else it + 1) + m) mod length xs = (it + Suc m) mod length xs"
  proof (cases "it + 1 = length xs")
    case True
    then have eq: "it + Suc m = m + length xs" by simp
    show ?thesis unfolding eq using True by simp
  qed simp
  then have "gap xs (if it + 1 = length xs then 0 else it + 1) \<le> m"
    unfolding gap_def using g m by (intro Least_le) (simp add: gap_def)
  then show ?thesis using m by simp
qed

lemma sum_draw:
  assumes "it < length xs" and "0 < amount (xs ! it)"
  shows "sum_list (map amount (xs[it := draw (xs ! it)])) = sum_list (map amount xs) - 1"
proof -
  have "amount (xs ! it) \<le> sum_list (map amount xs)"
    using elem_le_sum_list [of it "map amount xs"] assms(1) by simp
  then show ?thesis using assms by (simp add: map_update sum_list_update draw_amount)
qed

text \<open>The loop ends with exactly the amount drawn, from no entry more than it had.\<close>

theorem round_robin_ends:
  assumes "acc \<le> sum_list (map amount xs)" and "acc = 0 \<or> it < length xs"
  shows "\<exists>xs' new. round_robin has draw xs it acc picks = Some (xs', picks @ new) \<and> length new = acc \<and>
    length xs' = length xs \<and> set new \<subseteq> {..< length xs} \<and>
    (\<forall>j < length xs. count_list new j \<le> amount (xs ! j) \<and> xs' ! j = (draw ^^ count_list new j) (xs ! j))"
  using assms
proof (induction "(acc, gap xs it)" arbitrary: acc xs it picks rule: wf_induct_rule
    [OF wf_lex_prod [OF wf_less_than wf_less_than]])
  case 1
  let ?next = "if it + 1 = length xs then 0 else it + 1"
  show ?case
  proof (cases "acc = 0")
    case True
    then show ?thesis by (subst round_robin.simps) simp
  next
    case False
    then have it: "it < length xs" "?next < length xs" and pos: "0 < sum_list (map amount xs)" using "1.prems" by auto
    show ?thesis
    proof (cases "has (xs ! it)")
      case True
      let ?xs = "xs[it := draw (xs ! it)]"
      have a: "0 < amount (xs ! it)" using True has_amount by simp
      have "\<exists>xs' new. round_robin has draw ?xs ?next (acc - 1) (picks @ [it]) = Some (xs', (picks @ [it]) @ new) \<and>
          length new = acc - 1 \<and> length xs' = length ?xs \<and> set new \<subseteq> {..< length ?xs} \<and>
          (\<forall>j < length ?xs. count_list new j \<le> amount (?xs ! j) \<and> xs' ! j = (draw ^^ count_list new j) (?xs ! j))"
        using False it "1.prems" sum_draw [OF it(1) a] by (intro "1.hyps") auto
      then obtain xs' new where r: "round_robin has draw ?xs ?next (acc - 1) (picks @ [it]) = Some (xs', (picks @ [it]) @ new)"
          "length new = acc - 1" "length xs' = length xs" "set new \<subseteq> {..< length xs}"
        and c: "\<And>j. j < length xs \<Longrightarrow> count_list new j \<le> amount (?xs ! j) \<and> xs' ! j = (draw ^^ count_list new j) (?xs ! j)"
        by auto
      have "round_robin has draw xs it acc picks = Some (xs', picks @ it # new)"
        using r(1) False True it by (subst round_robin.simps) (simp add: Let_def)
      moreover have "count_list (it # new) j \<le> amount (xs ! j) \<and> xs' ! j = (draw ^^ count_list (it # new) j) (xs ! j)"
        if "j < length xs" for j
        using c [OF that] a draw_amount [OF a] that by (auto simp: nth_list_update funpow_swap1 split: if_splits)
      ultimately show ?thesis using r it False by (intro exI [where x = xs'] exI [where x = "it # new"]) auto
    next
      case no: False
      have "round_robin has draw xs it acc picks = round_robin has draw xs ?next acc picks"
        using False no it by (subst round_robin.simps) (simp add: Let_def)
      then show ?thesis using "1.hyps" [of acc xs ?next picks] "1.prems" it gap_next [OF pos it(1)] no has_amount by simp
    qed
  qed
qed

end

interpretation free_space: dispenser "\<lambda>e :: string \<times> disk. left (snd e) > 0"
    "apsnd (\<lambda>d. d\<lparr>increased := increased d + 1, left := left d - 1\<rparr>)" "\<lambda>e. nat (left (snd e))"
  by unfold_locales (auto simp: nat_diff_distrib')

interpretation assigned_space: dispenser "\<lambda>e :: string \<times> int. snd e > 0" "apsnd (\<lambda>n. n - 1)" "\<lambda>e. nat (snd e)"
  by unfold_locales (auto simp: nat_diff_distrib')

interpretation increased_space: dispenser "\<lambda>e :: string \<times> disk. increased (snd e) > 0"
    "apsnd (\<lambda>d. d\<lparr>increased := increased d - 1\<rparr>)" "\<lambda>e. nat (increased (snd e))"
  by unfold_locales (auto simp: nat_diff_distrib')

section \<open>Lemmas: finding the disks\<close>

lemma valid_paths_distinct:
  "distinct (ans @ paths) \<Longrightarrow> distinct (fst (valid_paths F paths fsid_s ans f))"
  by (induction F paths fsid_s ans f rule: valid_paths.induct)
    (auto simp: Let_def split: prod.splits option.splits)

text \<open>Disks as they are found: nothing shared out yet, and the total is their sum.\<close>

definition fresh_disk :: "disk \<Rightarrow> bool" where
  "fresh_disk d \<longleftrightarrow> 0 \<le> available d \<and> left d = available d \<and> increased d = 0"

definition disks_ok :: "(string, disk) omap \<times> nat \<Rightarrow> bool" where
  "disks_ok acc \<longleftrightarrow> omap_ok (fst acc) \<and> (\<forall>e \<in> set (fst acc). fresh_disk (snd e)) \<and>
     snd acc = sum_list (map (\<lambda>e. nat (available (snd e))) (fst acc))"

lemma omap_upd_values: "(\<forall>e \<in> set m. P (snd e)) \<Longrightarrow> P v \<Longrightarrow> (\<forall>e \<in> set (omap_upd k v m). P (snd e))"
  by (induction m) auto

lemma disks_ok_add:
  assumes "disks_ok acc" and "path \<notin> fst ` set (fst acc)"
  shows "disks_ok (add_disk F reserved f path acc)"
proof -
  let ?d = "disk_record F reserved path f"
  have "map_of (fst acc) path = None" using assms(2) by (simp add: map_of_eq_None_iff)
  then have "sum_list (map (\<lambda>e. nat (available (snd e))) (omap_upd path ?d (fst acc))) =
      sum_list (map (\<lambda>e. nat (available (snd e))) (fst acc)) + nat (available ?d)"
    using omap_sum_upd [of "fst acc" "\<lambda>d. nat (available d)" path ?d] assms(1) by (simp add: disks_ok_def)
  moreover have "fresh_disk ?d" by (simp add: fresh_disk_def disk_record_def Let_def)
  ultimately show ?thesis using assms(1) omap_upd_values [of "fst acc" fresh_disk ?d path]
    by (simp add: disks_ok_def add_disk_def Let_def omap_simps)
qed

lemma disks_ok_fold:
  "disks_ok acc \<Longrightarrow> distinct paths \<Longrightarrow> set paths \<inter> fst ` set (fst acc) = {} \<Longrightarrow>
     disks_ok (fold (add_disk F reserved f) paths acc)"
proof (induction paths arbitrary: acc)
  case (Cons path paths)
  have "fst ` set (fst (add_disk F reserved f path acc)) = insert path (fst ` set (fst acc))"
    using set_omap_upd [of path "disk_record F reserved path f" "fst acc"] by (simp add: add_disk_def Let_def)
  then show ?case using Cons disks_ok_add [of acc path F reserved f] by auto
qed simp

lemma disks_ok_find:
  assumes "\<And>ps. srd_paths cfg = Some ps \<Longrightarrow> distinct ps"
  shows "disks_ok (fst (find_disks F cfg reserved f))"
proof -
  have start: "disks_ok ([], 0)" by (simp add: disks_ok_def omap_simps)
  have "distinct (fst (get_valid_srd_path F (case srd_paths cfg of Some ps \<Rightarrow> ps | None \<Rightarrow> []) f))"
    using assms valid_paths_distinct [of "[]"] by (auto simp: get_valid_srd_path_def split: option.splits)
  then show ?thesis
    using disks_ok_fold [OF start] disks_ok_add [OF start] start
    by (auto simp: find_disks_def split: prod.splits)
qed

section \<open>Lemmas: sharing out\<close>

lemma draw_disk:
  "((apsnd (\<lambda>d. d\<lparr>increased := increased d + 1, left := left d - 1\<rparr>)) ^^ n) e =
     (fst e, (snd e)\<lparr>increased := increased (snd e) + int n, left := left (snd e) - int n\<rparr>)"
  by (induction n) (auto simp: apsnd_def)

lemma sum_count_list: "set ns \<subseteq> {..< n} \<Longrightarrow> (\<Sum>j < (n :: nat). count_list ns j) = length ns"
  by (rule sum_count_set) auto

text \<open>What is drawn from bounded entries without leaving any of the total is all of each.\<close>

lemma counts_exhaust:
  assumes "set ns \<subseteq> {..< length xs}" and "length ns = sum_list (map g xs)"
    and "\<And>j. j < length xs \<Longrightarrow> count_list ns j \<le> (g (xs ! j) :: nat)" and "j < length xs"
  shows "count_list ns j = g (xs ! j)"
proof (rule ccontr)
  assume "count_list ns j \<noteq> g (xs ! j)"
  then have "count_list ns j < g (xs ! j)" using assms(3,4) le_neq_implies_less by blast
  then have "(\<Sum>i < length xs. count_list ns i) < (\<Sum>i < length xs. g (xs ! i))"
    using assms(3,4) by (intro sum_strict_mono_ex1) auto
  also have "\<dots> = sum_list (map g xs)" by (simp add: sum_list_sum_nth atLeast0LessThan)
  finally show False using sum_count_list [OF assms(1)] assms(2) by simp
qed

text \<open>The disks after the increase has been shared out.\<close>

definition shared_disk :: "disk \<Rightarrow> bool" where
  "shared_disk d \<longleftrightarrow> 0 \<le> increased d \<and> increased d \<le> available d \<and> left d = available d - increased d"

lemma share_increase:
  assumes "disks_ok (disks, total_avail)" and "n \<le> total_avail"
  shows "\<exists>disks' picks. round_robin (\<lambda>e. left (snd e) > 0)
      (apsnd (\<lambda>d. d\<lparr>increased := increased d + 1, left := left d - 1\<rparr>)) disks 0 n [] = Some (disks', picks) \<and>
    (\<forall>e \<in> set disks'. shared_disk (snd e)) \<and> map fst disks' = map fst disks \<and>
    map (available \<circ> snd) disks' = map (available \<circ> snd) disks \<and>
    sum_list (map (\<lambda>e. nat (increased (snd e))) disks') = n"
proof -
  have fresh: "\<And>j. j < length disks \<Longrightarrow> fresh_disk (snd (disks ! j))" and total: "n \<le> sum_list (map (\<lambda>e. nat (left (snd e))) disks)"
  proof -
    show "\<And>j. j < length disks \<Longrightarrow> fresh_disk (snd (disks ! j))" using assms(1) by (auto simp: disks_ok_def)
    have "map (\<lambda>e. nat (left (snd e))) disks = map (\<lambda>e. nat (available (snd e))) disks"
      using assms(1) by (auto simp: disks_ok_def fresh_disk_def)
    then show "n \<le> sum_list (map (\<lambda>e. nat (left (snd e))) disks)" using assms by (simp only: disks_ok_def fst_conv snd_conv)
  qed
  have "n = 0 \<or> 0 < length disks" using total by (cases disks) auto
  from free_space.round_robin_ends [OF total this, of "[]"] obtain disks' picks where
    r: "round_robin (\<lambda>e. left (snd e) > 0) (apsnd (\<lambda>d. d\<lparr>increased := increased d + 1, left := left d - 1\<rparr>)) disks 0 n []
        = Some (disks', picks)" "length picks = n" "length disks' = length disks" "set picks \<subseteq> {..< length disks}"
    and c: "\<And>j. j < length disks \<Longrightarrow> count_list picks j \<le> nat (left (snd (disks ! j))) \<and>
      disks' ! j = (fst (disks ! j), (snd (disks ! j))\<lparr>increased := increased (snd (disks ! j)) + int (count_list picks j),
        left := left (snd (disks ! j)) - int (count_list picks j)\<rparr>)"
    by (auto simp: draw_disk)
  have "shared_disk (snd (disks' ! j))" "increased (snd (disks' ! j)) = int (count_list picks j)"
      "available (snd (disks' ! j)) = available (snd (disks ! j))" "fst (disks' ! j) = fst (disks ! j)" if "j < length disks" for j
    using c [OF that] fresh [OF that] by (auto simp: shared_disk_def fresh_disk_def)
  note e = this
  have "sum_list (map (\<lambda>e. nat (increased (snd e))) disks') = (\<Sum>j < length disks. count_list picks j)"
    using e(2) r(3) by (simp add: sum_list_sum_nth atLeast0LessThan)
  also have "\<dots> = n" using sum_count_list [OF r(4)] r(2) by simp
  finally have sum: "sum_list (map (\<lambda>e. nat (increased (snd e))) disks') = n" .
  have "\<forall>e \<in> set disks'. shared_disk (snd e)" using e(1) r(3) by (metis in_set_conv_nth)
  then show ?thesis using r(1,3) e(3,4) sum
    by (intro exI [where x = disks'] exI [where x = picks]) (auto intro!: nth_equalityI)
qed

text \<open>The tasks that are then made are as many for every disk as were allotted to it.\<close>

lemma tasks_as_allotted:
  fixes disks :: "(string, disk) omap"
  assumes "\<forall>e \<in> set disks. shared_disk (snd e)" and "sum_list (map (\<lambda>e. nat (increased (snd e))) disks) = n"
  shows "\<exists>rest picks. round_robin (\<lambda>e. increased (snd e) > 0) (apsnd (\<lambda>d. d\<lparr>increased := increased d - 1\<rparr>))
      disks 0 n [] = Some (rest, picks) \<and> length picks = n \<and> set picks \<subseteq> {..< length disks} \<and>
    (\<forall>j < length disks. int (count_list picks j) = increased (snd (disks ! j)))"
proof -
  have "n = 0 \<or> 0 < length disks" using assms(2) by (cases disks) auto
  from increased_space.round_robin_ends [OF eq_refl [OF assms(2) [symmetric]] this, of "[]"] obtain rest picks where
    r: "round_robin (\<lambda>e. increased (snd e) > 0) (apsnd (\<lambda>d. d\<lparr>increased := increased d - 1\<rparr>)) disks 0 n [] = Some (rest, picks)"
      "length picks = n" "set picks \<subseteq> {..< length disks}"
    and c: "\<And>j. j < length disks \<Longrightarrow> count_list picks j \<le> nat (increased (snd (disks ! j)))"
    by fastforce
  have "int (count_list picks j) = increased (snd (disks ! j))" if "j < length disks" for j
    using counts_exhaust [of picks disks "\<lambda>e. nat (increased (snd e))" j] r c that assms nth_mem [OF that]
    by (auto simp: shared_disk_def)
  then show ?thesis using r by blast
qed

section \<open>Lemmas: the callback of the main loop\<close>

lemma invoke_keeps:
  assumes "invoke name c ecall a = Some (ret, out, a')" and "P (fst a)"
    and "\<And>r e'. ecall (fst a) = Some (r, e') \<Longrightarrow> P e'"
  shows "P (fst a')"
  using assms(1) by (cases rule: invoke_cases) (use assms(2,3) in auto)

lemma keeps_inv_id: "keeps_inv (\<lambda>s. s)"
  by (simp add: keeps_inv_def)

abbreviation inv_of :: "'h app_state \<Rightarrow> bool" where
  "inv_of a \<equiv> wl_inv (wl (fst a))"

lemma Ecall_srd_increase_inv:
  assumes "\<And>b. length (sha256 S b) = HASH_LENGTH" and "Ecall_srd_increase S H c path a = Some (ret, out, a')" and "inv_of a"
  shows "inv_of a'"
  using assms(2) unfolding Ecall_srd_increase_def
  by (rule invoke_keeps) (use ecall_srd_inv(1) [OF keeps_inv_id assms(3)] assms in auto)

lemma Ecall_srd_set_change_inv:
  assumes "Ecall_srd_set_change c n a = Some (ret, out, a')" and "inv_of a"
  shows "inv_of a'"
  using assms(1) unfolding Ecall_srd_set_change_def
  by (rule invoke_keeps) (use ecall_srd_inv(3) [OF keeps_inv_id assms(2)] assms in auto)

lemma Ecall_srd_decrease_inv:
  assumes "Ecall_srd_decrease S H c n a = Some (ret, out, a')" and "inv_of a"
  shows "inv_of a'"
  using assms(1) unfolding Ecall_srd_decrease_def
  by (rule invoke_keeps) (use ecall_srd_inv(2) [OF keeps_inv_id assms(2)] assms in auto)

lemma srd_tasks_inv:
  assumes "\<And>b. length (sha256 S b) = HASH_LENGTH"
  shows "srd_tasks S H cs cs' i paths a = Some a' \<Longrightarrow> inv_of a \<Longrightarrow> inv_of a'"
proof (induction paths arbitrary: i a)
  case (Cons path paths)
  from Cons.prems(1) obtain ret out a1 a2 where
    1: "Ecall_srd_increase S H (cs i) path a = Some (ret, out, a1)"
    and 2: "a2 = a1 \<or> (\<exists>r out'. Ecall_srd_set_change (cs' i) 1 a1 = Some (r, out', a2))"
    and 3: "srd_tasks S H cs cs' (i + 1) paths a2 = Some a'"
    by (auto simp: bind_eq_Some_conv split: if_splits) blast+
  have "inv_of a1" by (rule Ecall_srd_increase_inv [OF assms 1 Cons.prems(2)])
  then have "inv_of a2" using 2 Ecall_srd_set_change_inv by blast
  then show ?case by (rule Cons.IH [OF 3])
qed simp

lemma app_srd_change_inv:
  assumes "\<And>b. length (sha256 S b) = HASH_LENGTH"
    and "app_srd_change J S H F L d c cs cs' r change (a, cfg, f) = Some (a', cfg', f')" and "inv_of a"
  shows "inv_of a'"
proof -
  have dec: "inv_of a'" if "srd_change_decrease J S H L d c change (a, cfg, f) = Some (a', cfg', f')"
    using that assms(3) by (auto simp: srd_change_decrease_def bind_eq_Some_conv split: if_splits intro: Ecall_srd_decrease_inv)
  have inc: "inv_of a'" if i: "srd_change_increase S H F c cs cs' r change (a, cfg, f) = Some (a', cfg', f')"
  proof -
    from i obtain a1 where
      "a1 = a \<or> (\<exists>n r out'. Ecall_srd_set_change c n a = Some (r, out', a1))"
      "a' = a1 \<or> (\<exists>ps. srd_tasks S H cs cs' 0 ps a1 = Some a')"
      by (auto simp: srd_change_increase_def bind_eq_Some_conv split: if_splits) blast+
    then show ?thesis using assms(3) Ecall_srd_set_change_inv srd_tasks_inv [OF assms(1)] by blast
  qed
  show ?thesis using assms(2,3) dec inc by (simp add: app_srd_change_def split: if_splits)
qed

section \<open>Properties\<close>

text \<open>
  C14. For every increase and every state of the disks the sharing out ends, with the smaller of the
  amount asked for and the space that is free beyond the reserve: no disk gets more than it has, and
  the amounts add up.  The second loop, that makes the tasks, ends too and makes as many tasks for
  every disk as it was allotted.  (The configured paths are different.)
\<close>

theorem increase_shared_exactly:
  assumes "\<And>ps. srd_paths cfg = Some ps \<Longrightarrow> distinct ps"
  shows "\<exists>disks n f' rest picks. get_increase_srd_info F cfg reserved amount f = Some ((disks, n), f') \<and>
    int n = min (sum_list (map (available \<circ> snd) disks)) (int amount) \<and>
    (\<forall>j < length disks. 0 \<le> increased (snd (disks ! j)) \<and> increased (snd (disks ! j)) \<le> available (snd (disks ! j))) \<and>
    sum_list (map (increased \<circ> snd) disks) = int n \<and>
    round_robin (\<lambda>e. increased (snd e) > 0) (apsnd (\<lambda>d. d\<lparr>increased := increased d - 1\<rparr>)) disks 0 n [] = Some (rest, picks) \<and>
    length picks = n \<and> (\<forall>j < length disks. int (count_list picks j) = increased (snd (disks ! j)))"
proof -
  obtain disks total_avail f' where find: "find_disks F cfg (sint (get_reserved_space reserved)) f = ((disks, total_avail), f')"
    by (metis prod.exhaust)
  then have ok: "disks_ok (disks, total_avail)" using disks_ok_find [of cfg F "sint (get_reserved_space reserved)" f] assms by simp
  obtain disks' picks where s: "round_robin (\<lambda>e. left (snd e) > 0)
      (apsnd (\<lambda>d. d\<lparr>increased := increased d + 1, left := left d - 1\<rparr>)) disks 0 (min total_avail amount) [] = Some (disks', picks)"
    "\<forall>e \<in> set disks'. shared_disk (snd e)" "map (available \<circ> snd) disks' = map (available \<circ> snd) disks"
    "sum_list (map (\<lambda>e. nat (increased (snd e))) disks') = min total_avail amount"
    using share_increase [OF ok, of "min total_avail amount"] by auto
  have pos: "sum_list (map (g \<circ> snd) ds) = int (sum_list (map (\<lambda>e. nat (g (snd e))) ds))"
    if "\<forall>e \<in> set ds. 0 \<le> g (snd e)" for g :: "disk \<Rightarrow> int" and ds :: "(string, disk) omap"
    using that by (induction ds) auto
  have "int total_avail = sum_list (map (available \<circ> snd) disks')"
    using ok pos [of disks available] by (auto simp: disks_ok_def fresh_disk_def s(3))
  moreover have "sum_list (map (increased \<circ> snd) disks') = int (min total_avail amount)"
    using s(2,4) pos [of disks' increased] by (simp add: shared_disk_def)
  moreover have "get_increase_srd_info F cfg reserved amount f = Some ((disks', min total_avail amount), f')"
    using find s(1) by (simp add: get_increase_srd_info_def Let_def)
  ultimately show ?thesis using tasks_as_allotted [OF s(2,4)] s(2)
    by (auto simp: shared_disk_def of_nat_min)
qed

text \<open>A disk with 60 units of which 50 are reserved.\<close>

definition demo_os :: "unit os" where
  "demo_os = \<lparr>access_ok = (\<lambda>_ _. True), mkdir_p = (\<lambda>_ f. (True, f)),
     statfs = (\<lambda>_ _. Some \<lparr>f_fsid = replicate 8 1, f_bsize = 2 ^ 30, f_blocks = 100, f_bavail = 60, f_bfree = 60\<rparr>)\<rparr>"

definition demo_config :: app_config where
  "demo_config = \<lparr>srd_paths = Some [], srd_path = ''d'', srd_capacity = 0\<rparr>"

text \<open>A JSON reader that always finds one disk with five units.\<close>

definition demo_info :: json where
  "demo_info = JObject [(''d'', JObject [(''assigned'', JIntegral 5)])]"

definition demo_json :: json_hpp where
  "demo_json = \<lparr>J_Load = (\<lambda>_. Some demo_info), J_ToString = (\<lambda>j. case j of JString s \<Rightarrow> s | _ \<Rightarrow> []), J_dump = (\<lambda>_. [])\<rparr>"

theorem increase_shared_exactly_witness:
  "\<exists>disks n f'. get_increase_srd_info demo_os demo_config DEFAULT_SRD_RESERVED 3 () = Some ((disks, n), f') \<and>
     sum_list (map (increased \<circ> snd) disks) = int n"
  using increase_shared_exactly [of demo_config demo_os DEFAULT_SRD_RESERVED 3 "()"] by (auto simp: demo_config_def)



text \<open>
  A decrease is shared out among the disks and the loop ends, with the smaller of the amount
  asked for and what is assigned in all, as long as the stored amounts are not negative.
\<close>

theorem decrease_shared_ends:
  assumes "DataBase_get L DB_SRD_INFO d = (CRUST_SUCCESS, info)" and "J_Load J (string_of_bytes info) = Some j"
    and "\<And>e. e \<in> set (assigned_disks j) \<Longrightarrow> 0 \<le> snd e" and "sum_list (map snd (assigned_disks j)) < 2 ^ 64"
  shows "\<exists>ans. get_decrease_srd_info J L amount d =
    Some (ans, min (nat (sum_list (map snd (assigned_disks j)))) amount)"
proof -
  let ?ds = "assigned_disks j"
  have pos: "0 \<le> sum_list (map snd ds) \<and> nat (sum_list (map snd ds)) = sum_list (map (\<lambda>e. nat (snd e)) ds)"
    if "\<And>e. e \<in> set ds \<Longrightarrow> 0 \<le> snd e" for ds :: "(string \<times> int) list"
    using that by (induction ds) (auto simp: nat_add_distrib)
  have t: "total_assigned ?ds = nat (sum_list (map snd ?ds))"
    using pos [OF assms(3)] assms(4) by (simp add: total_assigned_def size_of_int_def)
  let ?n = "min (total_assigned ?ds) amount"
  have "?n \<le> sum_list (map (\<lambda>e. nat (snd e)) ?ds)" using t pos [OF assms(3)] by simp
  moreover from this have "?n = 0 \<or> 0 < length ?ds" by (cases ?ds) auto
  ultimately obtain rest picks where
    "round_robin (\<lambda>e. snd e > 0) (apsnd (\<lambda>n. n - 1)) ?ds 0 ?n [] = Some (rest, picks)"
    using assigned_space.round_robin_ends [of ?n ?ds 0 "[]"] by auto
  then show ?thesis using assms(1,2) t by (auto simp: get_decrease_srd_info_def Let_def)
qed

theorem decrease_shared_ends_witness:
  "\<exists>ans. get_decrease_srd_info demo_json ldb_map 3 [DB_SRD_INFO \<mapsto> []] = Some (ans, 3)"
proof -
  have "assigned_disks demo_info = [(''d'', 5)]"
    by (simp add: assigned_disks_def demo_info_def json_members_def json_get_def SetType_def)
  then show ?thesis
    using decrease_shared_ends [of ldb_map "[DB_SRD_INFO \<mapsto> []]" "[]" demo_json demo_info 3]
    by (simp add: DataBase_get_def ldb_map_def demo_json_def)
qed

end
