(* ===== verification/Worker.thy ===== *)
theory Worker
  imports AppSrd
begin

text \<open>
  The state the application keeps outside the enclave, \<open>src/app/process/EnclaveData.cpp\<close>, and the
  OCALLs of \<open>src/app/ocalls/OCalls.cpp\<close> that write to it: what the enclave says about itself, the
  data of an upgrade, the trees of sealed files and the database.  The lemmas show that the parts
  in which the enclave hands out its upgrade data make up the whole text again.
\<close>

section \<open>Outside the enclave\<close>

text \<open>
  Three of the four fields of the class \<open>EnclaveData\<close>, the map of sealed trees and the database:
  OCALLs write to them, so they are part of the world the enclave sees.
\<close>

record 'd outside =
  enclave_id_info :: string
  enclave_workload :: string
  upgrade_data :: bytes
  sealed_tree_map :: "string \<rightharpoonup> string"
  db :: 'd

definition get_enclave_id_info :: "'d outside \<Rightarrow> string" where
  "get_enclave_id_info h = enclave_id_info h"

definition set_enclave_id_info :: "string \<Rightarrow> 'd outside \<Rightarrow> 'd outside" where
  "set_enclave_id_info id_info h = h\<lparr>enclave_id_info := id_info\<rparr>"

definition get_enclave_workload :: "'d outside \<Rightarrow> string" where
  "get_enclave_workload h = enclave_workload h"

definition set_enclave_workload :: "string \<Rightarrow> 'd outside \<Rightarrow> 'd outside" where
  "set_enclave_workload workload h = h\<lparr>enclave_workload := workload\<rparr>"

definition get_upgrade_data :: "'d outside \<Rightarrow> bytes" where
  "get_upgrade_data h = upgrade_data h"

definition set_upgrade_data :: "bytes \<Rightarrow> 'd outside \<Rightarrow> 'd outside" where
  "set_upgrade_data data h = h\<lparr>upgrade_data := data\<rparr>"

section \<open>OCALLs\<close>

definition app_store_enclave_id_info :: "string \<Rightarrow> 'd outside \<Rightarrow> 'd outside" where
  "app_store_enclave_id_info info h = set_enclave_id_info info h"

definition app_store_workload :: "string \<Rightarrow> bool \<Rightarrow> 'd outside \<Rightarrow> 'd outside" where
  "app_store_workload data cover h =
     (if cover then set_enclave_workload data h else set_enclave_workload (get_enclave_workload h @ data) h)"

definition app_store_upgrade_data :: "bytes \<Rightarrow> bool \<Rightarrow> 'd outside \<Rightarrow> 'd outside" where
  "app_store_upgrade_data data cover h =
     (if cover then set_upgrade_data data h else set_upgrade_data (get_upgrade_data h @ data) h)"

definition app_store_sealed_merkletree :: "string \<Rightarrow> string \<Rightarrow> 'd outside \<Rightarrow> 'd outside" where
  "app_store_sealed_merkletree org_root_hash tree_data h =
     h\<lparr>sealed_tree_map := (sealed_tree_map h)(org_root_hash \<mapsto> tree_data)\<rparr>"

text \<open>An operation of the database on the outside, and the OCALLs; the others are those of \<open>base\<close>.\<close>

definition on_db :: "('d \<Rightarrow> 'a \<times> 'd) \<Rightarrow> 'd outside \<Rightarrow> 'a \<times> 'd outside" where
  "on_db f h = (case f (db h) of (r, d) \<Rightarrow> (r, h\<lparr>db := d\<rparr>))"

definition app_ocalls :: "'d leveldb \<Rightarrow> 'd outside ocalls \<Rightarrow> 'd outside ocalls" where
  "app_ocalls L base = base\<lparr>
     ocall_persist_add := (\<lambda>k v. on_db (DataBase_add L k v)),
     ocall_persist_del := (\<lambda>k. on_db (DataBase_del L k)),
     ocall_persist_set := (\<lambda>k v. on_db (DataBase_set L k v)),
     ocall_persist_get := (\<lambda>k. on_db (db_persist_get L k)),
     ocall_free_outer_buffer := on_db db_free_outer_buffer,
     ocall_store_enclave_id_info := app_store_enclave_id_info,
     ocall_store_workload := app_store_workload,
     ocall_store_upgrade_data := app_store_upgrade_data,
     ocall_store_sealed_merkletree := app_store_sealed_merkletree\<rparr>"

section \<open>The state of an upgrade\<close>

datatype upgrade_status_t =
    UPGRADE_STATUS_NONE
  | UPGRADE_STATUS_STOP_WORKREPORT
  | UPGRADE_STATUS_PROCESS
  | UPGRADE_STATUS_END
  | UPGRADE_STATUS_COMPLETE
  | UPGRADE_STATUS_EXIT

text \<open>
  The running application: the fourth field of \<open>EnclaveData\<close>, which only the application itself
  writes to, the enclave with the counters of the wrappers, and two global variables.
\<close>

record 'h worker =
  ed_upgrade_status :: upgrade_status_t
  app :: "'h app_state"
  debug_flag :: bool
  change_srd_num :: int

abbreviation enc :: "'h worker \<Rightarrow> 'h enclave" where
  "enc w \<equiv> fst (app w)"

definition ed_get_upgrade_status :: "'h worker \<Rightarrow> upgrade_status_t" where
  "ed_get_upgrade_status w = ed_upgrade_status w"

text \<open>Going back to no upgrade tells the enclave.\<close>

definition ed_set_upgrade_status :: "caller \<Rightarrow> upgrade_status_t \<Rightarrow> 'h worker \<Rightarrow> 'h worker option" where
  "ed_set_upgrade_status c status w =
     (if ed_upgrade_status w = status then Some w
      else let w = w\<lparr>ed_upgrade_status := status\<rparr> in
        if ed_get_upgrade_status w = UPGRADE_STATUS_NONE
        then map_option (\<lambda>(_, _, a). w\<lparr>app := a\<rparr>) (Ecall_disable_upgrade c (app w))
        else Some w)"

section \<open>Lemmas\<close>

lemma app_ocalls_upgrade [simp]: "ocall_store_upgrade_data (app_ocalls L base) = app_store_upgrade_data"
  by (simp add: app_ocalls_def)

lemma send_parts_append:
  "list_all (\<lambda>part. \<not> snd part) parts \<Longrightarrow>
     send_parts (app_ocalls L base) parts h = h\<lparr>upgrade_data := upgrade_data h @ concat (map fst parts)\<rparr>"
proof (induction parts arbitrary: h)
  case (Cons part parts)
  then show ?case
    by (cases part) (simp add: app_store_upgrade_data_def set_upgrade_data_def get_upgrade_data_def)
qed simp

text \<open>The parts make up the text, whatever was there before.\<close>

lemma send_parts_store:
  "send_parts (app_ocalls L base) (store_large_data data) h = h\<lparr>upgrade_data := data\<rparr>"
proof -
  obtain first rest where "store_large_data data = (first, True) # rest" "list_all (\<lambda>part. \<not> snd part) rest"
      "first @ concat (map fst rest) = data"
    using store_large_data_shape [of data] by blast
  then show ?thesis by (simp add: send_parts_append app_store_upgrade_data_def set_upgrade_data_def)
qed

end
