(* ===== verification/Api.thy ===== *)
theory Api
  imports Worker
begin

text \<open>
  The web service, \<open>ApiHandler::http_handler\<close> in \<open>src/app/http/ApiHandler.h\<close>: what a request does to
  the application and the enclave, and its answer.  The service is limited while an upgrade runs,
  and every request that changes something must show the backup of the chain account.  The lemmas
  show that a request without it changes neither the workload nor the state of an upgrade, and
  which requests get past the limit.
\<close>

section \<open>Requests\<close>

datatype verb = verb_get | verb_post | verb_head | verb_other

record request =
  req_method :: verb
  req_target :: string
  req_backup :: "string option"
  req_body :: string

text \<open>The fields of the configuration the handler uses; \<open>url_base\<close> is the path of \<open>base_url\<close>.\<close>

record api_config =
  chain_backup :: string
  chain_address :: string
  url_base :: string

type_synonym response = "nat \<times> string"

text \<open>What the handler answers with, and the application afterwards.\<close>

type_synonym 'd answer = "(response \<times> 'd outside worker) option"

abbreviation (input) VERSION :: string where
  "VERSION \<equiv> ''0.6.0''"

text \<open>The test of the backup that most routes start with: an error, or none.\<close>

definition backup_error :: "api_config \<Rightarrow> request \<Rightarrow> response option" where
  "backup_error cfg req =
     (case req_backup req of
        None \<Rightarrow> Some (400, ''Validate MerkleTree failed!Error: Empty backup!'')
      | Some b \<Rightarrow>
          if chain_backup cfg \<noteq> b then Some (401, ''Validate MerkleTree failed!Error: Invalid backup!'')
          else None)"

section \<open>Information\<close>

text \<open>
  The answer to \<open>/workload\<close>: the text of the enclave, with the space of every disk, each entry
  printed on one line.  \<open>None\<close> is an endless replacement or a line that does not fit its buffer.
\<close>

definition disk_line :: "json_hpp \<Rightarrow> (string, disk) omap \<Rightarrow> string \<Rightarrow> json \<Rightarrow> string option" where
  "disk_line J disks path info =
     (let value = (\<lambda>field. case map_of disks path of Some d \<Rightarrow> JIntegral (field d) | None \<Rightarrow> JNull);
          info = json_set (json_set (json_touch info ''assigned'') ''available'' (value available)) ''total'' (value total)
      in replace (remove_char (J_dump J info) newline) ''}'' ''  }'')"

fun disk_lines :: "json_hpp \<Rightarrow> (string, disk) omap \<Rightarrow> (string, json) omap \<Rightarrow> (string, json) omap option" where
  "disk_lines J disks [] = Some []"
| "disk_lines J disks ((path, info) # details) = do {
     line \<leftarrow> disk_line J disks path info;
     rest \<leftarrow> disk_lines J disks details;
     Some ((path, JString line) # rest)
   }"

definition pad_right :: "nat \<Rightarrow> string \<Rightarrow> string" where
  "pad_right n s = s @ replicate (n - length s) (CHR '' '')"

definition file_line :: "nat \<Rightarrow> string \<Rightarrow> json \<Rightarrow> string option" where
  "file_line space_num name info =
     (let line = replicate (space_num - length name) (CHR '' '') @ ''{  '' @ [dquote] @ ''num'' @ [dquote] @ '' : '' @
            pad_right 6 (to_string_int (ToInt (json_get info ''num''))) @ '', '' @ [dquote] @ ''size'' @ [dquote] @ '' : '' @
            to_string_int (ToInt (json_get info ''size'')) @ ''  }''
      in if 128 \<le> length line then None else Some line)"

fun file_lines :: "nat \<Rightarrow> (string, json) omap \<Rightarrow> json \<Rightarrow> json option" where
  "file_lines space_num [] acc = Some acc"
| "file_lines space_num ((name, info) # infos) acc = do {
     line \<leftarrow> file_line space_num name info;
     file_lines space_num infos (json_set acc name (JString line))
   }"

definition workload_text :: "json_hpp \<Rightarrow> u64 \<Rightarrow> (string, disk) omap \<Rightarrow> json \<Rightarrow> string option" where
  "workload_text J reserved disks wl_json = do {
     let srd = json_touch (json_set (json_get wl_json ''srd'') ''disk_reserved'' (JIntegral (sint reserved))) ''detail'';
     let detail = json_get srd ''detail'';
     srd \<leftarrow> (if JSONType detail = Class_Object
              then map_option (\<lambda>lines. json_set srd ''detail'' (JObject lines)) (disk_lines J disks (json_members detail))
              else Some srd);
     let space = (if JSONType detail = Class_Object
                  then sum_list (map (\<lambda>(_, info). ToInt (json_get info ''assigned'')) (json_members detail)) else 0);
     let wl_json = json_set wl_json ''srd'' (json_set srd ''space'' (JIntegral (sint (word_of_int space :: u64))));
     let files = json_members (json_get wl_json ''files'');
     n_file_info \<leftarrow> file_lines (fold (\<lambda>(name, _). max (length name)) files 0) files JNull;
     t \<leftarrow> replace (J_dump J (json_set wl_json ''files'' n_file_info)) [dquote, CHR ''{''] ''{'';
     t \<leftarrow> replace t ('': '' @ [dquote] @ '' '') '':  '';
     t \<leftarrow> replace t [CHR ''}'', dquote] ''}'';
     Some (remove_char t backslash)
   }"

definition api_workload ::
  "json_hpp \<Rightarrow> 'd outside sgx \<Rightarrow> 'd outside ocalls \<Rightarrow> 'f os \<Rightarrow> app_config \<Rightarrow> u64 \<Rightarrow> caller \<Rightarrow> 'd outside worker \<Rightarrow> 'f
     \<Rightarrow> ((response \<times> 'd outside worker) \<times> 'f) option" where
  "api_workload J S H F cfg reserved c w f = do {
     (_, _, a) \<leftarrow> Ecall_get_workload S H c (app w);
     let w = w\<lparr>app := a\<rparr>;
     wl_json \<leftarrow> J_Load J (get_enclave_workload (hst (enc w)));
     if json_size wl_json = -1 then Some (((200, ''Get workload failed!''), w), f)
     else do {
       ((disks, _), f) \<leftarrow> get_increase_srd_info F cfg reserved 0 f;
       body \<leftarrow> workload_text J (get_reserved_space reserved) disks wl_json;
       Some (((200, body), w), f)
     }
   }"

definition api_id_info ::
  "json_hpp \<Rightarrow> 'd outside sgx \<Rightarrow> 'd outside ocalls \<Rightarrow> api_config \<Rightarrow> caller \<Rightarrow> 'd outside worker \<Rightarrow> 'd answer" where
  "api_id_info J S H cfg c w = do {
     (_, _, a) \<leftarrow> Ecall_id_get_info S H c (app w);
     let w = w\<lparr>app := a\<rparr>;
     id_json \<leftarrow> J_Load J (get_enclave_id_info (hst (enc w)));
     let id_json = json_set id_json ''account'' (JString (chain_address cfg));
     let id_json = json_set id_json ''version'' (JString VERSION);
     Some ((200, J_dump J (json_set id_json ''sworker_version'' (JString SWORKER_VERSION))), w)
   }"

section \<open>Upgrade\<close>

definition enable_error :: "crust_status \<Rightarrow> response" where
  "enable_error crust_status =
     (if crust_status = CRUST_UPGRADE_BLOCK_EXPIRE then (405, ''Block expired!Wait for next era.'')
      else if crust_status = CRUST_UPGRADE_NO_VALIDATE then (406, ''Necessary validation not completed!'')
      else if crust_status = CRUST_UPGRADE_RESTART then (407, ''Cannot report due to restart!Wait for next era.'')
      else if crust_status = CRUST_UPGRADE_NO_FILE then (408, ''Cannot get files for check!Please check karst!'')
      else (409, ''Unknown error.''))"

text \<open>\<open>header\<close> is the number of the block the chain gives, or nothing.\<close>

definition upgrade_start ::
  "api_config \<Rightarrow> u64 option \<Rightarrow> caller \<Rightarrow> request \<Rightarrow> 'd outside worker \<Rightarrow> 'd answer" where
  "upgrade_start cfg header c req w =
     (if ed_get_upgrade_status w \<noteq> UPGRADE_STATUS_NONE \<and> ed_get_upgrade_status w \<noteq> UPGRADE_STATUS_STOP_WORKREPORT
      then Some ((300, ''Another upgrading is still running!''), w)
      else case backup_error cfg req of
        Some res \<Rightarrow> Some (res, w)
      | None \<Rightarrow> do {
          w \<leftarrow> ed_set_upgrade_status c UPGRADE_STATUS_STOP_WORKREPORT w;
          (case header of
             None \<Rightarrow> Some ((402, ''Chain is not running!Get block header failed!''), w)
           | Some number \<Rightarrow> do {
               (ret, out, a) \<leftarrow> Ecall_enable_upgrade c number (app w);
               let w = w\<lparr>app := a\<rparr>;
               let crust_status = (case out of Some st \<Rightarrow> st | None \<Rightarrow> CRUST_SUCCESS);
               if ret \<noteq> SGX_SUCCESS then Some ((403, ''Invoke SGX API failed!''), w)
               else if crust_status = CRUST_SUCCESS then do {
                 w \<leftarrow> ed_set_upgrade_status c UPGRADE_STATUS_PROCESS w;
                 Some ((200, ''Receive upgrade inform successfully!''), w)
               }
               else Some (enable_error crust_status, w)
             })
        })"

definition upgrade_metadata :: "api_config \<Rightarrow> request \<Rightarrow> 'd outside worker \<Rightarrow> 'd answer" where
  "upgrade_metadata cfg req w =
     (if ed_get_upgrade_status w \<noteq> UPGRADE_STATUS_COMPLETE then Some ((300, ''Metadata is still collecting!''), w)
      else case backup_error cfg req of
        Some res \<Rightarrow> Some (res, w)
      | None \<Rightarrow> Some ((200, string_of_bytes (get_upgrade_data (hst (enc w)))), w))"

text \<open>The metadata of the old version moves to another key.\<close>

abbreviation (input) ID_METADATA_OLD :: string where
  "ID_METADATA_OLD \<equiv> ''metadata_old''"

definition retire_metadata :: "'d leveldb \<Rightarrow> 'd \<Rightarrow> 'd" where
  "retire_metadata L d =
     (case DataBase_get L ID_METADATA d of (crust_status, metadata_old) \<Rightarrow>
        let d = (if crust_status \<noteq> CRUST_SUCCESS then d else snd (DataBase_set L ID_METADATA_OLD metadata_old d))
        in snd (DataBase_del L ID_METADATA d))"

definition upgrade_complete ::
  "json_hpp \<Rightarrow> 'd leveldb \<Rightarrow> api_config \<Rightarrow> caller \<Rightarrow> request \<Rightarrow> 'd outside worker \<Rightarrow> 'd answer" where
  "upgrade_complete J L cfg c req w =
     (case backup_error cfg req of
        Some res \<Rightarrow> Some (res, w)
      | None \<Rightarrow> do {
          req_json \<leftarrow> J_Load J (req_body req);
          w \<leftarrow> (if \<not> ToBool (json_get req_json ''success'') then ed_set_upgrade_status c UPGRADE_STATUS_NONE w
                else ed_set_upgrade_status c UPGRADE_STATUS_EXIT
                  (w\<lparr>app := apfst (on_host (\<lambda>h. h\<lparr>db := retire_metadata L (db h)\<rparr>)) (app w)\<rparr>));
          Some ((200, ''crust return''), w)
        })"

section \<open>Changes\<close>

definition api_debug :: "json_hpp \<Rightarrow> request \<Rightarrow> 'd outside worker \<Rightarrow> 'd answer" where
  "api_debug J req w = do {
     req_json \<leftarrow> J_Load J (req_body req);
     if \<not> hasKey req_json ''debug'' \<or> JSONType (json_get req_json ''debug'') \<noteq> Class_Boolean
     then Some ((400, ''Wrong request body!''), w)
     else Some ((200, ''Set debug flag successfully!''), w\<lparr>debug_flag := ToBool (json_get req_json ''debug'')\<rparr>)
   }"

definition api_srd_change :: "json_hpp \<Rightarrow> api_config \<Rightarrow> caller \<Rightarrow> request \<Rightarrow> 'd outside worker \<Rightarrow> 'd answer" where
  "api_srd_change J cfg c req w =
     (case backup_error cfg req of
        Some res \<Rightarrow> Some (res, w)
      | None \<Rightarrow> do {
          req_json \<leftarrow> J_Load J (req_body req);
          let w = w\<lparr>change_srd_num := ToInt (json_get req_json ''change'')\<rparr>;
          if change_srd_num w = 0 then Some ((402, ''Invalid change''), w)
          else do {
            (_, _, a) \<leftarrow> Ecall_srd_set_change c (change_srd_num w) (app w);
            Some ((200, ''Change srd file success, the srd workload will change in next validation loop!''), w\<lparr>app := a\<rparr>)
          }
        })"

text \<open>
  The two tasks run on a thread of their own, but the future they return is dropped at once, which
  waits for them.
\<close>

definition storage_add_confirm :: "'h sgx \<Rightarrow> caller \<Rightarrow> string \<Rightarrow> 'h app_state \<Rightarrow> 'h app_state option" where
  "storage_add_confirm S c hash a = map_option (\<lambda>(_, _, a). a) (Ecall_confirm_file S c hash a)"

definition storage_add_delete :: "'h sgx \<Rightarrow> 'h ocalls \<Rightarrow> caller \<Rightarrow> string \<Rightarrow> 'h app_state \<Rightarrow> 'h app_state option" where
  "storage_add_delete S H c hash a = map_option (\<lambda>(_, _, a). a) (Ecall_delete_file S H c hash a)"

definition api_confirm ::
  "json_hpp \<Rightarrow> 'd outside sgx \<Rightarrow> api_config \<Rightarrow> caller \<Rightarrow> request \<Rightarrow> 'd outside worker \<Rightarrow> 'd answer" where
  "api_confirm J S cfg c req w =
     (case backup_error cfg req of
        Some res \<Rightarrow> Some (res, w)
      | None \<Rightarrow> do {
          req_json \<leftarrow> J_Load J (req_body req);
          let hash = J_ToString J (json_get req_json ''hash'');
          if length hash \<noteq> HASH_LENGTH * 2 then Some ((402, ''Confirm new file failed!Invalid hash!''), w)
          else do {
            a \<leftarrow> storage_add_confirm S c hash (app w);
            Some ((200, ''Confirming new file task has beening added!''), w\<lparr>app := a\<rparr>)
          }
        })"

definition api_delete ::
  "json_hpp \<Rightarrow> 'd outside sgx \<Rightarrow> 'd outside ocalls \<Rightarrow> api_config \<Rightarrow> caller \<Rightarrow> request \<Rightarrow> 'd outside worker \<Rightarrow> 'd answer" where
  "api_delete J S H cfg c req w =
     (case backup_error cfg req of
        Some res \<Rightarrow> Some (res, w)
      | None \<Rightarrow> do {
          req_json \<leftarrow> J_Load J (req_body req);
          let hash = J_ToString J (json_get req_json ''hash'');
          if length hash \<noteq> HASH_LENGTH * 2 then Some ((402, ''Delete file failed!Invalid hash!''), w)
          else do {
            a \<leftarrow> storage_add_delete S H c hash (app w);
            Some ((200, ''Deleting file task has beening added!''), w\<lparr>app := a\<rparr>)
          }
        })"

section \<open>Files\<close>

definition seal_error :: "crust_status \<Rightarrow> string" where
  "seal_error crust_status =
     (if crust_status = CRUST_SUCCESS then ''Invoke SGX api failed!''
      else if crust_status = CRUST_SEAL_DATA_FAILED then ''Internal error: seal data failed!''
      else if crust_status = CRUST_STORAGE_FILE_NOTFOUND then ''Given file cannot be found!''
      else if crust_status = CRUST_FILE_NUMBER_EXCEED then ''No more file can be sealed!File number reachs the upper limit!''
      else ''Unexpected error!'')"

definition unseal_error :: "crust_status \<Rightarrow> string" where
  "unseal_error crust_status =
     (if crust_status = CRUST_SUCCESS then ''Invoke SGX api failed!''
      else if crust_status = CRUST_UNSEAL_DATA_FAILED then ''Internal error: unseal data failed!''
      else if crust_status = CRUST_STORAGE_UPDATE_FILE_FAILED then ''Update new file failed!''
      else if crust_status = CRUST_STORAGE_FILE_NOTFOUND then ''Given file cannot be found!''
      else ''Unexpected error!'')"

text \<open>The buffer for the new path has the length of the old one and starts with zeros.\<close>

definition path_buffer :: "string \<Rightarrow> string \<Rightarrow> string" where
  "path_buffer dir_path new_path = take (length dir_path) (new_path @ replicate (length dir_path) (CHR 0x00))"

definition api_seal ::
  "json_hpp \<Rightarrow> 'd outside sgx \<Rightarrow> 'd outside ocalls \<Rightarrow> api_config \<Rightarrow> caller \<Rightarrow> request \<Rightarrow> 'd outside worker \<Rightarrow> 'd answer" where
  "api_seal J S H cfg c req w =
     (case backup_error cfg req of
        Some res \<Rightarrow> Some (res, w)
      | None \<Rightarrow> do {
          req_json \<leftarrow> J_Load J (req_body req);
          let tree_json = json_get req_json ''body'';
          let dir_path = J_ToString J (json_get req_json ''path'');
          if json_size tree_json = 0 \<or> json_size tree_json = -1
          then Some ((402, ''Validate MerkleTree failed!Error: Empty body!''), w)
          else do {
            let org_root_hash = J_ToString J (json_get tree_json ''hash'');
            let org_tree = strip_dump (J_dump J (json_touch tree_json ''hash''));
            (ret, out, a) \<leftarrow> Ecall_seal_file S H c org_tree dir_path (app w);
            let w = w\<lparr>app := a\<rparr>;
            let (crust_status, new_path) = (case out of Some r \<Rightarrow> r | None \<Rightarrow> (CRUST_SUCCESS, []));
            if ret \<noteq> SGX_SUCCESS \<or> crust_status \<noteq> CRUST_SUCCESS then Some ((403, seal_error crust_status), w)
            else do {
              let new_tree = strip_dump (case sealed_tree_map (hst (enc w)) org_root_hash of Some t \<Rightarrow> t | None \<Rightarrow> []);
              let ret_json = json_set (json_set JNull ''body'' (JString new_tree)) ''path'' (JString (path_buffer dir_path new_path));
              Some ((200, J_dump J ret_json),
                w\<lparr>app := apfst (on_host (\<lambda>h. h\<lparr>sealed_tree_map := (sealed_tree_map h)(org_root_hash := None)\<rparr>)) (app w)\<rparr>)
            }
          }
        })"

text \<open>\<open>list_dir\<close> gives the entries of a directory.\<close>

definition api_unseal ::
  "json_hpp \<Rightarrow> 'd outside sgx \<Rightarrow> 'd outside ocalls \<Rightarrow> api_config \<Rightarrow> (string \<Rightarrow> string list) \<Rightarrow> caller \<Rightarrow> request
     \<Rightarrow> 'd outside worker \<Rightarrow> 'd answer" where
  "api_unseal J S H cfg list_dir c req w =
     (case backup_error cfg req of
        Some res \<Rightarrow> Some (res, w)
      | None \<Rightarrow> do {
          req_json \<leftarrow> J_Load J (req_body req);
          let dir_path = J_ToString J (json_get req_json ''path'');
          let sub_files = list_dir dir_path;
          if sub_files = [] then Some ((402, ''Empty data directory!''), w)
          else do {
            (ret, out, a) \<leftarrow> Ecall_unseal_file S H c sub_files dir_path (length dir_path) (app w);
            let w = w\<lparr>app := a\<rparr>;
            let (crust_status, new_path) = (case out of Some r \<Rightarrow> r | None \<Rightarrow> (CRUST_SUCCESS, []));
            if ret \<noteq> SGX_SUCCESS \<or> crust_status \<noteq> CRUST_SUCCESS then Some ((403, unseal_error crust_status), w)
            else Some ((200, path_buffer dir_path new_path), w)
          }
        })"

section \<open>The handler\<close>

text \<open>The routes that are closed while an upgrade runs.\<close>

definition upgrade_block_s :: "string list" where
  "upgrade_block_s = [''/workload'', ''/srd/change'', ''/storage/confirm'', ''/storage/delete'', ''/storage/seal'', ''/storage/unseal'']"

text \<open>
  Where a request goes.  \<open>None\<close> is the exception of \<open>substr\<close> for a path shorter than the base that
  does not contain it.
\<close>

definition request_path :: "string \<Rightarrow> string" where
  "request_path tgt = takeWhile (\<lambda>ch. ch \<noteq> CHR ''?'') tgt"

definition route_tag :: "string \<Rightarrow> string \<Rightarrow> string option" where
  "route_tag base path = Attestation.substr path ((find_pos path base 0 + length base) mod 2 ^ 64) (length path)"

definition illegal_target :: "string \<Rightarrow> bool" where
  "illegal_target tgt \<longleftrightarrow> tgt = [] \<or> hd tgt \<noteq> CHR ''/'' \<or> string_find tgt ''..'' 0 \<noteq> None"

text \<open>
  What the handler takes from the rest of the application: the JSON library, the runtime, the
  OCALLs, the operating system, the database, its configuration, the reserved space, the block of
  the chain, the table of running tasks as text, the entries of a directory, and who calls.
\<close>

record ('d, 'f) api =
  JSON_lib :: json_hpp
  runtime :: "'d outside sgx"
  host_calls :: "'d outside ocalls"
  op_sys :: "'f os"
  level_db :: "'d leveldb"
  srd_config :: app_config
  config :: api_config
  reserved_space :: u64
  block_header :: "u64 option"
  thread_info :: "admission \<Rightarrow> string"
  dir_entries :: "string \<Rightarrow> string list"
  thread :: caller

definition get_handler ::
  "('d, 'f) api \<Rightarrow> string \<Rightarrow> request \<Rightarrow> 'd outside worker \<Rightarrow> 'f \<Rightarrow> ((response \<times> 'd outside worker) \<times> 'f) option" where
  "get_handler A path req w f =
     (let base = url_base (config A); same = map_option (\<lambda>r. (r, f)) in
      if path = base @ ''/workload''
      then api_workload (JSON_lib A) (runtime A) (host_calls A) (op_sys A) (srd_config A) (reserved_space A) (thread A) w f
      else if path = base @ ''/enclave/thread_info'' then Some (((200, thread_info A (snd (app w))), w), f)
      else if path = base @ ''/enclave/id_info''
      then same (api_id_info (JSON_lib A) (runtime A) (host_calls A) (config A) (thread A) w)
      else if path = base @ ''/upgrade/start'' then same (upgrade_start (config A) (block_header A) (thread A) req w)
      else if path = base @ ''/upgrade/metadata'' then same (upgrade_metadata (config A) req w)
      else if path = base @ ''/upgrade/complete''
      then same (upgrade_complete (JSON_lib A) (level_db A) (config A) (thread A) req w)
      else Some (((200, ''crust return''), w), f))"

text \<open>The last two routes are compared by their beginning only.\<close>

definition post_handler ::
  "('d, 'f) api \<Rightarrow> string \<Rightarrow> request \<Rightarrow> 'd outside worker \<Rightarrow> 'd answer" where
  "post_handler A path req w =
     (let base = url_base (config A) in
      if path = base @ ''/debug'' then api_debug (JSON_lib A) req w
      else if path = base @ ''/srd/change'' then api_srd_change (JSON_lib A) (config A) (thread A) req w
      else if path = base @ ''/storage/confirm'' then api_confirm (JSON_lib A) (runtime A) (config A) (thread A) req w
      else if path = base @ ''/storage/delete''
      then api_delete (JSON_lib A) (runtime A) (host_calls A) (config A) (thread A) req w
      else if take (length (base @ ''/storage/seal'')) path = base @ ''/storage/seal''
      then api_seal (JSON_lib A) (runtime A) (host_calls A) (config A) (thread A) req w
      else if take (length (base @ ''/storage/unseal'')) path = base @ ''/storage/unseal''
      then api_unseal (JSON_lib A) (runtime A) (host_calls A) (config A) (dir_entries A) (thread A) req w
      else Some ((400, ''Unknown request!''), w))"

definition http_handler ::
  "('d, 'f) api \<Rightarrow> request \<Rightarrow> 'd outside worker \<Rightarrow> 'f \<Rightarrow> ((response \<times> 'd outside worker) \<times> 'f) option" where
  "http_handler A req w f =
     (if req_method req = verb_other then Some (((400, ''Unknown HTTP-method''), w), f)
      else if illegal_target (req_target req) then Some (((400, ''Illegal request-target''), w), f)
      else do {
        let path = request_path (req_target req);
        tag \<leftarrow> route_tag (url_base (config A)) path;
        if ed_get_upgrade_status w = UPGRADE_STATUS_EXIT
        then Some (((503, ''No service will be provided because of upgrade!''), w), f)
        else if ed_get_upgrade_status w \<noteq> UPGRADE_STATUS_NONE \<and> ed_get_upgrade_status w \<noteq> UPGRADE_STATUS_STOP_WORKREPORT \<and>
          tag \<in> set upgrade_block_s
        then Some (((503, ''Current service is closed due to upgrade!''), w), f)
        else (case req_method req of
            verb_head \<Rightarrow> Some (((200, []), w), f)
          | verb_get \<Rightarrow> get_handler A path req w f
          | _ \<Rightarrow> map_option (\<lambda>r. (r, f)) (post_handler A path req w))
      })"

section \<open>Lemmas: information changes nothing\<close>

text \<open>What the two routes without a backup may change: two texts.\<close>

definition informed :: "'d outside worker \<Rightarrow> 'd outside worker \<Rightarrow> bool" where
  "informed w w' \<longleftrightarrow> ed_upgrade_status w' = ed_upgrade_status w \<and> change_srd_num w' = change_srd_num w \<and>
     (enc w')\<lparr>hst := hst (enc w)\<rparr> = enc w \<and>
     (hst (enc w'))\<lparr>enclave_id_info := [], enclave_workload := []\<rparr> = (hst (enc w))\<lparr>enclave_id_info := [], enclave_workload := []\<rparr>"

lemma informed_refl [simp]: "informed w w" "informed w (w\<lparr>debug_flag := b\<rparr>)"
  by (simp_all add: informed_def)

lemma info_ecalls_inform:
  assumes "Ecall_get_workload S (app_ocalls L base) c (app w) = Some (ret, out, a) \<or>
    Ecall_id_get_info S (app_ocalls L base) c (app w) = Some (ret, out', a)"
  shows "informed w (w\<lparr>app := a\<rparr>)"
proof -
  have "fst a \<in> {ecall_get_workload S (app_ocalls L base) (enc w), ecall_id_get_info S (app_ocalls L base) (enc w), enc w}"
    using assms unfolding Ecall_get_workload_def Ecall_id_get_info_def by (auto elim!: invoke_cases)
  then show ?thesis
    by (auto simp: informed_def ecall_get_workload_def ecall_id_get_info_def id_get_info_def on_host_def app_ocalls_def
        app_store_workload_def set_enclave_workload_def app_store_enclave_id_info_def set_enclave_id_info_def)
qed

lemma backup_error_iff: "backup_error cfg req = None \<longleftrightarrow> req_backup req = Some (chain_backup cfg)"
  by (auto simp: backup_error_def split: option.splits)

lemma get_handler_informs:
  assumes "host_calls A = app_ocalls (level_db A) base" and "req_backup req \<noteq> Some (chain_backup (config A))"
    and "get_handler A path req w f = Some ((res, w'), f')"
  shows "informed w w'"
proof -
  obtain e where e: "backup_error (config A) req = Some e" using assms(2) backup_error_iff by blast
  show ?thesis
    using assms(1,3) unfolding get_handler_def Let_def
    by (auto simp: api_workload_def api_id_info_def upgrade_start_def upgrade_metadata_def upgrade_complete_def e
        bind_eq_Some_conv Let_def split: if_splits intro: info_ecalls_inform)
qed

lemma post_handler_informs:
  assumes "req_backup req \<noteq> Some (chain_backup (config A))" and "post_handler A path req w = Some (res, w')"
  shows "informed w w'"
proof -
  obtain e where e: "backup_error (config A) req = Some e" using assms(1) backup_error_iff by blast
  show ?thesis
    using assms(2) unfolding post_handler_def Let_def
    by (auto simp: api_debug_def api_srd_change_def api_confirm_def api_delete_def api_seal_def api_unseal_def e
        bind_eq_Some_conv split: if_splits)
qed

section \<open>Lemmas: routes\<close>

lemma route_tag_base: "length base < 2 ^ 64 \<Longrightarrow> route_tag base (base @ r) = Some r"
  by (simp add: route_tag_def find_pos_def string_find_def find_sub.simps Attestation.substr_def)

text \<open>A target below the base goes to its route.\<close>

lemma http_handler_route:
  assumes "req_target req = base @ r" and "url_base (config A) = base" and "length base < 2 ^ 64"
    and "\<not> illegal_target (base @ r)" and "list_all (\<lambda>ch. ch \<noteq> CHR ''?'') (base @ r)" and "req_method req = verb_post"
    and "ed_upgrade_status w \<noteq> UPGRADE_STATUS_EXIT"
  shows "http_handler A req w f =
    (if ed_upgrade_status w \<noteq> UPGRADE_STATUS_NONE \<and> ed_upgrade_status w \<noteq> UPGRADE_STATUS_STOP_WORKREPORT \<and> r \<in> set upgrade_block_s
     then Some (((503, ''Current service is closed due to upgrade!''), w), f)
     else map_option (\<lambda>res. (res, f)) (post_handler A (base @ r) req w))"
proof -
  have "request_path (base @ r) = base @ r" using assms(5) by (simp add: request_path_def takeWhile_eq_all_conv list_all_iff)
  then show ?thesis using assms
    by (auto simp: http_handler_def route_tag_base Let_def ed_get_upgrade_status_def)
qed

section \<open>Properties\<close>


text \<open>A service with one disk, an empty database and no block.\<close>

definition demo_outside :: "(string \<rightharpoonup> bytes) outside" where
  "demo_outside = \<lparr>enclave_id_info = [], enclave_workload = [], upgrade_data = [], sealed_tree_map = Map.empty, db = Map.empty\<rparr>"

definition demo_api :: "(string \<rightharpoonup> bytes, unit) api" where
  "demo_api = \<lparr>JSON_lib = demo_json, runtime = quiet_sgx, host_calls = app_ocalls ldb_map quiet_ocalls, op_sys = demo_os,
     level_db = ldb_map, srd_config = demo_config, config = \<lparr>chain_backup = ''b'', chain_address = ''c'', url_base = ''/api''\<rparr>,
     reserved_space = DEFAULT_SRD_RESERVED, block_header = None, thread_info = (\<lambda>_. []), dir_entries = (\<lambda>_. []), thread = demo_caller\<rparr>"

definition demo_worker :: "upgrade_status_t \<Rightarrow> (string \<rightharpoonup> bytes) outside worker" where
  "demo_worker st = \<lparr>ed_upgrade_status = st, app = (enclave_start demo_workload demo_outside, admission_start), debug_flag = False,
     change_srd_num = 0\<rparr>"

definition demo_request :: "verb \<Rightarrow> string \<Rightarrow> string option \<Rightarrow> request" where
  "demo_request m r b = \<lparr>req_method = m, req_target = ''/api'' @ r, req_backup = b, req_body = []\<rparr>"




end
