(* ===== verification/Process.thy ===== *)
theory Process
  imports Api
begin

text \<open>
  The life of the application, \<open>src/app/process/Process.cpp\<close> and \<open>WorkReport.cpp\<close>: taking over from
  an old version that is still running, starting from metadata or afresh, the loop that watches
  over an upgrade, and the loop that asks for work reports.  Answers of other processes, of the
  chain and of the SGX platform are parameters.  The lemmas show that a takeover counts as done
  only when the enclave accepted the complete data of the old version, and that no era is reported twice.
\<close>

section \<open>Taking over\<close>

text \<open>Numbers of attempts (\<open>src/app/include/Resource.h\<close>).\<close>

abbreviation (input) REPORT_BLOCK_HEIGHT_BASE :: nat where
  "REPORT_BLOCK_HEIGHT_BASE \<equiv> 300"
abbreviation (input) BLOCK_INTERVAL :: nat where
  "BLOCK_INTERVAL \<equiv> 6"
abbreviation (input) UPGRADE_START_TRYOUT :: nat where
  "UPGRADE_START_TRYOUT \<equiv> BLOCK_INTERVAL * REPORT_BLOCK_HEIGHT_BASE * 2"
abbreviation (input) UPGRADE_META_TRYOUT :: nat where
  "UPGRADE_META_TRYOUT \<equiv> BLOCK_INTERVAL * REPORT_BLOCK_HEIGHT_BASE div 5"
abbreviation (input) UPGRADE_COMPLETE_TRYOUT :: nat where
  "UPGRADE_COMPLETE_TRYOUT \<equiv> BLOCK_INTERVAL * 10"

text \<open>The old version is asked until it agrees; \<open>codes i\<close> is the status of answer \<open>i\<close>.\<close>

fun start_loop :: "(nat \<Rightarrow> nat) \<Rightarrow> nat \<Rightarrow> nat \<Rightarrow> bool" where
  "start_loop codes i tryout =
     (if codes i \<noteq> 200
      then if codes i = 404 then False
           else case tryout of 0 \<Rightarrow> False | Suc t \<Rightarrow> start_loop codes (i + 1) t
      else True)"

definition upgrade_try_start :: "(nat \<Rightarrow> nat) \<Rightarrow> bool" where
  "upgrade_try_start codes = start_loop codes 0 (UPGRADE_START_TRYOUT div 16)"

text \<open>The data is fetched until it is there.\<close>

fun fetch_loop :: "(nat \<Rightarrow> response) \<Rightarrow> nat \<Rightarrow> nat \<Rightarrow> string option" where
  "fetch_loop answers i tryout =
     (case answers i of (code, body) \<Rightarrow>
        if code \<noteq> 200
        then if code = 404 then None
             else case tryout of 0 \<Rightarrow> None | Suc t \<Rightarrow> fetch_loop answers (i + 1) t
        else Some body)"

declare start_loop.simps [simp del] fetch_loop.simps [simp del]

text \<open>What the platform says about SGX (the bits of \<open>get_sgx_support\<close>) and about a new enclave.\<close>

record platform =
  SGX_SUPPORT_NO :: bool
  SGX_SUPPORT_ENABLE_REQUIRED :: bool
  SGX_SUPPORT_REBOOT_REQUIRED :: bool
  SGX_SUPPORT_ENABLED :: bool
  sgx_create_enclave :: sgx_status
  fresh_memory :: workload

text \<open>A new enclave takes the place of the old one; only the status of the wrapper is looked at.\<close>

definition initialize_enclave :: "platform \<Rightarrow> 'h sgx \<Rightarrow> caller \<Rightarrow> 'h app_state \<Rightarrow> (bool \<times> 'h app_state) option" where
  "initialize_enclave pf S c a =
     (if SGX_SUPPORT_NO pf \<or> SGX_SUPPORT_ENABLE_REQUIRED pf \<or> SGX_SUPPORT_REBOOT_REQUIRED pf \<or> \<not> SGX_SUPPORT_ENABLED pf
      then Some (False, a)
      else if sgx_create_enclave pf \<noteq> SGX_SUCCESS then Some (False, a)
      else do {
        (ret, _, a) \<leftarrow> Ecall_gen_sgx_measurement S c (enclave_start (fresh_memory pf) (hst (fst a)), snd a);
        Some (ret = SGX_SUCCESS, a)
      })"

text \<open>
  The data goes into the enclave in parts; \<open>cs i\<close> is the caller of call \<open>i\<close>.  An answer that asks
  for more goes on, a failed quote starts over, success ends the loop, and so does the end of the
  data.
\<close>

datatype transfer_result = Transfer_done | Transfer_retry | Transfer_failed

function transfer ::
  "'h sgx \<Rightarrow> 'h ocalls \<Rightarrow> (nat \<Rightarrow> caller) \<Rightarrow> bytes \<Rightarrow> nat \<Rightarrow> nat \<Rightarrow> 'h app_state \<Rightarrow> (transfer_result \<times> 'h app_state) option" where
  "transfer S H cs meta meta_offset i a =
     (if meta_offset < length meta then do {
        let partial_size = min (length meta - meta_offset) OCALL_STORE_THRESHOLD;
        let transfer_end = (meta_offset + partial_size \<ge> length meta);
        (ret, out, a) \<leftarrow> Ecall_restore_from_upgrade S H (cs i) (take partial_size (drop meta_offset meta)) (length meta) transfer_end a;
        let crust_status = (case out of Some st \<Rightarrow> st | None \<Rightarrow> CRUST_SUCCESS);
        if ret \<noteq> SGX_SUCCESS then Some (Transfer_failed, a)
        else if crust_status = CRUST_SUCCESS then Some (Transfer_done, a)
        else if crust_status = CRUST_INIT_QUOTE_FAILED then Some (Transfer_retry, a)
        else if crust_status = CRUST_UPGRADE_NEED_LEFT_DATA then transfer S H cs meta (meta_offset + partial_size) (i + 1) a
        else Some (Transfer_failed, a)
      }
      else Some (Transfer_done, a))"
  by pat_completeness auto
termination
  by (relation "measure (\<lambda>(S, H, cs, meta, meta_offset, i, a). length meta - meta_offset)")
    (auto intro!: diff_less_mono2)

declare transfer.simps [simp del]

text \<open>
  Attempts with a new enclave each.  \<open>restore_tryout\<close> counts down; \<open>pf k\<close>, \<open>cs k\<close> belong to the
  attempt with \<open>k\<close> left.
\<close>

fun restore_rounds ::
  "'h sgx \<Rightarrow> 'h ocalls \<Rightarrow> (nat \<Rightarrow> platform) \<Rightarrow> (nat \<Rightarrow> nat \<Rightarrow> caller) \<Rightarrow> string \<Rightarrow> bytes \<Rightarrow> nat \<Rightarrow> 'h app_state
     \<Rightarrow> (bool \<times> 'h app_state) option" where
  "restore_rounds S H pf cs account meta 0 a = Some (False, a)"
| "restore_rounds S H pf cs account meta (Suc restore_tryout) a = do {
     let k = Suc restore_tryout;
     (created, a) \<leftarrow> initialize_enclave (pf k) S (cs k 0) a;
     if \<not> created then Some (False, a)
     else do {
       (ret, out, a) \<leftarrow> Ecall_gen_key_pair S (cs k 1) (Some account) a;
       if ret \<noteq> SGX_SUCCESS \<or> out \<noteq> Some SGX_SUCCESS then Some (False, a)
       else do {
         (res, a) \<leftarrow> transfer S H (\<lambda>i. cs k (i + 2)) meta 0 0 a;
         (case res of
            Transfer_done \<Rightarrow> Some (True, a)
          | Transfer_failed \<Rightarrow> Some (False, a)
          | Transfer_retry \<Rightarrow> restore_rounds S H pf cs account meta restore_tryout a)
       }
     }
   }"

definition upgrade_try_restore ::
  "'h sgx \<Rightarrow> 'h ocalls \<Rightarrow> (nat \<Rightarrow> response) \<Rightarrow> (nat \<Rightarrow> platform) \<Rightarrow> (nat \<Rightarrow> nat \<Rightarrow> caller) \<Rightarrow> string \<Rightarrow> 'h app_state
     \<Rightarrow> (bool \<times> 'h app_state) option" where
  "upgrade_try_restore S H answers pf cs account a =
     (case fetch_loop answers 0 (UPGRADE_META_TRYOUT div 10) of
        None \<Rightarrow> Some (False, a)
      | Some body \<Rightarrow> restore_rounds S H pf cs account (bytes_of_string body) 3 a)"

text \<open>
  The old version is told the result, a limited number of times; the result is how many requests
  were made.  The new version starts its components (\<open>components_ok\<close>) when it has taken over.
\<close>

fun complete_loop :: "(nat \<Rightarrow> nat) \<Rightarrow> nat \<Rightarrow> nat \<Rightarrow> nat" where
  "complete_loop codes i 0 = i + 1"
| "complete_loop codes i (Suc tryout) =
     (if codes i \<noteq> 200 \<and> codes i \<noteq> 404 \<and> tryout > 0 then complete_loop codes (i + 1) tryout else i + 1)"

definition upgrade_try_complete :: "(nat \<Rightarrow> nat) \<Rightarrow> bool \<Rightarrow> bool \<Rightarrow> nat \<times> bool" where
  "upgrade_try_complete codes components_ok restore_res =
     (complete_loop codes 0 UPGRADE_COMPLETE_TRYOUT, if restore_res then components_ok else restore_res)"

definition do_upgrade ::
  "'h sgx \<Rightarrow> 'h ocalls \<Rightarrow> (nat \<Rightarrow> nat) \<Rightarrow> (nat \<Rightarrow> response) \<Rightarrow> (nat \<Rightarrow> nat) \<Rightarrow> (nat \<Rightarrow> platform) \<Rightarrow> (nat \<Rightarrow> nat \<Rightarrow> caller) \<Rightarrow> string
     \<Rightarrow> bool \<Rightarrow> 'h app_state \<Rightarrow> (bool \<times> 'h app_state) option" where
  "do_upgrade S H start_codes answers complete_codes pf cs account components_ok a =
     (if \<not> upgrade_try_start start_codes then Some (False, a)
      else do {
        (res, a) \<leftarrow> upgrade_try_restore S H answers pf cs account a;
        Some (snd (upgrade_try_complete complete_codes components_ok res), a)
      })"

section \<open>Starting\<close>

text \<open>
  Starting without an old version: metadata is restored, or a new identity enters the network
  (\<open>entry_network\<close>, unless the chain is off) and the configured space is ordered.  The result is
  the status the process ends with, or nothing when it goes on.
\<close>

definition process_start ::
  "'h sgx \<Rightarrow> 'h ocalls \<Rightarrow> platform \<Rightarrow> (nat \<Rightarrow> caller) \<Rightarrow> bool \<Rightarrow> bool \<Rightarrow> ('h app_state \<Rightarrow> (crust_status \<times> 'h app_state) option)
     \<Rightarrow> string \<Rightarrow> u64 \<Rightarrow> 'h app_state \<Rightarrow> (int option \<times> 'h app_state) option" where
  "process_start S H pf cs components_ok offline_chain_mode entry_network account capacity a =
     (if \<not> components_ok then Some (Some (-1), a)
      else do {
        (created, a) \<leftarrow> initialize_enclave pf S (cs 0) a;
        if \<not> created then Some (Some (-1), a)
        else do {
          (ret, out, a) \<leftarrow> Ecall_restore_metadata S H (cs 1) a;
          if ret \<noteq> SGX_SUCCESS \<or> out \<noteq> Some CRUST_SUCCESS then do {
            (ret, out, a) \<leftarrow> Ecall_gen_key_pair S (cs 2) (Some account) a;
            if ret \<noteq> SGX_SUCCESS \<or> out \<noteq> Some SGX_SUCCESS then Some (Some (-1), a)
            else do {
              (st, a) \<leftarrow> (if offline_chain_mode then Some (CRUST_SUCCESS, a) else entry_network a);
              if st \<noteq> CRUST_SUCCESS then Some (Some 1, a)
              else map_option (\<lambda>(_, _, a). (None, a)) (Ecall_srd_set_change (cs 3) (sint capacity) a)
            }
          }
          else do {
            (ret, out, a) \<leftarrow> Ecall_cmp_chain_account_id (cs 2) account a;
            Some (if ret \<noteq> SGX_SUCCESS \<or> out \<noteq> Some CRUST_SUCCESS then Some (-1) else None, a)
          }
        }
      })"

section \<open>Watching over an upgrade\<close>

text \<open>
  One turn of the loop at the end of \<open>process_run\<close>, after it has looked after its threads: when no
  call is in flight that blocks an upgrade, the enclave is asked for its data, and an upgrade that
  takes too long is given up.  The result says whether the process ends.
\<close>

abbreviation (input) upgrade_tryouts :: int where
  "upgrade_tryouts \<equiv> 2 * 300 * 6 div 15"

definition end_if_idle :: "caller \<Rightarrow> 'h worker \<Rightarrow> 'h worker option" where
  "end_if_idle c w =
     (if ed_get_upgrade_status w = UPGRADE_STATUS_PROCESS \<and> get_upgrade_ecalls_num (snd (app w)) = 0
      then ed_set_upgrade_status c UPGRADE_STATUS_END w else Some w)"

definition collect_data ::
  "'h sgx \<Rightarrow> 'h ocalls \<Rightarrow> caller \<Rightarrow> u64 option \<Rightarrow> 'h worker \<Rightarrow> 'h worker option" where
  "collect_data S H c header w =
     (if ed_get_upgrade_status w \<noteq> UPGRADE_STATUS_END then Some w
      else case header of
        None \<Rightarrow> Some w
      | Some number \<Rightarrow> do {
          (ret, out, a) \<leftarrow> Ecall_gen_upgrade_data S H c number (app w);
          let w = w\<lparr>app := a\<rparr>;
          if ret \<noteq> SGX_SUCCESS \<or> out \<noteq> Some CRUST_SUCCESS then Some w
          else ed_set_upgrade_status c UPGRADE_STATUS_COMPLETE w
        })"

definition check_loop_turn ::
  "'h sgx \<Rightarrow> 'h ocalls \<Rightarrow> caller \<Rightarrow> u64 option \<Rightarrow> int \<Rightarrow> 'h worker \<Rightarrow> ((bool \<times> int) \<times> 'h worker) option" where
  "check_loop_turn S H c header upgrade_tryout w = do {
     w \<leftarrow> end_if_idle c w;
     w \<leftarrow> collect_data S H c header w;
     if ed_get_upgrade_status w = UPGRADE_STATUS_EXIT then Some ((True, upgrade_tryout), w)
     else if ed_get_upgrade_status w \<noteq> UPGRADE_STATUS_NONE
     then if upgrade_tryout - 1 < 0
          then map_option (\<lambda>w. ((False, upgrade_tryouts), w)) (ed_set_upgrade_status c UPGRADE_STATUS_NONE w)
          else Some ((False, upgrade_tryout - 1), w)
     else Some ((False, upgrade_tryout), w)
   }"

section \<open>Asking for work reports\<close>

text \<open>The waiting time in seconds, from a number of \<open>rand\<close>, and what is left of it in this era.\<close>

definition get_random_wait_time :: "nat \<Rightarrow> nat" where
  "get_random_wait_time r = (r mod (200 - 10 + 1) + 10 - 1) * BLOCK_INTERVAL"

definition report_wait :: "nat \<Rightarrow> u64 \<Rightarrow> nat" where
  "report_wait r number =
     (let cut_wait_time = unat (number - number div 300 * 300) * BLOCK_INTERVAL; wait_time = get_random_wait_time r
      in max (if cut_wait_time \<ge> wait_time then 0 else wait_time - cut_wait_time) 10)"

record report_loop =
  target_block_height :: u64
  offline_base_height :: u64
  stop_tryout :: int

definition report_loop_start :: "bool \<Rightarrow> u64 option \<Rightarrow> report_loop" where
  "report_loop_start offline_chain_mode header =
     \<lparr>target_block_height = (case header of
        Some number \<Rightarrow> if offline_chain_mode then 300 else (number div 300 + 1) * 300 | None \<Rightarrow> 300),
      offline_base_height = 300, stop_tryout = 20\<rparr>"

text \<open>
  One turn up to the ECALL: the block to report, if any.  \<open>hash_of\<close> gives the hash of a block after
  the waiting time, the empty text when there is none.
\<close>

definition report_request ::
  "bool \<Rightarrow> upgrade_status_t \<Rightarrow> u64 option \<Rightarrow> (u64 \<Rightarrow> string) \<Rightarrow> report_loop \<Rightarrow> (string \<times> u64) option \<times> report_loop" where
  "report_request offline_chain_mode status header hash_of st =
     (let stopped = (status = UPGRADE_STATUS_STOP_WORKREPORT);
          st1 = (if stopped then st\<lparr>stop_tryout := (if stop_tryout st - 1 < 0 then 20 else stop_tryout st - 1)\<rparr> else st)
      in if stopped \<and> stop_tryout st - 1 \<ge> 0 then (None, st1)
         else if offline_chain_mode
         then (Some (''1'' @ replicate 62 (CHR ''0'') @ ''1'', offline_base_height st1),
               st1\<lparr>offline_base_height := offline_base_height st1 + 300\<rparr>)
         else case header of
           None \<Rightarrow> (None, st1)
         | Some number \<Rightarrow>
             if number < target_block_height st1 then (None, st1)
             else let number = number div 300 * 300; hash = hash_of number in
               if hash = [] \<or> hash = replicate 64 (CHR ''0'') then (None, st1)
               else (Some (hash, number), st1\<lparr>target_block_height := number + 300\<rparr>))"

text \<open>One turn; the result says whether the loop goes on.\<close>

definition work_report_turn ::
  "'h sgx \<Rightarrow> 'h ocalls \<Rightarrow> caller \<Rightarrow> bool \<Rightarrow> u64 option \<Rightarrow> (u64 \<Rightarrow> string) \<Rightarrow> report_loop \<Rightarrow> 'h worker
     \<Rightarrow> ((bool \<times> report_loop) \<times> 'h worker) option" where
  "work_report_turn S H c offline_chain_mode header hash_of st w =
     (if ed_get_upgrade_status w = UPGRADE_STATUS_EXIT then Some ((False, st), w)
      else case report_request offline_chain_mode (ed_get_upgrade_status w) header hash_of st of
        (None, st) \<Rightarrow> Some ((True, st), w)
      | (Some (hash, number), st) \<Rightarrow>
          map_option (\<lambda>(_, _, a). ((True, st), w\<lparr>app := a\<rparr>)) (Ecall_gen_and_upload_work_report S H c hash number (app w)))"

text \<open>The blocks asked for in a number of turns, each with the state of the upgrade, the block of the chain and its hashes.\<close>

fun reported_blocks :: "(upgrade_status_t \<times> u64 option \<times> (u64 \<Rightarrow> string)) list \<Rightarrow> report_loop \<Rightarrow> u64 list" where
  "reported_blocks [] st = []"
| "reported_blocks ((status, header, hash_of) # turns) st =
     (case report_request False status header hash_of st of
        (None, st') \<Rightarrow> reported_blocks turns st'
      | (Some (hash, number), st') \<Rightarrow> number # reported_blocks turns st')"

section \<open>Lemmas: binding and calls\<close>

lemma bind_SomeE: "Option.bind m f = Some y \<Longrightarrow> (\<And>x. m = Some x \<Longrightarrow> f x = Some y \<Longrightarrow> P) \<Longrightarrow> P"
  by (cases m) auto

lemma call_host_fst: "call_host f s = (r, s') \<Longrightarrow> fst (f (hst s)) = r"
  by (cases "f (hst s)") (simp add: call_host_def)

section \<open>Lemmas: the transfer\<close>

text \<open>
  The two OCALLs whose status the enclave hands on never ask for more data: in \<open>OCalls.cpp\<close> they
  return success and errors of the network and the chain only.
\<close>

definition plain_answers :: "'h ocalls \<Rightarrow> bool" where
  "plain_answers H \<longleftrightarrow> (\<forall>h. fst (ocall_entry_network H h) \<noteq> CRUST_UPGRADE_NEED_LEFT_DATA) \<and>
     (\<forall>r h. fst (ocall_upload_workreport H r h) \<noteq> CRUST_UPGRADE_NEED_LEFT_DATA)"

lemma plain_answersD:
  assumes "plain_answers H"
  shows "call_host (ocall_entry_network H) e = (st, e') \<Longrightarrow> st \<noteq> CRUST_UPGRADE_NEED_LEFT_DATA"
    and "call_host (ocall_upload_workreport H r) e = (st, e') \<Longrightarrow> st \<noteq> CRUST_UPGRADE_NEED_LEFT_DATA"
proof -
  have r: "st = fst (f (hst e))" if "call_host f e = (st, e')" for f
    using that by (cases "f (hst e)") (simp add: call_host_def)
  show "call_host (ocall_entry_network H) e = (st, e') \<Longrightarrow> st \<noteq> CRUST_UPGRADE_NEED_LEFT_DATA"
    "call_host (ocall_upload_workreport H r) e = (st, e') \<Longrightarrow> st \<noteq> CRUST_UPGRADE_NEED_LEFT_DATA"
    using assms r [of "ocall_entry_network H"] r [of "ocall_upload_workreport H r"] by (auto simp: plain_answers_def)
qed

lemma report_not_left:
  assumes "plain_answers H" and "gen_and_upload_work_report S H bh h t up s = Some (st, s')"
  shows "st \<noteq> CRUST_UPGRADE_NEED_LEFT_DATA"
proof -
  have "st1 \<noteq> CRUST_UPGRADE_NEED_LEFT_DATA" if "gen_work_report S bh h up s = Some (st1, s1)" for st1 s1
    using that by (cases rule: gen_work_report_cases)
      (auto simp: report_condition_def report_body_def sign_report_def Let_def split: if_splits option.splits prod.splits)
  then show ?thesis using assms(2)
    by (auto simp: gen_and_upload_work_report_def bind_eq_Some_conv Let_def split: if_splits prod.splits
        dest!: plain_answersD(2) [OF assms(1)])
qed

lemma verify_not_left:
  "verify_upgrade S j pub w e = Some (st, e') \<Longrightarrow> st \<noteq> CRUST_UPGRADE_NEED_LEFT_DATA"
  unfolding verify_upgrade_def Let_def
  by (auto split: if_split_asm option.split_asm prod.split_asm Option.bind_split_asm)

lemma apply_upgrade_not_left:
  assumes "plain_answers H" and "apply_upgrade S H j s = Some (st, s')"
  shows "st \<noteq> CRUST_UPGRADE_NEED_LEFT_DATA"
proof -
  have "st2 \<noteq> CRUST_UPGRADE_NEED_LEFT_DATA" if "enter_network S H j pub e = Some (st2, e')" for pub e st2 e'
    using that by (cases "call_host (ocall_entry_network H) (on_wl (set_upgrade pub) e)")
      (auto simp: enter_network_def split: if_split_asm dest: plain_answersD(1) [OF assms(1)] report_not_left [OF assms(1)])
  moreover obtain st1 w1 where w1: "restored_workload (alloc S) j (wl s) = (st1, w1)" by fastforce
  moreover from w1 have "st1 \<noteq> CRUST_UPGRADE_NEED_LEFT_DATA"
    by (auto simp: restored_workload_def split: prod.splits if_splits)
  ultimately show ?thesis using assms(2) unfolding apply_upgrade_def Let_def
    by (auto simp: bind_eq_Some_conv split: if_split_asm option.split_asm dest: verify_not_left)
qed

text \<open>The enclave has received the first \<open>k\<close> bytes.\<close>

definition receiving :: "bytes \<Rightarrow> nat \<Rightarrow> 'h enclave \<Rightarrow> bool" where
  "receiving meta k e \<longleftrightarrow> g_upgrade_buffer_offset e = k \<and>
     (k > 0 \<longrightarrow> length (g_upgrade_buffer e) = length meta \<and> take k (g_upgrade_buffer e) = take k meta)"

lemma receive_part_next:
  assumes "receive_part mm (take n (drop k meta)) (length meta) e = Some (CRUST_SUCCESS, e')" and "receiving meta k e"
    and "k + n \<le> length meta"
  shows "receiving meta (k + n) e' \<and> wl e' = wl e"
  using assms by (cases "k = 0") (auto simp: receive_part_def receiving_def Let_def take_add split: if_splits)

text \<open>One turn of a transfer that is done in the end: the last part was accepted, or more follows.\<close>

lemma transfer_turn:
  assumes "transfer S H cs meta k i a = Some (Transfer_done, a')" and "receiving meta k (fst a)"
    and "k < length meta" and "plain_answers H"
  obtains (accepted) j e where "Load (alloc S) True (string_of_bytes meta) = Some j" "wl e = wl (fst a)"
      "apply_upgrade S H j e = Some (CRUST_SUCCESS, fst a')"
  | (more) k' a1 where "k < k'" "k' < length meta" "receiving meta k' (fst a1)" "wl (fst a1) = wl (fst a)"
      "transfer S H cs meta k' (i + 1) a1 = Some (Transfer_done, a')"
proof -
  let ?n = "min (length meta - k) OCALL_STORE_THRESHOLD"
  let ?part = "take ?n (drop k meta)"
  define last where "last = (length meta \<le> k + ?n)"
  obtain ret out a1 where e: "Ecall_restore_from_upgrade S H (cs i) ?part (length meta) last a = Some (ret, out, a1)"
    using assms(1,3) by (subst (asm) transfer.simps) (auto simp: Let_def bind_eq_Some_conv last_def)
  note step = assms(1) [unfolded transfer.simps [of S H cs meta k] Let_def, folded last_def, unfolded e, simplified assms(3), simplified]
  obtain st where st: "ret = SGX_SUCCESS" "out = Some st" "ecall_restore_from_upgrade S H ?part (length meta) last (fst a) = Some (st, fst a1)"
    using e step unfolding Ecall_restore_from_upgrade_def by (cases rule: invoke_cases) (auto split: if_splits)
  have st_cases: "st = CRUST_SUCCESS \<and> a1 = a' \<or>
      st = CRUST_UPGRADE_NEED_LEFT_DATA \<and> transfer S H cs meta (k + ?n) (i + 1) a1 = Some (Transfer_done, a')"
    using step st(1,2) by (auto split: if_splits)
  then obtain e1 st1 where r: "receive_part (alloc S) ?part (length meta) (fst a) = Some (st1, e1)"
    and rest: "(if st1 \<noteq> CRUST_SUCCESS then Some (st1, e1) else if \<not> last then Some (CRUST_UPGRADE_NEED_LEFT_DATA, e1)
      else Option.bind (Load (alloc S) True (string_of_bytes (take (g_upgrade_buffer_offset e1) (g_upgrade_buffer e1))))
        (\<lambda>j. apply_upgrade S H j (e1\<lparr>g_upgrade_buffer := [], g_upgrade_buffer_offset := 0\<rparr>))) = Some (st, fst a1)"
    using st(3) by (auto simp: ecall_restore_from_upgrade_def id_restore_from_upgrade_def bind_eq_Some_conv split: if_splits)
  have st1: "st1 = CRUST_SUCCESS" using r rest st_cases by (auto simp: receive_part_def Let_def split: if_splits)
  have n: "k + ?n \<le> length meta" "0 < ?n" using assms(3) by auto
  from receive_part_next [OF r [unfolded st1] assms(2) n(1)] have recv: "receiving meta (k + ?n) e1" "wl e1 = wl (fst a)" by simp_all
  show thesis
  proof (cases last)
    case True
    then have "k + ?n = length meta" using n by (simp add: last_def)
    then have "take (g_upgrade_buffer_offset e1) (g_upgrade_buffer e1) = meta"
      using recv(1) n assms(3) by (auto simp: receiving_def)
    then obtain j where j: "Load (alloc S) True (string_of_bytes meta) = Some j"
      "apply_upgrade S H j (e1\<lparr>g_upgrade_buffer := [], g_upgrade_buffer_offset := 0\<rparr>) = Some (st, fst a1)"
      using rest st1 True by (auto simp: bind_eq_Some_conv)
    then have "st = CRUST_SUCCESS" "a1 = a'" using apply_upgrade_not_left [OF assms(4)] st_cases by auto
    with j recv(2) show thesis by (intro accepted) auto
  next
    case False
    then have "st = CRUST_UPGRADE_NEED_LEFT_DATA" "fst a1 = e1" using rest st1 by auto
    then show thesis using False n recv st_cases by (intro more [of "k + ?n" a1]) (auto simp: last_def)
  qed
qed

text \<open>A transfer that is done has delivered everything, and the enclave has accepted it.\<close>

lemma transfer_accepted:
  assumes "transfer S H cs meta k i a = Some (Transfer_done, a')" and "receiving meta k (fst a)"
    and "k < length meta" and "plain_answers H"
  shows "\<exists>j e. Load (alloc S) True (string_of_bytes meta) = Some j \<and> wl e = wl (fst a) \<and>
    apply_upgrade S H j e = Some (CRUST_SUCCESS, fst a')"
  using assms(1-3)
proof (induction "length meta - k" arbitrary: k i a rule: less_induct)
  case less
  from less.prems assms(4) show ?case
  proof (cases rule: transfer_turn)
    case (more k' a1)
    then show ?thesis using less.hyps [of k' "i + 1" a1] by (auto simp: diff_less_mono2)
  qed blast
qed

section \<open>Lemmas: taking over\<close>

lemma start_loop_agreed: "start_loop codes i tryout \<Longrightarrow> \<exists>k \<le> tryout. codes (i + k) = 200"
proof (induction codes i tryout rule: start_loop.induct)
  case (1 codes i tryout)
  show ?case
  proof (cases "codes i = 200")
    case False
    then obtain t where "tryout = Suc t" "start_loop codes (i + 1) t" "codes i \<noteq> 404"
      using "1.prems" by (subst (asm) start_loop.simps) (auto split: if_splits nat.splits)
    with "1.IH" False obtain k where "k \<le> t" "codes (i + 1 + k) = 200" by blast
    then show ?thesis using \<open>tryout = Suc t\<close> by (intro exI [where x = "Suc k"]) simp
  qed auto
qed

lemma fetch_loop_body: "fetch_loop answers i tryout = Some body \<Longrightarrow> \<exists>k \<le> tryout. answers (i + k) = (200, body)"
proof (induction answers i tryout rule: fetch_loop.induct)
  case (1 answers i tryout)
  obtain code b where ans: "answers i = (code, b)" by fastforce
  show ?case
  proof (cases "code = 200")
    case True
    then show ?thesis using "1.prems" ans by (subst (asm) fetch_loop.simps) auto
  next
    case False
    then obtain t where "tryout = Suc t" "fetch_loop answers (i + 1) t = Some body" "code \<noteq> 404"
      using "1.prems" ans by (subst (asm) fetch_loop.simps) (auto split: if_splits nat.splits)
    with "1.IH" [OF ans [symmetric] False] obtain k where "k \<le> t" "answers (i + 1 + k) = (200, body)" by blast
    then show ?thesis using \<open>tryout = Suc t\<close> by (intro exI [where x = "Suc k"]) simp
  qed
qed

lemma invoke_made:
  assumes "invoke name c ecall a = Some (SGX_SUCCESS, out, a')"
  obtains r where "out = Some r" "ecall (fst a) = Some (r, fst a')"
  using assms by (cases rule: invoke_cases) auto

text \<open>A new enclave has received nothing yet.\<close>

lemma new_enclave_offset:
  "ecall_gen_sgx_measurement S e = (st, e') \<Longrightarrow> g_upgrade_buffer_offset e' = g_upgrade_buffer_offset e"
  "ecall_gen_key_pair S account e = (st, e') \<Longrightarrow> g_upgrade_buffer_offset e' = g_upgrade_buffer_offset e"
  by (auto simp: ecall_gen_sgx_measurement_def id_gen_sgx_measurement_def ecall_gen_key_pair_def id_gen_key_pair_def
      call_host_def on_wl_def Let_def split: if_splits prod.splits option.splits)

lemma new_enclave_waits:
  assumes "initialize_enclave pf S c a = Some (True, a1)" and "Ecall_gen_key_pair S c' account a1 = Some (SGX_SUCCESS, out, a2)"
  shows "receiving meta 0 (fst a2)"
proof -
  from assms(1) have "g_upgrade_buffer_offset (fst a1) = 0"
    unfolding initialize_enclave_def Ecall_gen_sgx_measurement_def
    by (auto simp: bind_eq_Some_conv enclave_start_def split: if_splits elim!: invoke_made dest: new_enclave_offset)
  then show ?thesis
    using assms(2) unfolding Ecall_gen_key_pair_def
    by (auto simp: receiving_def elim!: invoke_made dest: new_enclave_offset)
qed

lemma restore_rounds_accepted:
  assumes "plain_answers H" and "meta \<noteq> []"
  shows "restore_rounds S H pf cs account meta tryout a = Some (True, a') \<Longrightarrow>
    \<exists>j e. Load (alloc S) True (string_of_bytes meta) = Some j \<and> apply_upgrade S H j e = Some (CRUST_SUCCESS, fst a')"
proof (induction tryout arbitrary: a)
  case (Suc tryout)
  let ?k = "Suc tryout"
  from Suc.prems obtain a1 out a2 where
    new: "initialize_enclave (pf ?k) S (cs ?k 0) a = Some (True, a1)" "Ecall_gen_key_pair S (cs ?k 1) (Some account) a1 = Some (SGX_SUCCESS, out, a2)"
    and rest: "Option.bind (transfer S H (\<lambda>i. cs ?k (i + 2)) meta 0 0 a2) (\<lambda>(res, a).
      case res of Transfer_done \<Rightarrow> Some (True, a) | Transfer_failed \<Rightarrow> Some (False, a)
        | Transfer_retry \<Rightarrow> restore_rounds S H pf cs account meta tryout a) = Some (True, a')"
    by (auto simp: Let_def bind_eq_Some_conv split: if_splits)
  from rest obtain res a3 where t: "transfer S H (\<lambda>i. cs ?k (i + 2)) meta 0 0 a2 = Some (res, a3)"
    by (auto simp: bind_eq_Some_conv)
  show ?case
  proof (cases res)
    case Transfer_done
    then have "transfer S H (\<lambda>i. cs ?k (i + 2)) meta 0 0 a2 = Some (Transfer_done, a')" using rest t by simp
    from transfer_accepted [OF this new_enclave_waits [OF new] _ assms(1)] assms(2) show ?thesis by auto
  qed (use rest t Suc.IH in auto)
qed simp

section \<open>Lemmas: work reports\<close>

text \<open>The block of an era.\<close>

lemma unat_era: "unat (number div 300 * 300 :: u64) = unat number div 300 * 300"
proof -
  have "unat number div 300 * 300 \<le> unat number" by simp
  also have "unat number < 2 ^ LENGTH(64)" by (rule unsigned_less)
  finally show ?thesis by (simp add: unat_mult_lem [THEN iffD1] unat_div)
qed

lemma report_request_number:
  assumes "report_request False status header hash_of st = (Some (hash, number), st')"
  obtains top where "header = Some top" "target_block_height st \<le> top" "number = top div 300 * 300" "target_block_height st' = number + 300"
    "hash = hash_of number" "hash \<noteq> []"
  using assms
  by (auto simp: report_request_def Let_def split: if_splits option.splits)

lemma report_request_none:
  "report_request False status header hash_of st = (None, st') \<Longrightarrow> target_block_height st' = target_block_height st"
  by (auto simp: report_request_def Let_def split: if_splits option.splits)

lemma reported_blocks_apart:
  assumes "300 dvd unat (target_block_height st)"
    and "list_all (\<lambda>(status, header, hash_of). \<forall>top. header = Some top \<longrightarrow> unat top < 2 ^ 64 - 300) turns"
  shows "sorted_wrt (\<lambda>a b. unat a + 300 \<le> unat b) (reported_blocks turns st) \<and>
    (\<forall>b \<in> set (reported_blocks turns st). 300 dvd unat b \<and> unat (target_block_height st) \<le> unat b)"
  using assms
proof (induction turns arbitrary: st)
  case (Cons turn turns)
  obtain status header hash_of where turn: "turn = (status, header, hash_of)" by (cases turn)
  obtain r st' where r: "report_request False status header hash_of st = (r, st')" by fastforce
  show ?case
  proof (cases r)
    case None
    then have "target_block_height st' = target_block_height st" using r report_request_none by blast
    then show ?thesis using Cons.IH [of st'] Cons.prems turn r None by simp
  next
    case (Some hn)
    obtain hash number where hn: "hn = (hash, number)" by (cases hn)
    from r Some hn obtain top where top: "header = Some top" "target_block_height st \<le> top" "number = top div 300 * 300"
      "target_block_height st' = number + 300"
      using report_request_number [of status header hash_of st hash number st'] by auto
    have era: "unat number = unat top div 300 * 300" by (simp add: top(3) unat_era)
    have "unat top < 2 ^ 64 - 300" using Cons.prems(2) turn top(1) by simp
    then have "unat (number + 300) = unat number + 300"
      using era by (subst unat_add_lem [THEN iffD1]) simp_all
    then have t: "unat (target_block_height st') = unat number + 300" using top(4) by simp
    moreover have "300 dvd unat number" using era by simp
    moreover have "unat (target_block_height st) \<le> unat number"
      using Cons.prems(1) top(2) era by (auto simp: word_le_nat_alt dvd_def)
    ultimately show ?thesis using Cons.IH [of st'] Cons.prems(2) turn r Some hn by (fastforce simp: dvd_add)
  qed
qed simp

text \<open>Between 9 and 199 blocks.\<close>

lemma wait_bounds: "54 \<le> get_random_wait_time r \<and> get_random_wait_time r \<le> 1194"
proof -
  have "r mod 191 < 191" by simp
  then show ?thesis by (simp add: get_random_wait_time_def)
qed

section \<open>A platform without obstacles\<close>

definition demo_platform :: platform where
  "demo_platform = \<lparr>SGX_SUPPORT_NO = False, SGX_SUPPORT_ENABLE_REQUIRED = False, SGX_SUPPORT_REBOOT_REQUIRED = False,
     SGX_SUPPORT_ENABLED = True, sgx_create_enclave = SGX_SUCCESS, fresh_memory = demo_workload\<rparr>"

text \<open>No call is waiting or running.\<close>

definition idle :: "admission \<Rightarrow> bool" where
  "idle s \<longleftrightarrow> waiting_v s = [0, 0, 0, 0] \<and> running_num s = 0 \<and> running_um s = Map.empty"

lemma idle_invoke:
  assumes "idle s" and "block_tasks name = []" and "task_prio name = 0" and "ecall e = Some (r, e')"
  shows "\<exists>s'. invoke name demo_caller ecall (e, s) = Some (SGX_SUCCESS, Some r, e', s') \<and> idle s'"
proof -
  have "try_get_enclave 1 name (\<lambda>i. True) (\<lambda>i s. s) s =
      Some (SGX_SUCCESS, task_leave name SGX_SUCCESS (take_enclave 1 name (task_enter name s)))"
    unfolding try_get_enclave_def using assms(1-3)
    by (subst try_loop.simps) (simp add: Let_def try_lock_section_def enclave_refused_def task_enter_def idle_def)
  then show ?thesis using assms
    by (auto simp: invoke_def with_enclave_def demo_caller_def idle_def task_leave_def take_enclave_def task_enter_def free_enclave_def Let_def)
qed

lemma start_tasks:
  "block_tasks ''Ecall_gen_sgx_measurement'' = []" "block_tasks ''Ecall_gen_key_pair'' = []" "block_tasks ''Ecall_restore_from_upgrade'' = []"
  "task_prio ''Ecall_gen_sgx_measurement'' = 0" "task_prio ''Ecall_gen_key_pair'' = 0" "task_prio ''Ecall_restore_from_upgrade'' = 0"
  by (simp_all add: block_tasks_def g_block_tasks_um_def task_prio_def g_task_priority_um_def)

text \<open>The start of a new enclave there, and a takeover in one part.\<close>

lemma demo_text:
  "Load mem_ok True (json_text demo_upgrade) = Some demo_upgrade" "json_text demo_upgrade \<noteq> []"
  "length (json_text demo_upgrade) \<le> OCALL_STORE_THRESHOLD"
proof -
  have simple: "simple demo_upgrade"
    by (simp add: demo_upgrade_def omap_ok_def plain_hex_string LONG_MAX_def del: map_replicate) (simp add: plain_def plain_char_def)
  show "Load mem_ok True (json_text demo_upgrade) = Some demo_upgrade"
    by (subst Load_def, subst json_Load_text) (simp_all add: simple hash_memory_def, simp add: demo_upgrade_def)
  show "json_text demo_upgrade \<noteq> []" using compact_first [OF simple] by auto
  show "length (json_text demo_upgrade) \<le> OCALL_STORE_THRESHOLD"
    by (simp add: demo_upgrade_def OCALL_STORE_THRESHOLD_def quoted_def length_concat_hex del: map_replicate)
      (use length_to_string_int [of 1000 4] in simp)
qed

lemma blank_keys:
  "blank (set_mr_enclave m w) = blank w" "blank (set_key_pair k w) = blank w" "blank (set_account_id acc w) = blank w"
  by (simp_all add: blank_def set_mr_enclave_def set_key_pair_def set_account_id_def wl_inv_def)

lemma demo_start:
  assumes "idle s"
  shows "\<exists>e1 e2 s1 s2. initialize_enclave demo_platform quiet_sgx demo_caller (e, s) = Some (True, e1, s1) \<and>
    Ecall_gen_key_pair quiet_sgx demo_caller (Some ''a'') (e1, s1) = Some (SGX_SUCCESS, Some SGX_SUCCESS, e2, s2) \<and>
    blank (wl e2) \<and> g_upgrade_buffer_offset e2 = 0 \<and> \<not> upgrading e2 \<and> idle s2"
proof -
  let ?e0 = "enclave_start demo_workload (hst e) "
  define e1 where "e1 = snd (ecall_gen_sgx_measurement quiet_sgx ?e0)"
  define e2 where "e2 = snd (ecall_gen_key_pair quiet_sgx (Some ''a'') e1)"
  have m: "ecall_gen_sgx_measurement quiet_sgx ?e0 = (SGX_SUCCESS, e1)"
    by (simp add: e1_def ecall_gen_sgx_measurement_def id_gen_sgx_measurement_def call_host_def) (simp add: quiet_sgx_def)
  have e1: "blank (wl e1)" "\<not> try_get_key_pair (wl e1)" "g_upgrade_buffer_offset e1 = 0" "\<not> upgrading e1"
    using blank_new
    by (simp_all add: e1_def ecall_gen_sgx_measurement_def id_gen_sgx_measurement_def call_host_def quiet_sgx_def on_wl_def blank_keys
        enclave_start_def)
      (simp_all add: set_mr_enclave_def try_get_key_pair_def Workload_new_def upgrading_def get_upgrade_status_def)
  have k: "ecall_gen_key_pair quiet_sgx (Some ''a'') e1 = (SGX_SUCCESS, e2)"
    using e1(2) by (simp add: e2_def ecall_gen_key_pair_def id_gen_key_pair_def quiet_sgx_def call_host_def)
  have e2: "blank (wl e2)" "g_upgrade_buffer_offset e2 = 0" "\<not> upgrading e2"
    using e1
    by (simp_all add: e2_def ecall_gen_key_pair_def id_gen_key_pair_def call_host_def quiet_sgx_def on_wl_def blank_keys)
      (simp add: set_account_id_def set_key_pair_def upgrading_def get_upgrade_status_def)
  obtain s1 where "Ecall_gen_sgx_measurement quiet_sgx demo_caller (?e0, s) = Some (SGX_SUCCESS, Some SGX_SUCCESS, e1, s1)" "idle s1"
    using idle_invoke [OF assms, of "''Ecall_gen_sgx_measurement''" "\<lambda>e. Some (ecall_gen_sgx_measurement quiet_sgx e)" ?e0] m
    by (auto simp: Ecall_gen_sgx_measurement_def start_tasks)
  moreover obtain s2 where "Ecall_gen_key_pair quiet_sgx demo_caller (Some ''a'') (e1, s1) = Some (SGX_SUCCESS, Some SGX_SUCCESS, e2, s2)" "idle s2"
    using idle_invoke [OF \<open>idle s1\<close>, of "''Ecall_gen_key_pair''" "\<lambda>e. Some (ecall_gen_key_pair quiet_sgx (Some ''a'') e)" e1] k
    by (auto simp: Ecall_gen_key_pair_def start_tasks)
  ultimately show ?thesis using e2 by (auto simp: initialize_enclave_def demo_platform_def)
qed


lemma demo_transfer:
  assumes "blank (wl e)" and "g_upgrade_buffer_offset e = 0" and "\<not> upgrading e" and "idle s"
  shows "\<exists>a'. transfer quiet_sgx quiet_ocalls (\<lambda>_. demo_caller) (bytes_of_string (json_text demo_upgrade)) 0 0 (e :: unit enclave, s) =
    Some (Transfer_done, a')"
proof -
  let ?t = "bytes_of_string (json_text demo_upgrade)"
  let ?e = "e\<lparr>g_upgrade_buffer := [], g_upgrade_buffer_offset := 0\<rparr>"
  obtain s' where "apply_upgrade quiet_sgx quiet_ocalls demo_upgrade ?e = Some (CRUST_SUCCESS, s')"
    using demo_upgrade_accepted [of ?e] assms(1) by auto
  then have "ecall_restore_from_upgrade quiet_sgx quiet_ocalls ?t (length ?t) True e = Some (CRUST_SUCCESS, s')"
    using assms(2,3) demo_text(1)
    by (simp add: ecall_restore_from_upgrade_def id_restore_from_upgrade_def receive_part_def Let_def)
  then obtain s2 where "Ecall_restore_from_upgrade quiet_sgx quiet_ocalls demo_caller ?t (length ?t) True (e, s) =
      Some (SGX_SUCCESS, Some CRUST_SUCCESS, s', s2)"
    using idle_invoke [OF assms(4), of "''Ecall_restore_from_upgrade''" "\<lambda>e. ecall_restore_from_upgrade quiet_sgx quiet_ocalls ?t (length ?t) True e" e]
    by (auto simp: Ecall_restore_from_upgrade_def start_tasks)
  then show ?thesis using demo_text(2,3) by (subst transfer.simps) (simp add: bytes_of_string_def Let_def min_def)
qed

section \<open>Properties\<close>

text \<open>
  C7. The new version counts an upgrade as done only when an old version agreed to it and handed out
  data, and, unless that data was empty, the enclave that now runs has taken the complete text,
  however many parts it was cut into and however often it was started over, and accepted it with all
  its checks.  (An empty answer is taken for success without any check.)
\<close>

theorem upgrade_done_means_accepted:
  assumes "plain_answers H"
    and "do_upgrade S H start_codes answers complete_codes pf cs account components_ok a = Some (True, a')"
  shows "(\<exists>k. start_codes k = 200) \<and> (\<exists>k body. answers k = (200, body) \<and> (body = [] \<or>
    (\<exists>j e. Load (alloc S) True body = Some j \<and> apply_upgrade S H j e = Some (CRUST_SUCCESS, fst a'))))"
proof -
  have agreed: "upgrade_try_start start_codes" using assms(2) by (auto simp: do_upgrade_def split: if_splits)
  have "upgrade_try_restore S H answers pf cs account a = Some (True, a')"
    using assms(2) by (auto simp: do_upgrade_def bind_eq_Some_conv upgrade_try_complete_def split: if_splits)
  then obtain body where body: "fetch_loop answers 0 (UPGRADE_META_TRYOUT div 10) = Some body"
    "restore_rounds S H pf cs account (bytes_of_string body) 3 a = Some (True, a')"
    by (auto simp: upgrade_try_restore_def split: option.splits)
  have "body \<noteq> [] \<Longrightarrow> \<exists>j e. Load (alloc S) True body = Some j \<and> apply_upgrade S H j e = Some (CRUST_SUCCESS, fst a')"
    using restore_rounds_accepted [OF assms(1) _ body(2)] string_of_bytes_inverse [of body]
    by (metis bytes_of_string_inverse list.map_disc_iff string_of_bytes_def)
  moreover have "\<exists>k. start_codes k = 200"
    using agreed start_loop_agreed unfolding upgrade_try_start_def by blast
  ultimately show ?thesis using fetch_loop_body [OF body(1)] by auto
qed

theorem upgrade_done_means_accepted_witness:
  "\<exists>a'. do_upgrade quiet_sgx quiet_ocalls (\<lambda>_. 200) (\<lambda>_. (200, json_text demo_upgrade)) (\<lambda>_. 200) (\<lambda>_. demo_platform)
      (\<lambda>_ _. demo_caller) ''a'' True (demo_enclave demo_workload (), admission_start) = Some (True, a') \<and>
    (\<exists>j e. apply_upgrade quiet_sgx quiet_ocalls j e = Some (CRUST_SUCCESS, fst a'))"
proof -
  let ?a = "(demo_enclave demo_workload (), admission_start)"
  have "idle admission_start" by (simp add: idle_def admission_start_def)
  from demo_start [OF this, of "demo_enclave demo_workload ()"] obtain e1 e2 s1 s2 where
    start: "initialize_enclave demo_platform quiet_sgx demo_caller ?a = Some (True, e1, s1)"
      "Ecall_gen_key_pair quiet_sgx demo_caller (Some ''a'') (e1, s1) = Some (SGX_SUCCESS, Some SGX_SUCCESS, e2, s2)"
    and e2: "blank (wl e2)" "g_upgrade_buffer_offset e2 = 0" "\<not> upgrading e2" "idle s2" by blast
  obtain a' where "transfer quiet_sgx quiet_ocalls (\<lambda>_. demo_caller) (bytes_of_string (json_text demo_upgrade)) 0 0 (e2, s2) =
      Some (Transfer_done, a')"
    using demo_transfer [OF e2] by blast
  then have d: "do_upgrade quiet_sgx quiet_ocalls (\<lambda>_. 200) (\<lambda>_. (200, json_text demo_upgrade)) (\<lambda>_. 200) (\<lambda>_. demo_platform)
      (\<lambda>_ _. demo_caller) ''a'' True ?a = Some (True, a')"
    using start by (simp add: do_upgrade_def upgrade_try_start_def start_loop.simps upgrade_try_restore_def fetch_loop.simps
        numeral_3_eq_3 upgrade_try_complete_def)
  moreover have "plain_answers quiet_ocalls" by (simp add: plain_answers_def quiet_ocalls_def)
  from upgrade_done_means_accepted [OF this d] demo_text(2)
  have "\<exists>j e. apply_upgrade quiet_sgx quiet_ocalls j e = Some (CRUST_SUCCESS, fst a')" by auto
  ultimately show ?thesis by blast
qed

text \<open>
  C17. Whatever the chain answers and however an upgrade stops the loop in between: the blocks for which the
  loop asks for work reports are ends of eras after the block it started at, and each is at least an
  era later than the one before, so that no era is reported twice.  (Heights near the end of their
  64 bits excepted.)
\<close>

theorem one_report_asked_per_era:
  assumes "list_all (\<lambda>(status, header, hash_of). \<forall>top. header = Some top \<longrightarrow> unat top < 2 ^ 64 - 300) turns"
    and "\<And>number. header = Some number \<Longrightarrow> unat number < 2 ^ 64 - 300"
  shows "sorted_wrt (\<lambda>a b. unat a + 300 \<le> unat b) (reported_blocks turns (report_loop_start False header)) \<and>
    (\<forall>b \<in> set (reported_blocks turns (report_loop_start False header)). 300 dvd unat b \<and> 0 < unat b \<and>
       (\<forall>number. header = Some number \<longrightarrow> unat number < unat b))"
proof -
  let ?t = "target_block_height (report_loop_start False header)"
  have "300 dvd unat ?t \<and> 0 < unat ?t \<and> (\<forall>number. header = Some number \<longrightarrow> unat number < unat ?t)"
  proof (cases header)
    case (Some number)
    have "?t = number div 300 * 300 + 300" using Some by (simp add: report_loop_start_def algebra_simps)
    moreover have "unat (number div 300 * 300 + 300) = unat number div 300 * 300 + 300"
      using assms(2) [OF Some] by (subst unat_add_lem [THEN iffD1]) (simp_all add: unat_era)
    ultimately show ?thesis using Some by (auto simp: dvd_add)
  qed (simp add: report_loop_start_def)
  with reported_blocks_apart [OF _ assms(1), of "report_loop_start False header"] show ?thesis by fastforce
qed

theorem one_report_asked_per_era_witness:
  "reported_blocks [(UPGRADE_STATUS_NONE, Some 650, \<lambda>_. ''h''), (UPGRADE_STATUS_NONE, Some 700, \<lambda>_. ''h''), (UPGRADE_STATUS_NONE, Some 901, \<lambda>_. ''h'')]
     (report_loop_start False (Some 310)) = [600, 900] \<and> sorted_wrt (\<lambda>a b. unat a + 300 \<le> unat b) [600 :: u64, 900]"
proof -
  let ?turns = "[(UPGRADE_STATUS_NONE, Some 650, \<lambda>_. ''h''), (UPGRADE_STATUS_NONE, Some 700, \<lambda>_. ''h''), (UPGRADE_STATUS_NONE, Some 901, \<lambda>_. ''h'')]
    :: (upgrade_status_t \<times> u64 option \<times> (u64 \<Rightarrow> string)) list"
  have "reported_blocks ?turns (report_loop_start False (Some 310)) = [600, 900]" by code_simp
  then show ?thesis using one_report_asked_per_era [of ?turns "Some 310"] by auto
qed

end
