(* ===== verification/Upgrade.thy ===== *)
theory Upgrade
  imports Process
begin

text \<open>
  The upgrade protocol across its parts: requests of the new version, the loop of the old version
  that watches over the upgrade, its enclave, and whatever else runs meanwhile.  The lemmas show
  that the state the application keeps and the state of the enclave agree in every run, and that
  the data the old version hands out is the signed text of its workload.
\<close>

section \<open>Runs of the application\<close>

text \<open>
  A step is a request, a turn of the loop that watches over an upgrade, a turn of the loop that asks
  for work reports, or something another thread does with the enclave, the main loop for example:
  it may change the enclave and the counters, but it neither enables nor disables an upgrade nor
  asks for its data.
\<close>

inductive worker_step :: "('d, 'f) api \<Rightarrow> 'd outside worker \<Rightarrow> 'd outside worker \<Rightarrow> bool" for A where
  request: "http_handler (A\<lparr>thread := c, block_header := header\<rparr>) req w f = Some ((res, w'), f') \<Longrightarrow> worker_step A w w'"
| check: "check_loop_turn (runtime A) (host_calls A) c header n w = Some (r, w') \<Longrightarrow> worker_step A w w'"
| report: "work_report_turn (runtime A) (host_calls A) c offline header hash_of st w = Some (r, w') \<Longrightarrow> worker_step A w w'"
| others: "get_upgrade_status (wl e) = get_upgrade_status (wl (enc w)) \<Longrightarrow> worker_step A w (w\<lparr>app := (e, s)\<rparr>)"

inductive worker_reachable :: "('d, 'f) api \<Rightarrow> 'd outside worker \<Rightarrow> bool" for A where
  start: "ed_upgrade_status w = UPGRADE_STATUS_NONE \<Longrightarrow> worker_reachable A w"
| step: "worker_reachable A w \<Longrightarrow> worker_step A w w' \<Longrightarrow> worker_reachable A w'"

text \<open>While the old version works off its calls and collects the data, the enclave refuses work; when the data is there the enclave has stopped.\<close>

definition states_agree :: "'h worker \<Rightarrow> bool" where
  "states_agree w \<longleftrightarrow>
     (ed_upgrade_status w \<in> {UPGRADE_STATUS_PROCESS, UPGRADE_STATUS_END} \<longrightarrow> get_upgrade_status (wl (enc w)) = ENC_UPGRADE_STATUS_PROCESS) \<and>
     (ed_upgrade_status w = UPGRADE_STATUS_COMPLETE \<longrightarrow> get_upgrade_status (wl (enc w)) = ENC_UPGRADE_STATUS_SUCCESS)"

section \<open>Lemmas: who changes the state of the enclave\<close>

lemma invoke_status:
  assumes "invoke name c ecall a = Some (ret, out, a')"
    and "\<And>r e'. ecall (fst a) = Some (r, e') \<Longrightarrow> get_upgrade_status (wl e') = get_upgrade_status (wl (fst a))"
  shows "get_upgrade_status (wl (fst a')) = get_upgrade_status (wl (fst a))"
  using assms(1) by (cases rule: invoke_cases) (auto simp: assms(2))

lemma seal_status:
  assumes "ecall_seal_file S H p_tree path e = Some (res, e')"
  shows "get_upgrade_status (wl e') = get_upgrade_status (wl e)"
proof (cases "upgrading e")
  case False
  then obtain st new_path e1 where "storage_seal_file S H p_tree path (enter SCHED_SEAL e) = Some ((st, new_path), e1)" "e' = leave SCHED_SEAL e1"
    using assms by (auto simp: ecall_seal_file_def)
  then show ?thesis
    by (cases rule: storage_seal_file_cases [consumes 1]) (auto simp: get_upgrade_status_def set_wl_spec_def add_new_file_def Let_def)
qed (use assms in \<open>auto simp: ecall_seal_file_def\<close>)

abbreviation (input) keeps_status :: "'h enclave \<Rightarrow> 'h enclave \<Rightarrow> bool" where
  "keeps_status e e' \<equiv> get_upgrade_status (wl e') = get_upgrade_status (wl e)"

lemma unseal_status: "ecall_unseal_file S H files dir n e = Some (r, e') \<Longrightarrow> keeps_status e e'"
  by (auto simp: ecall_unseal_file_def frame_simps dest!: try_host_wl split: if_splits)

lemma confirm_status: "ecall_confirm_file S hash e = (st, e') \<Longrightarrow> keeps_status e e'"
  by (auto simp: ecall_confirm_file_def storage_confirm_file_def frame_simps get_upgrade_status_def set_wl_spec2_def Let_def
      split: option.splits if_splits)

lemma delete_status: "ecall_delete_file S H hash e = (st, e') \<Longrightarrow> keeps_status e e'"
  by (auto simp: ecall_delete_file_def storage_delete_file_def frame_simps get_upgrade_status_def set_wl_spec_def Let_def
      split: option.splits if_splits)

lemma report_status:
  "ecall_gen_and_upload_work_report S H bh h e = Some (st, e') \<Longrightarrow> keeps_status e e'"
  by (auto simp: ecall_gen_and_upload_work_report_def get_upgrade_status_def Let_def split: if_splits prod.splits
      dest!: report_keeps_upgrade rand_eq)

text \<open>The data of the enclave is there exactly when it answers success.\<close>

lemma gen_upgrade_status:
  assumes "ecall_gen_upgrade_data S H height e = Some (st, e')"
  shows "get_upgrade_status (wl e') =
    (if st = CRUST_SUCCESS then ENC_UPGRADE_STATUS_SUCCESS else get_upgrade_status (wl e))"
proof -
  obtain r s1 where b: "call_host (ocall_get_block_hash H (era_height height (get_report_height (wl e)))) e = (r, s1)"
    by (metis prod.exhaust)
  obtain n s2 where n: "rand_u64 S s1 = (n, s2)" by (metis prod.exhaust)
  show ?thesis
    using assms b n call_host_wl_eq [OF b] rand_eq(2) [OF n] unfolding ecall_gen_upgrade_data_def id_gen_upgrade_data_def Let_def
    by (auto simp: bind_eq_Some_conv get_upgrade_status_def set_upgrade_status_def split: if_splits prod.splits
        dest!: report_keeps_upgrade gen_upgrade_tail_wl)
qed

section \<open>Lemmas: the steps\<close>

definition same_status :: "'h worker \<Rightarrow> 'h worker \<Rightarrow> bool" where
  "same_status w w' \<longleftrightarrow> ed_upgrade_status w' = ed_upgrade_status w \<and> keeps_status (enc w) (enc w')"

lemma same_status_simps [simp]:
  "same_status w w" "same_status w (w\<lparr>debug_flag := b\<rparr>)"
  "same_status w (w\<lparr>change_srd_num := n\<rparr>)"
  by (simp_all add: same_status_def)

lemma same_status_agree: "same_status w w' \<Longrightarrow> states_agree w \<Longrightarrow> states_agree w'"
  by (simp add: same_status_def states_agree_def)

lemma same_status_app [intro]: "keeps_status (enc w) (fst a) \<Longrightarrow> same_status w (w\<lparr>app := a\<rparr>)"
  by (simp add: same_status_def)

text \<open>The wrappers that have nothing to do with upgrades.\<close>

lemma wrapper_status:
  "Ecall_seal_file S H c p_tree path a = Some (ret, out, a') \<Longrightarrow> keeps_status (fst a) (fst a')"
  "Ecall_unseal_file S H c files dir n a = Some (ret, out, a') \<Longrightarrow> keeps_status (fst a) (fst a')"
  "Ecall_confirm_file S c hash a = Some (ret, out1, a') \<Longrightarrow> keeps_status (fst a) (fst a')"
  "Ecall_delete_file S H c hash a = Some (ret, out1, a') \<Longrightarrow> keeps_status (fst a) (fst a')"
  "Ecall_srd_set_change c change a = Some (ret, out2, a') \<Longrightarrow> keeps_status (fst a) (fst a')"
  "Ecall_get_workload S H c a = Some (ret, out2, a') \<Longrightarrow> keeps_status (fst a) (fst a')"
  "Ecall_id_get_info S H c a = Some (ret, out2, a') \<Longrightarrow> keeps_status (fst a) (fst a')"
  "Ecall_gen_and_upload_work_report S H c bh height a = Some (ret, out1, a') \<Longrightarrow> keeps_status (fst a) (fst a')"
  unfolding wrapper_defs
  by (erule invoke_status, auto simp: ecall_srd_set_change_def set_srd_change_def ecall_get_workload_def ecall_id_get_info_def
      id_get_info_def frame_simps Let_def dest: seal_status unseal_status confirm_status delete_status report_status)+

lemma ed_set_status:
  "ed_set_upgrade_status c st w = Some w' \<Longrightarrow> ed_upgrade_status w' = st \<and> (st \<noteq> UPGRADE_STATUS_NONE \<longrightarrow> app w' = app w)"
  by (auto simp: ed_set_upgrade_status_def ed_get_upgrade_status_def Let_def split: if_splits)

lemma set_other_agrees:
  "ed_set_upgrade_status c st w = Some w' \<Longrightarrow>
     st \<in> {UPGRADE_STATUS_NONE, UPGRADE_STATUS_STOP_WORKREPORT, UPGRADE_STATUS_EXIT} \<Longrightarrow> states_agree w'"
  by (auto simp: states_agree_def dest!: ed_set_status)

lemma enable_status: "Some (ecall_enable_upgrade number e) = Some (CRUST_SUCCESS, e') \<Longrightarrow> get_upgrade_status (wl e') = ENC_UPGRADE_STATUS_PROCESS"
  by (auto simp: ecall_enable_upgrade_def frame_simps get_upgrade_status_def set_upgrade_status_def Let_def)

lemma upgrade_start_agrees:
  assumes "upgrade_start cfg header c req w = Some (res, w')" and "states_agree w"
  shows "states_agree w'"
proof (cases "w' = w")
  case False
  then obtain w1 where w1: "ed_set_upgrade_status c UPGRADE_STATUS_STOP_WORKREPORT w = Some w1"
    using assms(1) by (auto simp: upgrade_start_def bind_eq_Some_conv split: if_splits option.splits)
  show ?thesis
  proof (cases "ed_upgrade_status w' = UPGRADE_STATUS_STOP_WORKREPORT")
    case False
    then obtain number a where a: "Some (ecall_enable_upgrade number (enc w1)) = Some (CRUST_SUCCESS, fst a)"
      "ed_set_upgrade_status c UPGRADE_STATUS_PROCESS (w1\<lparr>app := a\<rparr>) = Some w'"
      using assms(1) w1 \<open>w' \<noteq> w\<close> ed_set_status [OF w1] unfolding upgrade_start_def Ecall_enable_upgrade_def
      by (auto simp: bind_eq_Some_conv Let_def split: if_splits option.splits elim!: invoke_made)
    from ed_set_status [OF a(2)] enable_status [OF a(1)] show ?thesis by (simp add: states_agree_def)
  qed (simp add: states_agree_def)
qed (use assms(2) in simp)

lemma api_storage_status:
  "api_debug J req w = Some (res, w') \<Longrightarrow> same_status w w'"
  "api_srd_change J cfg c req w = Some (res, w') \<Longrightarrow> same_status w w'"
  "api_confirm J S cfg c req w = Some (res, w') \<Longrightarrow> same_status w w'"
  "api_delete J S H cfg c req w = Some (res, w') \<Longrightarrow> same_status w w'"
  unfolding api_debug_def api_srd_change_def api_confirm_def storage_add_confirm_def api_delete_def storage_add_delete_def
  by (auto simp: bind_eq_Some_conv Let_def same_status_def split: if_splits option.splits dest!: wrapper_status)

lemma api_file_status:
  "api_seal J S H cfg c req w = Some (res, w') \<Longrightarrow> same_status w w'"
  "api_unseal J S H cfg list_dir c req w = Some (res, w') \<Longrightarrow> same_status w w'"
  unfolding api_seal_def api_unseal_def
  by (auto simp: Let_def same_status_def frame_simps split: option.split_asm if_split_asm prod.split_asm elim!: bind_SomeE
      dest!: wrapper_status(1,2))

lemma post_handler_status:
  assumes "post_handler A path req w = Some (res, w')"
  shows "same_status w w'"
  using assms unfolding post_handler_def Let_def
  by (auto split: if_splits intro: api_storage_status api_file_status)

lemma get_handler_agrees:
  assumes "get_handler A path req w f = Some ((res, w'), f')" and "states_agree w"
  shows "states_agree w'"
proof -
  have info: "states_agree (w\<lparr>app := a\<rparr>)" if "keeps_status (enc w) (fst a)" for a
    using assms(2) that by (simp add: states_agree_def)
  show ?thesis
    using assms unfolding get_handler_def Let_def
    by (auto simp: api_workload_def api_id_info_def upgrade_metadata_def upgrade_complete_def bind_eq_Some_conv Let_def
        split: if_splits option.splits intro: info upgrade_start_agrees set_other_agrees dest: wrapper_status(6,7))
qed

lemma collect_agrees:
  assumes "collect_data S H c header w = Some w'" and "states_agree w"
  shows "states_agree w'"
proof (cases "\<exists>number. ed_upgrade_status w = UPGRADE_STATUS_END \<and> header = Some number")
  case True
  then obtain number ret out a where
    call: "Ecall_gen_upgrade_data S H c number (app w) = Some (ret, out, a)"
    and res: "(if ret \<noteq> SGX_SUCCESS \<or> out \<noteq> Some CRUST_SUCCESS then Some (w\<lparr>app := a\<rparr>)
      else ed_set_upgrade_status c UPGRADE_STATUS_COMPLETE (w\<lparr>app := a\<rparr>)) = Some w'"
    using assms(1) by (auto simp: collect_data_def ed_get_upgrade_status_def bind_eq_Some_conv Let_def)
  have "get_upgrade_status (wl (fst a)) = (if out = Some CRUST_SUCCESS then ENC_UPGRADE_STATUS_SUCCESS else ENC_UPGRADE_STATUS_PROCESS) \<and>
      (ret \<noteq> SGX_SUCCESS \<longrightarrow> out = None)"
    using call unfolding Ecall_gen_upgrade_data_def
    by (cases rule: invoke_cases) (use True assms(2) in \<open>auto simp: states_agree_def gen_upgrade_status\<close>)
  then show ?thesis using res True by (auto simp: states_agree_def split: if_splits dest: ed_set_status)
qed (use assms in \<open>auto simp: collect_data_def ed_get_upgrade_status_def split: option.splits if_splits\<close>)

lemma check_loop_agrees:
  assumes "check_loop_turn S H c header n w = Some (r, w')" and "states_agree w"
  shows "states_agree w'"
proof -
  have "states_agree w1" if "end_if_idle c w = Some w1" for w1
    using that assms(2) by (auto simp: end_if_idle_def states_agree_def ed_get_upgrade_status_def split: if_splits dest: ed_set_status)
  then show ?thesis using assms(1) unfolding check_loop_turn_def
    by (auto simp: bind_eq_Some_conv split: if_splits dest: collect_agrees intro: set_other_agrees)
qed

lemma work_report_status:
  assumes "work_report_turn S H c offline header hash_of st w = Some (r, w')"
  shows "same_status w w'"
  using assms
  by (auto simp: work_report_turn_def same_status_def split: if_splits prod.splits option.splits dest: wrapper_status)

lemma request_agrees:
  assumes "http_handler A req w f = Some ((res, w'), f')" and "states_agree w"
  shows "states_agree w'"
  using assms unfolding http_handler_def
  by (auto simp: bind_eq_Some_conv Let_def split: if_splits verb.splits
      intro: get_handler_agrees post_handler_status [THEN same_status_agree])

section \<open>Lemmas: the data that is handed out\<close>

text \<open>What the text of the workload consists of.\<close>

definition signed_text :: "'h sgx \<Rightarrow> string \<Rightarrow> string \<Rightarrow> workload \<Rightarrow> bytes \<Rightarrow> bool" where
  "signed_text S height report_hash w data \<longleftrightarrow> (\<exists>p_files info srd_root file_root sig h.
     serialize_file (alloc S) w = Some (CRUST_SUCCESS, p_files) \<and> gen_workload_info (alloc S) (sha256 S) w = Some info \<and>
     ToBytes (json_get info WL_SRD_ROOT_HASH) = Some srd_root \<and> ToBytes (json_get info WL_FILE_ROOT_HASH) = Some file_root \<and>
     fst (sgx_ecdsa_sign S (upgrade_sigbuf (get_pub_key w) height report_hash srd_root file_root) (get_pri_key w) h) = Some sig \<and>
     data = upgrade_text (alloc S) w height report_hash (serialize_srd (alloc S) w) p_files info sig)"

lemma tail_text:
  assumes "gen_upgrade_tail S (app_ocalls L base) h bh s = Some (CRUST_SUCCESS, s')"
  shows "wl s' = set_upgrade_status ENC_UPGRADE_STATUS_SUCCESS (wl s)"
    and "signed_text S (to_string (unat h)) bh (wl s) (upgrade_data (hst s'))"
  using gen_upgrade_tail_wl [OF assms] assms unfolding gen_upgrade_tail_def signed_text_def
  by (auto simp: Let_def send_parts_store frame_simps split: if_split_asm option.split_asm prod.split_asm elim!: bind_SomeE
      dest!: call_host_fst) blast

lemma gen_upgrade_tail_reached:
  assumes "ecall_gen_upgrade_data S H height e = Some (CRUST_SUCCESS, e')"
  obtains s bh where "gen_upgrade_tail S H (era_height height (get_report_height (wl e))) bh s = Some (CRUST_SUCCESS, e')"
  using assms unfolding ecall_gen_upgrade_data_def id_gen_upgrade_data_def
  by (auto simp: Let_def split: if_split_asm prod.split_asm elim!: bind_SomeE)

section \<open>An old version with one file\<close>

definition demo_old :: workload where "demo_old = demo_workload\<lparr>validated_proof := 1, upgrade_status := ENC_UPGRADE_STATUS_PROCESS, checked_files := [demo_file ''111'' 7]\<rparr>"

lemma demo_scan:
  "ra_files (scan_files mem_ok False [demo_file ''111'' 7]) = [demo_file ''111'' 7]"
  "ra_reported_idx (scan_files mem_ok False [demo_file ''111'' 7]) = []"
  "files_root quiet_sgx (scan_files mem_ok False [demo_file ''111'' 7]) = Some (Some (replicate 32 0))"
  by code_simp+

lemma demo_ser: "serialize_file mem_ok (w\<lparr>checked_files := [demo_file ''111'' 7]\<rparr>) = Some (CRUST_SUCCESS, bytes_of_string (serialized_files mem_ok [demo_file ''111'' 7]))"
proof -
  have "length (serialized_files mem_ok [demo_file ''111'' 7]) \<le> file_item_len" by code_simp
  then show ?thesis by (simp add: serialize_file_def)
qed
lemma no_srd_buffer: "srd_hashs_buffer [] = []" by code_simp
lemma demo_hashs: "file_hashs_buffer [demo_file ''111'' 7] = Some (replicate 32 7)" by code_simp

lemma demo_report_out:
  assumes "wl s = demo_old"
  shows "\<exists>s'. gen_and_upload_work_report quiet_sgx (app_ocalls ldb_map quiet_ocalls) bh 900 t False s = Some (CRUST_SUCCESS, s') \<and>
    checked_files (wl s') = [demo_file ''111'' 7] \<and> srd_path2hashs_m (wl s') = []"
proof -
  have w: "\<not> height_expired 900 demo_old" "report_condition demo_old = CRUST_SUCCESS" "srd_path2hashs_m demo_old = []" "checked_files demo_old = [demo_file ''111'' 7]"
    by (simp_all add: height_expired_def report_condition_def demo_old_def get_report_height_def get_restart_flag_def
        report_has_validated_proof_def get_report_file_flag_def demo_workload_def Workload_new_def)
  have d: "\<not> dropped_file (demo_file ''111'' 7)" by code_simp
  have "\<exists>s'. sign_report quiet_sgx d t = (CRUST_SUCCESS, s') \<and> wl s' = wl t" for d and t :: "(string \<rightharpoonup> bytes) outside enclave"
    by (simp add: sign_report_def hex_string_to_bytes_def Let_def call_host_def) (simp add: quiet_sgx_def call_host_def)
  then obtain sg where sg: "\<And>d t. sign_report quiet_sgx d t = (CRUST_SUCCESS, sg d t) \<and> wl (sg d t) = wl (t :: (string \<rightharpoonup> bytes) outside enclave)" by metis
  then obtain s1 where s1: "gen_work_report quiet_sgx bh 900 False s = Some (CRUST_SUCCESS, s1)"
    "checked_files (wl s1) = [demo_file ''111'' 7]" "srd_path2hashs_m (wl s1) = []" "reported_files_idx (wl s1) = []"
    using sg [THEN conjunct1] sg [THEN conjunct2]
    by (simp add: gen_work_report_def report_body_def srd_report_def Let_def demo_scan no_srd_buffer assms w d frame_simps)
  then show ?thesis
    by (simp add: gen_and_upload_work_report_def Let_def frame_simps call_host_def handle_report_result_def) (simp add: app_ocalls_def quiet_ocalls_def frame_simps handle_report_result_def)
qed

lemma demo_tail:
  assumes "checked_files (wl s) = [demo_file ''111'' 7]" "srd_path2hashs_m (wl s) = []"
  shows "\<exists>s'. gen_upgrade_tail quiet_sgx H h bh s = Some (CRUST_SUCCESS, s')"
proof -
  have "(wl s) = (wl s)\<lparr>checked_files := [demo_file ''111'' 7]\<rparr>" using assms(1) by simp
  then have "serialize_file mem_ok (wl s) = Some (CRUST_SUCCESS, bytes_of_string (serialized_files mem_ok [demo_file ''111'' 7]))"
    using demo_ser by metis
  moreover have "ToBytes (json_hash (replicate 32 0)) \<noteq> None" by code_simp
  ultimately show ?thesis
    unfolding gen_upgrade_tail_def
    by (simp add: gen_workload_info_def gen_srd_root_def assms demo_hashs sgx_sha256_msg_def Let_def call_host_def) (auto simp: quiet_sgx_def call_host_def Let_def)
qed

lemma demo_data:
  assumes "wl e = demo_old"
  shows "\<exists>e'. ecall_gen_upgrade_data quiet_sgx (app_ocalls ldb_map quiet_ocalls) 1000 e = Some (CRUST_SUCCESS, e')"
proof -
  let ?H = "app_ocalls ldb_map quiet_ocalls"
  have height: "get_report_height demo_old = 0" by (simp add: demo_old_def demo_workload_def Workload_new_def get_report_height_def)
  have era: "era_height 1000 0 = 900" by (simp add: era_height.simps)
  have hash: "ocall_get_block_hash ?H 900 h = ((CRUST_SUCCESS, replicate 64 (CHR ''0'')), h)" for h
    by (simp add: app_ocalls_def quiet_ocalls_def)
  obtain n e2 where n: "rand_u64 quiet_sgx e = (n, e2)" by (metis prod.exhaust)
  then have "wl e2 = demo_old" using rand_eq(2) [OF n] assms by simp
  from demo_report_out [OF this] obtain e3 where
    e3: "gen_and_upload_work_report quiet_sgx ?H (hash_buffer (replicate 64 (CHR ''0''))) 900 (int (upgrade_wait_time n)) False e2 =
      Some (CRUST_SUCCESS, e3)" "checked_files (wl e3) = [demo_file ''111'' 7]" "srd_path2hashs_m (wl e3) = []" by blast
  from demo_tail [OF e3(2,3)] obtain e' where
    "gen_upgrade_tail quiet_sgx ?H 900 (hash_buffer (replicate 64 (CHR ''0''))) e3 = Some (CRUST_SUCCESS, e')" by blast
  then have "ecall_gen_upgrade_data quiet_sgx ?H 1000 e = Some (CRUST_SUCCESS, e')"
    unfolding ecall_gen_upgrade_data_def id_gen_upgrade_data_def assms height
    by (simp add: era hash call_host_def n e3(1) Let_def)
  then show ?thesis by blast
qed

text \<open>That version, ready to be asked for an upgrade and in the middle of one.\<close>

definition demo_running :: "upgrade_status_t \<Rightarrow> enc_upgrade_status \<Rightarrow> (string \<rightharpoonup> bytes) outside worker" where
  "demo_running st est = (demo_worker st)\<lparr>app :=
     ((enclave_start demo_workload demo_outside)\<lparr>wl := demo_old\<lparr>upgrade_status := est\<rparr>\<rparr>, admission_start)\<rparr>"

lemma upgrade_tasks:
  "block_tasks ''Ecall_enable_upgrade'' = []" "block_tasks ''Ecall_gen_upgrade_data'' = []"
  "task_prio ''Ecall_enable_upgrade'' = 0" "task_prio ''Ecall_gen_upgrade_data'' = 0"
  by (simp_all add: block_tasks_def g_block_tasks_um_def task_prio_def g_task_priority_um_def)

lemma idle_start: "idle admission_start"
  by (simp add: idle_def admission_start_def)

section \<open>Properties\<close>



text \<open>
  C6. What the old version hands to the new one is its workload, signed: when the data of an upgrade has
  been collected, a request for it that shows the backup is answered with the text of the workload
  the enclave holds, with its key, the block of the last era, the entries of its random data and its
  files and their roots, and with the enclave's signature of all but the entries, and every byte of it
  arrives although the enclave hands it out in parts.
\<close>

theorem served_data_signed:
  assumes "ed_upgrade_status w = UPGRADE_STATUS_END" and "collect_data S (app_ocalls L base) c header w = Some w'"
    and "ed_upgrade_status w' = UPGRADE_STATUS_COMPLETE" and "req_backup req = Some (chain_backup cfg)"
  shows "\<exists>number bh v p_files info srd_root file_root sig h.
    header = Some number \<and> wl (enc w') = set_upgrade_status ENC_UPGRADE_STATUS_SUCCESS v \<and>
    serialize_file (alloc S) v = Some (CRUST_SUCCESS, p_files) \<and> gen_workload_info (alloc S) (sha256 S) v = Some info \<and>
    ToBytes (json_get info WL_SRD_ROOT_HASH) = Some srd_root \<and> ToBytes (json_get info WL_FILE_ROOT_HASH) = Some file_root \<and>
    (let height = to_string (unat (era_height number (get_report_height (wl (enc w))))) in
      fst (sgx_ecdsa_sign S (upgrade_sigbuf (get_pub_key v) height bh srd_root file_root) (get_pri_key v) h) = Some sig \<and>
      upgrade_metadata cfg req w' =
        Some ((200, string_of_bytes (upgrade_text (alloc S) v height bh (serialize_srd (alloc S) v) p_files info sig)), w'))"
proof -
  let ?H = "app_ocalls L base"
  from assms(1-3) obtain number a where number: "header = Some number"
    and call: "ecall_gen_upgrade_data S ?H number (enc w) = Some (CRUST_SUCCESS, fst a)"
    and w': "w' = w\<lparr>app := a, ed_upgrade_status := UPGRADE_STATUS_COMPLETE\<rparr>"
    by (auto simp: collect_data_def ed_get_upgrade_status_def Let_def ed_set_upgrade_status_def Ecall_gen_upgrade_data_def
        split: if_split_asm option.split_asm elim!: bind_SomeE invoke_made)
  from call obtain s bh where tail: "gen_upgrade_tail S ?H (era_height number (get_report_height (wl (enc w)))) bh s = Some (CRUST_SUCCESS, fst a)"
    by (rule gen_upgrade_tail_reached)
  have meta: "upgrade_metadata cfg req w' = Some ((200, string_of_bytes (upgrade_data (hst (fst a)))), w')"
    using backup_error_iff [of cfg req] assms(3,4) w' by (simp add: upgrade_metadata_def ed_get_upgrade_status_def get_upgrade_data_def)
  have "wl (enc w') = set_upgrade_status ENC_UPGRADE_STATUS_SUCCESS (wl s)" using tail_text(1) [OF tail] w' by simp
  with tail_text(2) [OF tail] meta number show ?thesis unfolding signed_text_def Let_def by (elim exE conjE) (intro exI conjI; assumption?; simp)
qed

theorem served_data_signed_witness:
  "\<exists>w' body. collect_data quiet_sgx (app_ocalls ldb_map quiet_ocalls) demo_caller (Some 1000)
      (demo_running UPGRADE_STATUS_END ENC_UPGRADE_STATUS_PROCESS) = Some w' \<and> ed_upgrade_status w' = UPGRADE_STATUS_COMPLETE \<and>
    upgrade_metadata (config demo_api) (demo_request verb_get ''/upgrade/metadata'' (Some ''b'')) w' = Some ((200, body), w')"
proof -
  let ?w = "demo_running UPGRADE_STATUS_END ENC_UPGRADE_STATUS_PROCESS" and ?H = "app_ocalls ldb_map quiet_ocalls"
  have "wl (enc ?w) = demo_old" by (simp add: demo_running_def demo_old_def)
  then obtain e' where "ecall_gen_upgrade_data quiet_sgx ?H 1000 (enc ?w) = Some (CRUST_SUCCESS, e')" using demo_data by blast
  then obtain s' where "Ecall_gen_upgrade_data quiet_sgx ?H demo_caller 1000 (app ?w) = Some (SGX_SUCCESS, Some CRUST_SUCCESS, e', s')"
    using idle_invoke [OF idle_start upgrade_tasks(2,4), of "\<lambda>e. ecall_gen_upgrade_data quiet_sgx ?H 1000 e" "enc ?w"]
    by (auto simp: Ecall_gen_upgrade_data_def demo_running_def)
  then obtain w' where w': "collect_data quiet_sgx ?H demo_caller (Some 1000) ?w = Some w'" "ed_upgrade_status w' = UPGRADE_STATUS_COMPLETE"
    by (simp add: collect_data_def ed_get_upgrade_status_def ed_set_upgrade_status_def demo_running_def demo_worker_def Let_def)
  have "ed_upgrade_status ?w = UPGRADE_STATUS_END" by (simp add: demo_running_def demo_worker_def)
  moreover have "req_backup (demo_request verb_get ''/upgrade/metadata'' (Some ''b'')) = Some (chain_backup (config demo_api))"
    by (simp add: demo_request_def demo_api_def)
  ultimately show ?thesis using served_data_signed [OF _ w'] w' unfolding Let_def by blast
qed

end
