(* ===== verification/AppJson.thy ===== *)
theory AppJson
  imports AppSrd
begin

text \<open>
  The JSON library of the application, \<open>src/app/utils/Json.hpp\<close>.  It is an older variant of the
  enclave's \<open>EJson.h\<close>: values and element access are the same but for the hashes, which it does not
  have, and the parser is that over \<open>std::string\<close>, without the tag of hashes.  Texts differ:
  arrays are printed on several lines, only strings have a text of their own, and a marker in a string
  becomes a line break.  The lemmas show that loading ends on every text, that the marker is
  replaced by a loop that ends, and that what the application prints it reads back.
\<close>

section \<open>Printing\<close>

abbreviation (input) JSON_NL :: string where
  "JSON_NL \<equiv> ''%$&nl&$%''"

text \<open>
  The search goes on at the place of the replacement, not behind it, so the loop may not end.
\<close>

partial_function (option) str_replace_loop :: "string \<Rightarrow> string \<Rightarrow> string \<Rightarrow> nat \<Rightarrow> string option" where
  "str_replace_loop data org_str det_str epos =
     (case string_find data org_str epos of
        None \<Rightarrow> Some data
      | Some spos \<Rightarrow>
          str_replace_loop (take spos data @ det_str @ drop (spos + length org_str) data) org_str det_str spos)"

definition str_replace :: "string \<Rightarrow> string \<Rightarrow> string \<Rightarrow> string option" where
  "str_replace data org_str det_str = str_replace_loop data org_str det_str 0"

text \<open>The loop ends for the marker (lemma \<open>str_replace_marker\<close>).\<close>

definition hpp_escape :: "string \<Rightarrow> string" where
  "hpp_escape str =
     (case str_replace (json_escape str) JSON_NL (newline # ''        '') of Some output \<Rightarrow> output | None \<Rightarrow> [])"

fun hpp_ToString :: "json \<Rightarrow> string" where
  "hpp_ToString (JString s) = hpp_escape s"
| "hpp_ToString _ = []"

fun hpp_dump :: "nat \<Rightarrow> json \<Rightarrow> string"
and hpp_dump_members :: "nat \<Rightarrow> bool \<Rightarrow> (string \<times> json) list \<Rightarrow> string"
and hpp_dump_items :: "nat \<Rightarrow> bool \<Rightarrow> json list \<Rightarrow> string" where
  "hpp_dump depth JNull = ''null''"
| "hpp_dump depth (JObject m) =
     ''{'' @ [newline] @ hpp_dump_members depth True m @ [newline] @ drop 2 (json_pad depth) @ ''}''"
| "hpp_dump depth (JArray l) =
     ''['' @ [newline] @ json_pad depth @ hpp_dump_items depth True l @ [newline] @ drop 2 (json_pad depth) @ '']''"
| "hpp_dump depth (JString s) = [dquote] @ hpp_escape s @ [dquote]"
| "hpp_dump depth (JFloating r) = to_string_rat r"
| "hpp_dump depth (JIntegral i) = to_string_int i"
| "hpp_dump depth (JBoolean b) = (if b then ''true'' else ''false'')"
| "hpp_dump depth (JHash h) = []"
| "hpp_dump_members depth skip [] = []"
| "hpp_dump_members depth skip ((k, v) # m) =
     (if skip then [] else '','' @ [newline]) @
     json_pad depth @ [dquote] @ k @ [dquote] @ '' : '' @ hpp_dump (Suc depth) v @ hpp_dump_members depth False m"
| "hpp_dump_items depth skip [] = []"
| "hpp_dump_items depth skip (v # l) =
     (if skip then [] else '', '' @ [newline] @ json_pad depth) @ hpp_dump (Suc depth) v @ hpp_dump_items depth False l"

section \<open>Parsing\<close>

text \<open>The functions that are the same as in the enclave.\<close>

abbreviation (input) hpp_consume_ws :: "string \<Rightarrow> nat \<Rightarrow> nat parsed" where
  "hpp_consume_ws \<equiv> consume_ws False"
abbreviation (input) hpp_rd :: "string \<Rightarrow> nat \<Rightarrow> char parsed" where
  "hpp_rd \<equiv> rd False"
abbreviation (input) hpp_parse_number :: "string \<Rightarrow> nat \<Rightarrow> (json \<times> nat) parsed" where
  "hpp_parse_number \<equiv> parse_number False"
abbreviation (input) hpp_parse_bool :: "string \<Rightarrow> nat \<Rightarrow> (json \<times> nat) parsed" where
  "hpp_parse_bool \<equiv> parse_bool"
abbreviation (input) hpp_parse_null :: "string \<Rightarrow> nat \<Rightarrow> (json \<times> nat) parsed" where
  "hpp_parse_null \<equiv> parse_null False"

definition hpp_parse_string :: "string \<Rightarrow> nat \<Rightarrow> (json \<times> nat) parsed" where
  "hpp_parse_string str offset =
     pbind (parse_chars False str (Suc offset) []) (\<lambda>r. case r of
       Inl off \<Rightarrow> Inr (JString [], off)
     | Inr (val, off) \<Rightarrow> Inr (JString val, Suc off))"

fun hpp_parse_next :: "nat \<Rightarrow> string \<Rightarrow> nat \<Rightarrow> (json \<times> nat) parsed"
and hpp_parse_array :: "nat \<Rightarrow> string \<Rightarrow> nat \<Rightarrow> json list \<Rightarrow> (json \<times> nat) parsed"
and hpp_parse_object :: "nat \<Rightarrow> string \<Rightarrow> nat \<Rightarrow> (string, json) omap \<Rightarrow> (json \<times> nat) parsed" where
  "hpp_parse_next 0 str offset = Inl Out_Of_Fuel"
| "hpp_parse_next (Suc fuel) str offset =
     pbind (hpp_consume_ws str offset) (\<lambda>off.
     pbind (hpp_rd str off) (\<lambda>value.
       if value = CHR ''['' then
         pbind (hpp_consume_ws str (Suc off)) (\<lambda>o2. pbind (hpp_rd str o2) (\<lambda>c.
           if c = CHR '']'' then Inr (JArray [], Suc o2)
           else hpp_parse_array fuel str o2 []))
       else if value = CHR ''{'' then
         pbind (hpp_consume_ws str (Suc off)) (\<lambda>o2. pbind (hpp_rd str o2) (\<lambda>c.
           if c = CHR ''}'' then Inr (JObject [], Suc o2)
           else hpp_parse_object fuel str o2 []))
       else if value = dquote then hpp_parse_string str off
       else if value = CHR ''t'' \<or> value = CHR ''f'' then hpp_parse_bool str off
       else if value = CHR ''n'' then hpp_parse_null str off
       else if is_digit value \<or> value = CHR ''-'' then hpp_parse_number str off
       else Inr (JNull, off)))"
| "hpp_parse_array 0 str offset acc = Inl Out_Of_Fuel"
| "hpp_parse_array (Suc fuel) str offset acc =
     pbind (hpp_parse_next fuel str offset) (\<lambda>(v, o1).
     pbind (hpp_consume_ws str o1) (\<lambda>o2. pbind (hpp_rd str o2) (\<lambda>c.
       if c = CHR '','' then hpp_parse_array fuel str (Suc o2) (acc @ [v])
       else if c = CHR '']'' then Inr (JArray (acc @ [v]), Suc o2)
       else Inr (JArray [], o2))))"
| "hpp_parse_object 0 str offset acc = Inl Out_Of_Fuel"
| "hpp_parse_object (Suc fuel) str offset acc =
     pbind (hpp_parse_next fuel str offset) (\<lambda>(key, o1).
     pbind (hpp_consume_ws str o1) (\<lambda>o2. pbind (hpp_rd str o2) (\<lambda>c.
       if c \<noteq> CHR '':'' then Inr (JObject acc, o2)
       else
         pbind (hpp_consume_ws str (Suc o2)) (\<lambda>o3.
         pbind (hpp_parse_next fuel str o3) (\<lambda>(v, o4).
         let acc' = omap_upd (hpp_ToString key) v acc in
         pbind (hpp_consume_ws str o4) (\<lambda>o5. pbind (hpp_rd str o5) (\<lambda>d.
           if d = CHR '','' then hpp_parse_object fuel str (Suc o5) acc'
           else if d = CHR ''}'' then Inr (JObject acc', Suc o5)
           else Inr (JObject acc', o5))))))))"

text \<open>\<open>JSON::Load\<close>, with the fuel of the enclave's parser.\<close>

definition hpp_Load :: "string \<Rightarrow> json parsed" where
  "hpp_Load str =
     (if str = [] then Inr JNull else pbind (hpp_parse_next (json_fuel str) str 0) (\<lambda>(j, _). Inr j))"

text \<open>The functions the application calls.\<close>

definition app_json :: json_hpp where
  "app_json = \<lparr>J_Load = (\<lambda>str. case hpp_Load str of Inl _ \<Rightarrow> None | Inr j \<Rightarrow> Some j),
     J_ToString = hpp_ToString, J_dump = hpp_dump 1\<rparr>"

section \<open>Lemmas: the marker\<close>

lemma string_find_Some:
  "string_find data p pos = Some i \<Longrightarrow> take (length p) (drop i data) = p \<and> i + length p \<le> length data"
  using find_sub_Some [of p "drop pos data"] by (auto simp: string_find_def add.commute split: if_splits)

lemma string_find_split: "string_find data p pos = Some i \<Longrightarrow> data = take i data @ p @ drop (i + length p) data"
  using string_find_Some [of data p pos i] by (metis add.commute append_take_drop_id drop_drop)

lemma str_replace_marker_loop:
  assumes "CHR ''%'' \<notin> set det_str"
  shows "\<exists>t. str_replace_loop data JSON_NL det_str epos = Some t"
proof (induction "count_list data (CHR ''%'')" arbitrary: data epos rule: less_induct)
  case less
  show ?case
  proof (cases "string_find data JSON_NL epos")
    case None
    then show ?thesis by (subst str_replace_loop.simps) simp
  next
    case (Some spos)
    let ?data = "take spos data @ det_str @ drop (spos + length JSON_NL) data"
    have "count_list data c = count_list (take spos data @ JSON_NL @ drop (spos + length JSON_NL) data) c" for c
      using string_find_split [OF Some] by (rule arg_cong)
    then have "count_list ?data (CHR ''%'') < count_list data (CHR ''%'')" using assms by (simp add: count_notin)
    with less Some show ?thesis by (subst str_replace_loop.simps) simp
  qed
qed

lemma string_find_absent:
  assumes "p \<noteq> []" and "hd p \<notin> set s"
  shows "string_find s p pos = None"
proof (cases "string_find s p pos")
  case (Some i)
  then have "take (length p) (drop i s) = p" by (rule string_find_Some [THEN conjunct1])
  with assms(1) have "hd p \<in> set (drop i s)" by (metis hd_in_set in_set_takeD)
  with assms(2) show ?thesis by (meson in_set_dropD)
qed

text \<open>Escaping an unmarked text is the escaping of the enclave.\<close>

lemma hpp_escape_unmarked:
  assumes "CHR ''%'' \<notin> set s"
  shows "hpp_escape s = json_escape s"
proof -
  have "CHR ''%'' \<notin> set (json_escape s)" using assms by (auto simp: json_escape_def escape_char_def split: if_splits)
  then have "string_find (json_escape s) JSON_NL 0 = None" by (intro string_find_absent) simp_all
  then show ?thesis by (simp add: hpp_escape_def str_replace_def str_replace_loop.simps)
qed

lemma str_replace_marker: "\<exists>t. str_replace (json_escape str) JSON_NL (newline # ''        '') = Some t"
  unfolding str_replace_def by (rule str_replace_marker_loop) simp

section \<open>Lemmas: parsing ends\<close>

lemma advances_hpp_parse_string: "advances snd i (hpp_parse_string str i)"
  unfolding hpp_parse_string_def
  by (rule advances_bind [OF advances_parse_chars]) (auto split: sum.splits)

lemma hpp_parse_fuel:
  "2 * (length str - i) + 2 \<le> fuel \<Longrightarrow> advances snd i (hpp_parse_next fuel str i)"
  "2 * (length str - i) + 3 \<le> fuel \<Longrightarrow> advances snd i (hpp_parse_array fuel str i l)"
  "2 * (length str - i) + 3 \<le> fuel \<Longrightarrow> advances snd i (hpp_parse_object fuel str i m)"
proof (induction fuel str i and fuel str i l and fuel str i m
    rule: hpp_parse_next_hpp_parse_array_hpp_parse_object.induct)
  case (2 fuel str i)
  have arr: "advances snd i (hpp_parse_array fuel str o2 [])"
    if "i \<le> off" "rd False str off = Inr v" "v = CHR ''[''" "Suc off \<le> o2" "c \<noteq> CHR '']''" for off v o2 c
    by (rule advances_le [OF "2.IH"(1) [OF that(3,5) fuel_left [OF that(1,2) _ that(4) "2.prems"]]])
      (use that in simp_all)
  have obj: "advances snd i (hpp_parse_object fuel str o2 [])"
    if "i \<le> off" "rd False str off = Inr v" "v = CHR ''{''" "Suc off \<le> o2" "c \<noteq> CHR ''}''" for off v o2 c
    by (rule advances_le [OF "2.IH"(2) [OF _ that(3,5) fuel_left [OF that(1,2) _ that(4) "2.prems"]]])
      (use that in simp_all)
  note leaf = advances_le [OF advances_hpp_parse_string] advances_le [OF advances_parse_number]
    advances_le [OF advances_parse_words(1)] advances_le [OF advances_parse_words(2)]
  show ?case
    unfolding hpp_parse_next.simps
    by (intro advances_intros; (rule leaf, assumption | rule arr; assumption | rule obj; assumption
          | simp only: advances_simps snd_conv, linarith?))
next
  case (4 fuel str i l)
  have more: "advances snd i (hpp_parse_array fuel str (Suc o2) (l @ [v]))"
    if "i \<le> o1" "o1 \<le> o2" "rd False str o2 = Inr c" "c = CHR '',''" for v o1 o2 c
    by (rule advances_le [OF "4.IH"(2) [OF that(4) fuel_left [of i o2 False str c]]])
      (use "4.prems" that in simp_all)
  have nxt: "advances snd i (hpp_parse_next fuel str i)"
    using "4.IH"(1) "4.prems" by simp
  show ?case
    unfolding hpp_parse_array.simps split_def
    by (rule advances_bind [OF nxt], intro advances_intros; (rule more; assumption
          | simp only: advances_simps snd_conv, linarith?))
next
  case (6 fuel str i m)
  have first: "advances snd i (hpp_parse_next fuel str i)"
    using "6.IH"(1) "6.prems" by simp
  have second: "advances snd o3 (hpp_parse_next fuel str o3)"
    if "i \<le> o1" "o1 \<le> o2" "Suc o2 \<le> o3" "\<not> c \<noteq> CHR '':''" for o1 o2 o3 c
    using "6.IH"(2) [OF that(4)] "6.prems" that(1,2,3) by simp
  have more: "advances snd i (hpp_parse_object fuel str (Suc o5) m')"
    if "\<not> c \<noteq> CHR '':''" "i \<le> o5" "rd False str o5 = Inr d" "d = CHR '',''"
      "m' = omap_upd (hpp_ToString key) v m" for c key v m' o5 d
    by (rule advances_le [OF "6.IH"(3) [OF that(1,5,4) fuel_left [of i o5 False str d]]])
      (use "6.prems" that in simp_all)
  show ?case
    unfolding hpp_parse_object.simps split_def Let_def
    apply (rule advances_bind [OF first])
    apply (intro advances_intros; (simp only: advances_simps snd_conv, linarith?)?)
    apply (rule advances_bind [OF second], assumption+)
    apply (intro advances_intros; (simp only: advances_simps snd_conv, linarith?)?)
    apply (rule more [OF _ _ _ refl refl]; (assumption | linarith))
    done
qed simp_all

lemma hpp_Load_fuel: "hpp_Load str \<noteq> Inl Out_Of_Fuel"
  using hpp_parse_fuel(1) [of str 0 "json_fuel str", THEN advances_not_fuel]
  by (auto simp: hpp_Load_def json_fuel_def pbind_Inl_iff)

section \<open>Lemmas: reading what was printed\<close>

text \<open>
  Values that are read back: numbers that fit a \<open>long\<close>, strings without percent sign (the marker has
  two), and names that need no escape.  Strings may have any other character.
\<close>

definition name_ok :: "string \<Rightarrow> bool" where
  "name_ok k \<longleftrightarrow> list_all plain_char k \<and> CHR ''%'' \<notin> set k"

fun readable :: "json \<Rightarrow> bool" where
  "readable (JObject m) \<longleftrightarrow> omap_ok m \<and> (\<forall>e \<in> set m. name_ok (fst e) \<and> readable (snd e))"
| "readable (JArray l) \<longleftrightarrow> (\<forall>v \<in> set l. readable v)"
| "readable (JString s) \<longleftrightarrow> CHR ''%'' \<notin> set s"
| "readable (JIntegral i) \<longleftrightarrow> - LONG_MAX \<le> i \<and> i \<le> LONG_MAX"
| "readable (JBoolean b) \<longleftrightarrow> True"
| "readable JNull \<longleftrightarrow> True"
| "readable _ \<longleftrightarrow> False"

abbreviation spaces :: "string \<Rightarrow> bool" where
  "spaces ws \<equiv> list_all isspace ws"

lemma blank_pad [simp]: "spaces (json_pad d)" "spaces (drop n (json_pad d))"
proof -
  show "spaces (json_pad d)" by (induction d) (simp_all add: json_pad_def isspace_def)
  then show "spaces (drop n (json_pad d))" by (auto simp: list_all_iff dest: in_set_dropD)
qed

lemma isspace_newline [simp]: "isspace newline" "isspace (CHR '' '')"
  by (simp_all add: isspace_def)

lemma consume_blank:
  "spaces ws \<Longrightarrow> \<not> isspace c \<Longrightarrow> consume_ws raw (pre @ ws @ c # post) (length pre) = Inr (length pre + length ws)"
proof (induction ws arbitrary: pre)
  case Nil
  then show ?case using consume_ws_append [of c raw pre post] by simp
next
  case (Cons w ws)
  have "consume_ws raw ((pre @ [w]) @ ws @ c # post) (length (pre @ [w])) = Inr (length (pre @ [w]) + length ws)"
    using Cons by (intro Cons.IH) simp_all
  then show ?case using Cons.prems by (subst consume_ws.simps) simp
qed

text \<open>An escaped text is unescaped character by character.\<close>

lemma escape_char_forms:
  "escape_char c = [c] \<and> c \<noteq> dquote \<and> c \<noteq> backslash \<or>
   (\<exists>e. escape_char c = [backslash, e] \<and> e \<noteq> CHR ''u'' \<and> unescape e = c)"
  by (auto simp: escape_char_def unescape_def)

lemma parse_chars_step:
  "parse_chars raw (pre @ escape_char c @ rest) (length pre) val =
     parse_chars raw (pre @ escape_char c @ rest) (length (pre @ escape_char c)) (val @ [c])"
  using escape_char_forms [of c]
proof (elim disjE exE conjE)
  assume "escape_char c = [c]" "c \<noteq> dquote" "c \<noteq> backslash"
  then show ?thesis by (subst parse_chars.simps) simp
next
  fix e
  assume e: "escape_char c = [backslash, e]" "e \<noteq> CHR ''u''" "unescape e = c"
  have "rd raw (pre @ backslash # e # rest) (Suc (length pre)) = Inr e"
    using rd_append [of raw "pre @ [backslash]" e rest] by simp
  with e show ?thesis by (subst parse_chars.simps) simp
qed

lemma parse_chars_escaped:
  "parse_chars raw (pre @ json_escape s @ dquote # post) (length pre) val =
     Inr (Inr (val @ s, length pre + length (json_escape s)))"
proof (induction s arbitrary: pre val)
  case Nil
  show ?case by (subst parse_chars.simps) (simp add: json_escape_def)
next
  case (Cons c s)
  have esc: "json_escape (c # s) = escape_char c @ json_escape s" by (simp add: json_escape_def)
  have "parse_chars raw ((pre @ escape_char c) @ json_escape s @ dquote # post) (length (pre @ escape_char c)) (val @ [c]) =
      Inr (Inr ((val @ [c]) @ s, length (pre @ escape_char c) + length (json_escape s)))"
    by (rule Cons.IH)
  then show ?case
    using parse_chars_step [of raw pre c "json_escape s @ dquote # post" val] by (simp add: esc)
qed

lemma hpp_parse_string_escaped:
  "hpp_parse_string (pre @ dquote # json_escape s @ dquote # post) (length pre) =
     Inr (JString s, length pre + length (json_escape s) + 2)"
  using parse_chars_escaped [of False "pre @ [dquote]" s post "[]"] by (simp add: hpp_parse_string_def)

text \<open>
  \<open>hpp_reads j\<close>: wherever the printed value stands, the parser reads it and stops behind it.
\<close>

definition hpp_reads :: "json \<Rightarrow> bool" where
  "hpp_reads j \<longleftrightarrow> (\<forall>d fuel pre post. 2 * length (hpp_dump d j) + 2 \<le> fuel \<longrightarrow>
     (JSONType j = Class_Integral \<longrightarrow> post \<noteq> [] \<and> ends_number (hd post)) \<longrightarrow>
     hpp_parse_next fuel (pre @ hpp_dump d j @ post) (length pre) = Inr (j, length pre + length (hpp_dump d j)))"

lemma hpp_first: "readable v \<Longrightarrow> \<exists>c cs. hpp_dump d v = c # cs \<and> \<not> isspace c \<and> c \<noteq> CHR '']''"
proof (cases v)
  case (JIntegral i)
  obtain c cs where c: "to_string_int i = c # cs"
    by (cases "to_string_int i") (auto simp: to_string_int_def split: if_splits)
  then have "c = CHR ''-'' \<or> is_digit c" using to_string_int_chars [of i] by simp
  then have "\<not> isspace c \<and> c \<noteq> CHR '']''" by (auto simp: isspace_def is_digit_def)
  with c JIntegral show ?thesis by simp
qed (simp_all add: isspace_def)

lemma hpp_skip:
  assumes "spaces ws" and "\<not> isspace c"
  shows "hpp_parse_next fuel (pre @ ws @ c # rest) (length pre) = hpp_parse_next fuel (pre @ ws @ c # rest) (length (pre @ ws))"
proof (cases fuel)
  case (Suc n)
  have "consume_ws False (pre @ ws @ c # rest) (length pre) = Inr (length (pre @ ws))"
    using consume_blank [OF assms, of False pre rest] by simp
  moreover have "consume_ws False (pre @ ws @ c # rest) (length (pre @ ws)) = Inr (length (pre @ ws))"
    using consume_ws_append [OF assms(2), of False "pre @ ws" rest] by simp
  ultimately show ?thesis unfolding Suc hpp_parse_next.simps by (simp only:)
qed simp

lemma hpp_readsD:
  assumes "hpp_reads j" and "readable j" and "spaces ws" and "2 * length (hpp_dump d j) + 2 \<le> fuel" and "ends_number t"
  shows "hpp_parse_next fuel (pre @ ws @ hpp_dump d j @ t # post) (length pre) = Inr (j, length pre + length ws + length (hpp_dump d j))"
proof -
  obtain c cs where c: "hpp_dump d j = c # cs" "\<not> isspace c" using hpp_first [OF assms(2)] by blast
  have "hpp_parse_next fuel ((pre @ ws) @ hpp_dump d j @ t # post) (length (pre @ ws)) = Inr (j, length (pre @ ws) + length (hpp_dump d j))"
    by (rule assms(1) [unfolded hpp_reads_def, rule_format]) (use assms in simp_all)
  then show ?thesis using hpp_skip [OF assms(3) c(2), of fuel pre "cs @ t # post"] by (simp add: c(1) add.assoc)
qed

lemma spaces_ends: "spaces ws \<Longrightarrow> ends_number t \<Longrightarrow> \<exists>u us. ws @ t # post = u # us \<and> ends_number u"
  by (cases ws) (simp_all add: ends_number_def)

section \<open>Lemmas: reading arrays\<close>

lemma hpp_items_False:
  "l \<noteq> [] \<Longrightarrow> hpp_dump_items d False l = CHR '','' # ('' '' @ [newline] @ json_pad d) @ hpp_dump_items d True l"
  by (cases l) simp_all

lemma hpp_array_reads:
  assumes "l \<noteq> []" and "\<forall>v \<in> set l. hpp_reads v \<and> readable v" and "spaces ws" and "spaces ws'"
    and "2 * length (ws @ hpp_dump_items d True l) + 3 \<le> fuel"
  shows "hpp_parse_array fuel (pre @ ws @ hpp_dump_items d True l @ ws' @ CHR '']'' # post) (length pre) acc =
    Inr (JArray (acc @ l), Suc (length pre + length ws + length (hpp_dump_items d True l) + length ws'))"
  using assms
proof (induction l arbitrary: pre ws acc fuel)
  case (Cons v l)
  obtain n where n: "fuel = Suc n" using Cons.prems(5) by (cases fuel) auto
  define gap where "gap = (if l = [] then ws' else [])"
  have gap: "spaces gap" using Cons.prems(4) by (simp add: gap_def)
  define t where "t = (if l = [] then CHR '']'' else CHR '','')"
  define rest where "rest = (if l = [] then post else ('' '' @ [newline] @ json_pad d) @ hpp_dump_items d True l @ ws' @ CHR '']'' # post)"
  let ?pv = "pre @ ws @ hpp_dump (Suc d) v"
  let ?str = "pre @ ws @ hpp_dump (Suc d) v @ gap @ t # rest"
  have str: "pre @ ws @ hpp_dump_items d True (v # l) @ ws' @ CHR '']'' # post = ?str"
    using hpp_items_False [of l d] by (simp add: t_def rest_def gap_def)
  have t: "ends_number t" "\<not> isspace t" by (simp_all add: t_def not_space)
  obtain u us where u: "gap @ t # rest = u # us" "ends_number u"
    using spaces_ends [OF gap t(1)] by blast
  have v: "hpp_parse_next n ?str (length pre) = Inr (v, length ?pv)"
    using hpp_readsD [of v ws "Suc d" n u pre us] Cons.prems n u by (simp add: add.assoc)
  have sep: "consume_ws False ?str (length ?pv) = Inr (length (?pv @ gap))" "rd False ?str (length (?pv @ gap)) = Inr t"
    using consume_blank [OF gap t(2), of False ?pv rest] rd_append [of False "?pv @ gap" t rest] by simp_all
  show ?case
  proof (cases "l = []")
    case True
    then show ?thesis using v sep unfolding str n by (simp add: t_def gap_def)
  next
    case False
    let ?ws = "'' '' @ [newline] @ json_pad d"
    have "hpp_parse_array n ((?pv @ [t]) @ ?ws @ hpp_dump_items d True l @ ws' @ CHR '']'' # post) (length (?pv @ [t])) (acc @ [v]) =
        Inr (JArray ((acc @ [v]) @ l), Suc (length (?pv @ [t]) + length ?ws + length (hpp_dump_items d True l) + length ws'))"
      using Cons.prems n False hpp_items_False [of l d] by (intro Cons.IH) simp_all
    then show ?thesis using v sep False unfolding str n by (simp add: t_def rest_def gap_def hpp_items_False)
  qed
qed simp

section \<open>Lemmas: reading objects\<close>

abbreviation hpp_member :: "nat \<Rightarrow> string \<times> json \<Rightarrow> (string \<times> json) list \<Rightarrow> string" where
  "hpp_member d e m \<equiv> quoted (fst e) @ '' : '' @ hpp_dump (Suc d) (snd e) @ hpp_dump_members d False m"

lemma hpp_members_Cons:
  "hpp_dump_members d True (e # m) = json_pad d @ hpp_member d e m"
  "hpp_dump_members d False (e # m) = CHR '','' # (newline # json_pad d) @ hpp_member d e m"
  by (cases e; simp add: quoted_def)+

lemma name_ToString: "name_ok k \<Longrightarrow> hpp_ToString (JString k) = k"
  by (simp add: name_ok_def hpp_escape_unmarked escape_plain)

lemma hpp_name_read:
  assumes "name_ok k" and "spaces ws" and "0 < fuel"
  shows "hpp_parse_next fuel (pre @ ws @ quoted k @ post) (length pre) = Inr (JString k, length pre + length ws + length (quoted k))"
proof -
  obtain n where n: "fuel = Suc n" using assms(3) by (cases fuel) auto
  have "json_escape k = k" using assms(1) by (simp add: name_ok_def escape_plain)
  then have "hpp_parse_string ((pre @ ws) @ quoted k @ post) (length (pre @ ws)) = Inr (JString k, length (pre @ ws) + length (quoted k))"
    using hpp_parse_string_escaped [of "pre @ ws" k post] by (simp add: quoted_def)
  moreover have "consume_ws False (pre @ ws @ quoted k @ post) (length pre) = Inr (length pre + length ws)"
    using consume_blank [OF assms(2) not_space(1), of False pre "k @ dquote # post"] by (simp add: quoted_def)
  moreover have "rd False (pre @ ws @ quoted k @ post) (length pre + length ws) = Inr dquote"
    using rd_append [of False "pre @ ws" dquote "k @ dquote # post"] by (simp add: quoted_def)
  ultimately show ?thesis unfolding n by simp
qed

text \<open>One member up to its value, wherever the loop meets it.\<close>

lemma hpp_member_read:
  assumes "name_ok k" and "hpp_reads v" and "readable v" and "spaces ws" and "spaces gap" and t: "ends_number t" "\<not> isspace t"
    and "2 * length (hpp_dump d v) + 2 \<le> n"
    and pt_def: "pt = pre @ ws @ quoted k @ '' : '' @ hpp_dump d v"
  shows "hpp_parse_object (Suc n) (pt @ gap @ t # rest) (length pre) acc =
    (if t = CHR '','' then hpp_parse_object n (pt @ gap @ t # rest) (Suc (length (pt @ gap))) (omap_upd k v acc)
     else if t = CHR ''}'' then Inr (JObject (omap_upd k v acc), Suc (length (pt @ gap)))
     else Inr (JObject (omap_upd k v acc), length (pt @ gap)))"
proof -
  let ?str = "pt @ gap @ t # rest" and ?pk = "pre @ ws @ quoted k" and ?pc = "pre @ ws @ quoted k @ '' ''" and ?pv = "pre @ ws @ quoted k @ '' : ''"
  obtain u us where u: "gap @ t # rest = u # us" "ends_number u" using spaces_ends [OF assms(5) t(1)] by blast
  obtain c cs where c: "hpp_dump d v = c # cs" "\<not> isspace c" using hpp_first [OF assms(3)] by blast
  have key: "hpp_parse_next n ?str (length pre) = Inr (JString k, length ?pk)"
    using hpp_name_read [OF assms(1,4), of n pre "'' : '' @ hpp_dump d v @ gap @ t # rest"] assms(8) by (simp add: pt_def add.assoc)
  have colon: "consume_ws False ?str (length ?pk) = Inr (length ?pc)" "rd False ?str (length ?pc) = Inr (CHR '':'')"
    using consume_blank [of "'' ''" "CHR '':''" False ?pk "CHR '' '' # hpp_dump d v @ gap @ t # rest"]
      rd_append [of False ?pc "CHR '':''" "CHR '' '' # hpp_dump d v @ gap @ t # rest"] by (simp_all add: pt_def not_space)
  have value_at: "consume_ws False ?str (Suc (length ?pc)) = Inr (length ?pv)"
    using consume_blank [of "'' ''" c False "?pc @ '':''" "cs @ gap @ t # rest"] c by (simp add: pt_def)
  have val: "hpp_parse_next n ?str (length ?pv) = Inr (v, length pt)"
    using hpp_readsD [OF assms(2,3) _ assms(8) u(2), of "[]" ?pv us] u(1) by (simp add: pt_def)
  have sep: "consume_ws False ?str (length pt) = Inr (length (pt @ gap))" "rd False ?str (length (pt @ gap)) = Inr t"
    using consume_blank [OF assms(5) t(2), of False pt rest] rd_append [of False "pt @ gap" t rest] by simp_all
  show ?thesis
    using key colon value_at val sep unfolding hpp_parse_object.simps
    by (simp add: name_ToString [OF assms(1)] del: hpp_parse_object.simps hpp_ToString.simps)
qed

lemma hpp_object_reads:
  assumes "\<forall>x \<in> set (e # m). name_ok (fst x) \<and> hpp_reads (snd x) \<and> readable (snd x)" and "spaces ws" and "spaces ws'"
    and "2 * length (ws @ hpp_member d e m) + 3 \<le> fuel"
  shows "hpp_parse_object fuel (pre @ ws @ hpp_member d e m @ ws' @ CHR ''}'' # post) (length pre) acc =
    Inr (JObject (fold (\<lambda>x. omap_upd (fst x) (snd x)) (e # m) acc), Suc (length pre + length ws + length (hpp_member d e m) + length ws'))"
  using assms
proof (induction m arbitrary: e pre ws acc fuel)
  case Nil
  obtain n where n: "fuel = Suc n" using Nil.prems(4) by (cases fuel) auto
  have "hpp_parse_object (Suc n) ((pre @ ws @ quoted (fst e) @ '' : '' @ hpp_dump (Suc d) (snd e)) @ ws' @ CHR ''}'' # post) (length pre) acc =
      Inr (JObject (omap_upd (fst e) (snd e) acc), Suc (length ((pre @ ws @ quoted (fst e) @ '' : '' @ hpp_dump (Suc d) (snd e)) @ ws')))"
    by (subst hpp_member_read [OF _ _ _ _ _ _ _ _ refl]) (use Nil.prems n in \<open>simp_all add: not_space\<close>)
  then show ?case unfolding n by (simp add: add.assoc)
next
  case (Cons e' m)
  obtain n where n: "fuel = Suc n" using Cons.prems(4) by (cases fuel) auto
  let ?pt = "pre @ ws @ quoted (fst e) @ '' : '' @ hpp_dump (Suc d) (snd e)"
  let ?rest = "(newline # json_pad d) @ hpp_member d e' m @ ws' @ CHR ''}'' # post"
  have str: "pre @ ws @ hpp_member d e (e' # m) @ ws' @ CHR ''}'' # post = ?pt @ [] @ CHR '','' # ?rest"
    by (simp add: hpp_members_Cons)
  have step: "hpp_parse_object (Suc n) (?pt @ [] @ CHR '','' # ?rest) (length pre) acc =
      hpp_parse_object n (?pt @ [] @ CHR '','' # ?rest) (Suc (length (?pt @ []))) (omap_upd (fst e) (snd e) acc)"
    by (subst hpp_member_read [OF _ _ _ _ _ _ _ _ refl]) (use Cons.prems n in \<open>simp_all add: not_space\<close>)
  have "hpp_parse_object n ((?pt @ '','') @ (newline # json_pad d) @ hpp_member d e' m @ ws' @ CHR ''}'' # post) (length (?pt @ '',''))
        (omap_upd (fst e) (snd e) acc) =
      Inr (JObject (fold (\<lambda>x. omap_upd (fst x) (snd x)) (e' # m) (omap_upd (fst e) (snd e) acc)),
        Suc (length (?pt @ '','') + length (newline # json_pad d) + length (hpp_member d e' m) + length ws'))"
    using Cons.prems n by (intro Cons.IH) (simp_all add: hpp_members_Cons)
  then show ?case using step unfolding str n by (simp add: hpp_members_Cons add.assoc)
qed

section \<open>Lemmas: reading values\<close>

lemma hpp_reads_Integral: "- LONG_MAX \<le> i \<Longrightarrow> i \<le> LONG_MAX \<Longrightarrow> hpp_reads (JIntegral i)"
  unfolding hpp_reads_def
proof (intro allI impI)
  fix d fuel pre rest
  assume i: "- LONG_MAX \<le> i" "i \<le> LONG_MAX" and "2 * length (hpp_dump d (JIntegral i)) + 2 \<le> fuel"
    and "JSONType (JIntegral i) = Class_Integral \<longrightarrow> rest \<noteq> [] \<and> ends_number (hd rest)"
  then obtain n t post where n: "fuel = Suc n" and rest: "rest = t # post" and t: "ends_number t"
    by (cases fuel; cases rest) auto
  obtain c cs where c: "to_string_int i = c # cs" by (cases "to_string_int i") (auto simp: to_string_int_def split: if_splits)
  have d: "is_digit c \<or> c = CHR ''-''" using to_string_int_chars [of i] c by auto
  then have ne: "\<not> isspace c" "c \<notin> {CHR ''['', CHR ''{'', dquote, CHR ''t'', CHR ''f'', CHR ''n''}"
    by (auto simp: isspace_def is_digit_def)
  show "hpp_parse_next fuel (pre @ hpp_dump d (JIntegral i) @ rest) (length pre) =
      Inr (JIntegral i, length pre + length (hpp_dump d (JIntegral i)))"
    using parse_number_int [OF i t, of False pre post] consume_ws_append [OF ne(1), of False pre "cs @ t # post"] ne(2) d
    unfolding n rest by (simp add: c)
qed

lemma hpp_readsI:
  assumes "\<And>d n pre post. 2 * length (hpp_dump d j) + 1 \<le> n \<Longrightarrow>
    hpp_parse_next (Suc n) (pre @ hpp_dump d j @ post) (length pre) = Inr (j, length pre + length (hpp_dump d j))"
  shows "hpp_reads j"
  unfolding hpp_reads_def
proof (intro allI impI)
  fix d fuel pre post
  assume fuel: "2 * length (hpp_dump d j) + 2 \<le> fuel"
  then obtain n where "fuel = Suc n" by (cases fuel) auto
  with fuel assms show "hpp_parse_next fuel (pre @ hpp_dump d j @ post) (length pre) = Inr (j, length pre + length (hpp_dump d j))"
    by simp
qed

lemma letter_not_space: "\<not> isspace (CHR ''n'')" "\<not> isspace (CHR ''t'')" "\<not> isspace (CHR ''f'')"
  by (simp_all add: isspace_def)

lemma hpp_reads_Null: "hpp_reads JNull"
  by (rule hpp_readsI) (simp add: consume_ws_append letter_not_space parse_null_def EJson.substr_def)

lemma hpp_reads_Boolean: "hpp_reads (JBoolean b)"
  by (rule hpp_readsI) (simp add: consume_ws_append letter_not_space parse_bool_def EJson.substr_def)

lemma hpp_reads_String: "CHR ''%'' \<notin> set s \<Longrightarrow> hpp_reads (JString s)"
  by (rule hpp_readsI) (simp add: consume_ws_append not_space hpp_escape_unmarked hpp_parse_string_escaped)

lemma hpp_reads_Array:
  assumes "\<forall>v \<in> set l. hpp_reads v \<and> readable v"
  shows "hpp_reads (JArray l)"
proof (rule hpp_readsI)
  fix d n pre post
  assume fuel: "2 * length (hpp_dump d (JArray l)) + 1 \<le> n"
  let ?ws = "newline # json_pad d" and ?ws' = "newline # drop 2 (json_pad d)" and ?pb = "pre @ ''[''"
  let ?str = "pre @ CHR ''['' # ?ws @ hpp_dump_items d True l @ ?ws' @ CHR '']'' # post"
  have brace: "consume_ws False ?str (length pre) = Inr (length pre)" "rd False ?str (length pre) = Inr (CHR ''['')"
    using consume_ws_append [of "CHR ''[''" False pre] rd_append [of False pre "CHR ''[''"] by (simp_all add: not_space)
  have str: "pre @ hpp_dump d (JArray l) @ post = ?str" by simp
  show "hpp_parse_next (Suc n) (pre @ hpp_dump d (JArray l) @ post) (length pre) = Inr (JArray l, length pre + length (hpp_dump d (JArray l)))"
  proof (cases l)
    case Nil
    have "consume_ws False ?str (Suc (length pre)) = Inr (length ?pb + length (?ws @ ?ws'))" "rd False ?str (length ?pb + length (?ws @ ?ws')) = Inr (CHR '']'')"
      using consume_blank [of "?ws @ ?ws'" "CHR '']''" False ?pb post] rd_append [of False "?pb @ ?ws @ ?ws'" "CHR '']''" post]
      by (simp_all add: Nil not_space)
    then show ?thesis using brace unfolding str by (simp add: Nil)
  next
    case (Cons v l')
    obtain c cs where c: "hpp_dump (Suc d) v = c # cs" "\<not> isspace c" "c \<noteq> CHR '']''" using hpp_first assms Cons by fastforce
    then have first: "consume_ws False ?str (Suc (length pre)) = Inr (length (?pb @ ?ws))" "rd False ?str (length (?pb @ ?ws)) = Inr c"
      using consume_blank [of ?ws c False ?pb "cs @ hpp_dump_items d False l' @ ?ws' @ CHR '']'' # post"]
        rd_append [of False "?pb @ ?ws" c "cs @ hpp_dump_items d False l' @ ?ws' @ CHR '']'' # post"] by (simp_all add: Cons)
    have "hpp_parse_array n ((?pb @ ?ws) @ [] @ hpp_dump_items d True l @ ?ws' @ CHR '']'' # post) (length (?pb @ ?ws)) [] =
        Inr (JArray ([] @ l), Suc (length (?pb @ ?ws) + length ([] :: string) + length (hpp_dump_items d True l) + length ?ws'))"
      using assms fuel Cons by (intro hpp_array_reads) simp_all
    then show ?thesis using brace first c(3) unfolding str by simp
  qed
qed

lemma hpp_reads_Object:
  assumes "omap_ok m" and "\<forall>x \<in> set m. name_ok (fst x) \<and> hpp_reads (snd x) \<and> readable (snd x)"
  shows "hpp_reads (JObject m)"
proof (rule hpp_readsI)
  fix d n pre post
  assume fuel: "2 * length (hpp_dump d (JObject m)) + 1 \<le> n"
  let ?ws' = "newline # drop 2 (json_pad d)" and ?pb = "pre @ ''{''"
  let ?str = "pre @ CHR ''{'' # newline # hpp_dump_members d True m @ ?ws' @ CHR ''}'' # post"
  have brace: "consume_ws False ?str (length pre) = Inr (length pre)" "rd False ?str (length pre) = Inr (CHR ''{'')"
    using consume_ws_append [of "CHR ''{''" False pre] rd_append [of False pre "CHR ''{''"] by (simp_all add: not_space)
  have str: "pre @ hpp_dump d (JObject m) @ post = ?str" by simp
  show "hpp_parse_next (Suc n) (pre @ hpp_dump d (JObject m) @ post) (length pre) = Inr (JObject m, length pre + length (hpp_dump d (JObject m)))"
  proof (cases m)
    case Nil
    have "consume_ws False ?str (Suc (length pre)) = Inr (length ?pb + length (newline # ?ws'))" "rd False ?str (length ?pb + length (newline # ?ws')) = Inr (CHR ''}'')"
      using consume_blank [of "newline # ?ws'" "CHR ''}''" False ?pb post] rd_append [of False "?pb @ newline # ?ws'" "CHR ''}''" post]
      by (simp_all add: Nil not_space)
    then show ?thesis using brace unfolding str by (simp add: Nil)
  next
    case (Cons e m')
    let ?ws = "newline # json_pad d"
    obtain cs where cs: "hpp_member d e m' = dquote # cs" by (simp add: quoted_def)
    have first: "consume_ws False ?str (Suc (length pre)) = Inr (length (?pb @ ?ws))" "rd False ?str (length (?pb @ ?ws)) = Inr dquote"
      using consume_blank [of ?ws dquote False ?pb "cs @ ?ws' @ CHR ''}'' # post"] rd_append [of False "?pb @ ?ws" dquote "cs @ ?ws' @ CHR ''}'' # post"]
      unfolding Cons hpp_members_Cons cs by (simp_all add: not_space)
    have "hpp_parse_object n ((?pb @ ?ws) @ [] @ hpp_member d e m' @ ?ws' @ CHR ''}'' # post) (length (?pb @ ?ws)) [] =
        Inr (JObject (fold (\<lambda>x. omap_upd (fst x) (snd x)) (e # m') []), Suc (length (?pb @ ?ws) + length ([] :: string) + length (hpp_member d e m') + length ?ws'))"
      using assms(2) fuel Cons by (intro hpp_object_reads) (simp_all add: hpp_members_Cons)
    moreover have "fold (\<lambda>x. omap_upd (fst x) (snd x)) (e # m') [] = m" using fold_omap_upd [of "[]" m] assms(1) Cons by simp
    ultimately show ?thesis using brace first unfolding str by (simp add: Cons hpp_members_Cons)
  qed
qed

lemma readable_reads: "readable j \<Longrightarrow> hpp_reads j"
proof (induction j)
  case (JObject m)
  then show ?case by (intro hpp_reads_Object) (auto simp: prod_set_defs)
next
  case (JArray l)
  then show ?case by (intro hpp_reads_Array) auto
qed (simp_all add: hpp_reads_Null hpp_reads_String hpp_reads_Integral hpp_reads_Boolean)

lemma app_json_reads:
  assumes "readable j" and "JSONType j \<noteq> Class_Integral"
  shows "J_Load app_json (J_dump app_json j) = Some j"
proof -
  have "hpp_dump 1 j \<noteq> []" using hpp_first [OF assms(1), of 1] by auto
  moreover have "hpp_parse_next (json_fuel (hpp_dump 1 j)) ([] @ hpp_dump 1 j @ []) (length ([] :: string)) =
      Inr (j, length ([] :: string) + length (hpp_dump 1 j))"
    by (rule readable_reads [OF assms(1), unfolded hpp_reads_def, rule_format]) (simp_all add: json_fuel_def assms(2))
  ultimately show ?thesis by (simp add: app_json_def hpp_Load_def)
qed

section \<open>Properties\<close>

text \<open>
  C27. The application reads back what it prints: a printed value, with its line breaks and its
  indentation, loads to the value itself, for every object, array, string, boolean or null whose
  strings have no percent sign, whose names need no escape and whose numbers fit a \<open>long\<close>; strings
  may have quotes, backslashes, line breaks and other characters that are escaped.  (A number on its own is not
  read: the parser wants a character behind it.)
\<close>

theorem app_dump_Load_roundtrip:
  assumes "readable j" and "JSONType j \<noteq> Class_Integral"
  shows "J_Load app_json (J_dump app_json j) = Some j"
  using assms by (rule app_json_reads)

theorem app_dump_Load_roundtrip_witness:
  "J_Load app_json (J_dump app_json (JObject [(''files'', JArray [JIntegral 12, JNull, JArray []]), (''name'', JString [dquote, newline, backslash]), (''ok'', JBoolean True)]))
   = Some (JObject [(''files'', JArray [JIntegral 12, JNull, JArray []]), (''name'', JString [dquote, newline, backslash]), (''ok'', JBoolean True)])"
  by (rule app_dump_Load_roundtrip) (simp_all add: omap_ok_def name_ok_def plain_char_def LONG_MAX_def)

text \<open>
  Loading ends on every text with a value or with an error of the source, never for want of fuel.
\<close>

theorem hpp_Load_ends:
  "(\<exists>j. hpp_Load str = Inr j) \<or> hpp_Load str = Inl Read_Past_End \<or> hpp_Load str = Inl Number_Exception"
proof (cases "hpp_Load str")
  case (Inl e)
  with hpp_Load_fuel [of str] show ?thesis by (cases e) auto
qed simp

end
