(* ===== verification/Network.thy ===== *)
theory Network
  imports Process
begin

text \<open>
  The application and the networks around it: the chain (\<open>src/app/chain/Chain.cpp\<close>), the OCALLs of
  \<open>src/app/ocalls/OCalls.cpp\<close> that reach it or keep lists of keys in the database, and the entry into
  the network (\<open>src/app/process/EntryNetwork.cpp\<close>), in which the attestation service vouches for the
  enclave.  HTTP requests, the quoting enclave and the JSON library are parameters.  The lemmas show
  that entry succeeds only when the enclave has verified what the service answered to a quote of its
  own report, and that waiting for the chain ends when the chain gets ready.
\<close>

section \<open>Requests\<close>

text \<open>
  The methods of \<open>HttpClient\<close> the code uses: an answer has a status and a body, and for the
  attestation service fields of its header.
\<close>

record 'h http_client =
  http_Get :: "string \<Rightarrow> 'h \<Rightarrow> response \<times> 'h"
  http_Post :: "string \<Rightarrow> string \<Rightarrow> (string \<times> string) list \<Rightarrow> 'h \<Rightarrow> response \<times> 'h"
  http_SSLPost :: "string \<Rightarrow> string \<Rightarrow> (string \<times> string) list \<Rightarrow> 'h \<Rightarrow> (response \<times> (string \<Rightarrow> string)) \<times> 'h"

section \<open>The chain\<close>

record Chain =
  Chain_url :: string
  Chain_password :: string
  Chain_backup :: string

record BlockHeader =
  bh_number :: u64
  bh_hash :: string

definition get_block_header ::
  "json_hpp \<Rightarrow> 'h http_client \<Rightarrow> Chain \<Rightarrow> 'h \<Rightarrow> (BlockHeader option \<times> 'h) option" where
  "get_block_header J W ch h =
     (case http_Get W (Chain_url ch @ ''/block/header'') h of ((code, body), h) \<Rightarrow>
        if code = 200 then do {
          block_header_json \<leftarrow> J_Load J body;
          Some (Some \<lparr>bh_number = word_of_int (ToInt (json_get block_header_json ''number'')),
            bh_hash = drop 2 (J_ToString J (json_get block_header_json ''hash''))\<rparr>, h)
        }
        else Some (None, h))"

text \<open>\<open>None\<close> is the exception of \<open>substr\<close> for a body of less than three characters.\<close>

definition get_block_hash :: "'h http_client \<Rightarrow> Chain \<Rightarrow> u64 \<Rightarrow> 'h \<Rightarrow> (string \<times> 'h) option" where
  "get_block_hash W ch block_number h =
     (case http_Get W (Chain_url ch @ ''/block/hash?blockNumber='' @ to_string (unat block_number)) h of ((code, body), h) \<Rightarrow>
        if code = 200 then map_option (\<lambda>hash. (hash, h)) (Attestation.substr body 3 64) else Some ([], h))"

definition is_online :: "'h http_client \<Rightarrow> Chain \<Rightarrow> 'h \<Rightarrow> bool \<times> 'h" where
  "is_online W ch h = (case http_Get W (Chain_url ch @ ''/block/header'') h of ((code, _), h) \<Rightarrow> (code = 200, h))"

definition is_syncing :: "json_hpp \<Rightarrow> 'h http_client \<Rightarrow> Chain \<Rightarrow> 'h \<Rightarrow> (bool \<times> 'h) option" where
  "is_syncing J W ch h =
     (case http_Get W (Chain_url ch @ ''/system/health'') h of ((code, body), h) \<Rightarrow>
        if code = 200 then do {
          system_health_json \<leftarrow> J_Load J body;
          Some (ToBool (json_get system_health_json ''isSyncing''), h)
        }
        else Some (True, h))"

text \<open>
  The three loops of \<open>wait_for_running\<close>.  The second and the third use the header without looking
  whether there is one, and \<open>None\<close> is also the access through the null pointer.
\<close>

partial_function (option) wait_online :: "'h http_client \<Rightarrow> Chain \<Rightarrow> 'h \<Rightarrow> 'h option" where
  "wait_online W ch h = (let r = is_online W ch h in if fst r then Some (snd r) else wait_online W ch (snd r))"

partial_function (option) wait_blocks :: "json_hpp \<Rightarrow> 'h http_client \<Rightarrow> Chain \<Rightarrow> 'h \<Rightarrow> 'h option" where
  "wait_blocks J W ch h =
     Option.bind (get_block_header J W ch h) (\<lambda>r.
       case fst r of
         None \<Rightarrow> None
       | Some header \<Rightarrow> if bh_number header \<ge> 10 then Some (snd r) else wait_blocks J W ch (snd r))"

partial_function (option) wait_synced :: "json_hpp \<Rightarrow> 'h http_client \<Rightarrow> Chain \<Rightarrow> 'h \<Rightarrow> 'h option" where
  "wait_synced J W ch h =
     Option.bind (is_syncing J W ch h) (\<lambda>r.
       if \<not> fst r then Some (snd r)
       else Option.bind (get_block_header J W ch (snd r)) (\<lambda>q.
         case fst q of None \<Rightarrow> None | Some _ \<Rightarrow> wait_synced J W ch (snd q)))"

definition wait_for_running :: "json_hpp \<Rightarrow> 'h http_client \<Rightarrow> Chain \<Rightarrow> 'h \<Rightarrow> (bool \<times> 'h) option" where
  "wait_for_running J W ch h = do {
     h \<leftarrow> wait_online W ch h;
     h \<leftarrow> wait_blocks J W ch h;
     h \<leftarrow> wait_synced J W ch h;
     Some (True, h)
   }"

text \<open>Both posts try twenty times.\<close>

fun post_loop ::
  "json_hpp \<Rightarrow> 'h http_client \<Rightarrow> Chain \<Rightarrow> string \<Rightarrow> string \<Rightarrow> nat \<Rightarrow> 'h \<Rightarrow> (bool \<times> 'h) option" where
  "post_loop J W ch path data 0 h = Some (False, h)"
| "post_loop J W ch path data (Suc n) h = do {
     obj \<leftarrow> J_Load J data;
     let obj = json_set obj ''backup'' (JString (Chain_backup ch));
     let ((code, _), h) = http_Post W (Chain_url ch @ path) (J_dump J obj)
       [(''password'', Chain_password ch), (''Content-Type'', ''application/json'')] h;
     if code = 200 then Some (True, h) else post_loop J W ch path data n h
   }"

definition post_sworker_identity :: "json_hpp \<Rightarrow> 'h http_client \<Rightarrow> Chain \<Rightarrow> string \<Rightarrow> 'h \<Rightarrow> (bool \<times> 'h) option" where
  "post_sworker_identity J W ch identity h = post_loop J W ch ''/swork/identity'' identity 20 h"

definition post_sworker_work_report :: "json_hpp \<Rightarrow> 'h http_client \<Rightarrow> Chain \<Rightarrow> string \<Rightarrow> 'h \<Rightarrow> (bool \<times> 'h) option" where
  "post_sworker_work_report J W ch work_report h = post_loop J W ch ''/swork/workreport'' work_report 20 h"

section \<open>OCALLs to the chain\<close>

text \<open>\<open>hash_size\<close> bytes are copied, whether the text has them or not; one more is its null byte.\<close>

definition app_get_block_hash ::
  "'h http_client \<Rightarrow> Chain \<Rightarrow> u64 \<Rightarrow> nat \<Rightarrow> 'h \<Rightarrow> ((crust_status \<times> string) \<times> 'h) option" where
  "app_get_block_hash W ch block_height hash_size h = do {
     (hash, h) \<leftarrow> get_block_hash W ch block_height h;
     if hash = [] then Some ((CRUST_UPGRADE_GET_BLOCK_HASH_FAILED, []), h)
     else if length hash + 1 < hash_size then None
     else Some ((CRUST_SUCCESS, take hash_size (hash @ [CHR 0x00])), h)
   }"

definition app_upload_workreport ::
  "json_hpp \<Rightarrow> 'h http_client \<Rightarrow> Chain \<Rightarrow> bool \<Rightarrow> string \<Rightarrow> 'h \<Rightarrow> (crust_status \<times> 'h) option" where
  "app_upload_workreport J W ch offline_chain_mode work_report h = do {
     let work_str = strip_dump (c_str work_report);
     if \<not> offline_chain_mode then do {
       (ok, h) \<leftarrow> post_sworker_work_report J W ch work_str h;
       Some (if ok then CRUST_SUCCESS else CRUST_UPGRADE_SEND_WORKREPORT_FAILED, h)
     }
     else Some (CRUST_SUCCESS, h)
   }"

definition app_upload_identity ::
  "json_hpp \<Rightarrow> 'h http_client \<Rightarrow> Chain \<Rightarrow> string \<Rightarrow> string \<Rightarrow> 'h \<Rightarrow> (crust_status \<times> 'h) option" where
  "app_upload_identity J W ch address ident h = do {
     id_json \<leftarrow> J_Load J (c_str ident);
     let sworker_identity = J_dump J (json_set id_json ''account_id'' (JString address));
     (running, h) \<leftarrow> wait_for_running J W ch h;
     if \<not> running then Some (CRUST_UNEXPECTED_ERROR, h)
     else do {
       (ok, h) \<leftarrow> post_sworker_identity J W ch sworker_identity h;
       Some (if ok then CRUST_SUCCESS else CRUST_UNEXPECTED_ERROR, h)
     }
   }"

section \<open>Lists of keys in the database\<close>

definition ArrayRange :: "json \<Rightarrow> json list" where
  "ArrayRange j = (case j of JArray js \<Rightarrow> js | _ \<Rightarrow> [])"

definition app_persist_add_keys ::
  "json_hpp \<Rightarrow> 'd leveldb \<Rightarrow> string \<Rightarrow> string \<Rightarrow> 'd \<Rightarrow> (crust_status \<times> 'd) option" where
  "app_persist_add_keys J L key keys d = do {
     det_json \<leftarrow> J_Load J (string_of_bytes (snd (DataBase_get L key d)));
     add_keys_json \<leftarrow> J_Load J keys;
     let det_json = fold (\<lambda>it j. json_set j (J_ToString J it) (JBoolean True)) (ArrayRange add_keys_json) det_json;
     Some (DataBase_set L key (bytes_of_string (J_dump J det_json)) d)
   }"

text \<open>The members of a value that is no object are behind a null pointer.\<close>

definition app_persist_del_keys ::
  "json_hpp \<Rightarrow> 'd leveldb \<Rightarrow> string \<Rightarrow> string \<Rightarrow> 'd \<Rightarrow> (crust_status \<times> 'd) option" where
  "app_persist_del_keys J L key keys d = do {
     det_json \<leftarrow> J_Load J (string_of_bytes (snd (DataBase_get L key d)));
     del_keys_json \<leftarrow> J_Load J keys;
     let del_keys = map (J_ToString J) (ArrayRange del_keys_json);
     if del_keys \<noteq> [] \<and> JSONType det_json \<noteq> Class_Object then None
     else do {
       let det_json = (if del_keys = [] then det_json else JObject (filter (\<lambda>(k, _). k \<notin> set del_keys) (json_members det_json)));
       Some (DataBase_set L key (bytes_of_string (J_dump J det_json)) d)
     }
   }"

section \<open>Entry into the network\<close>

text \<open>
  What the platform offers: random numbers of the processor, the quoting enclave, and the Base64 text
  of OpenSSL.  \<open>sgx_get_quote\<close> is called with the linkable signature type and the provider id of the
  configuration, which are fixed.
\<close>

abbreviation (input) SGX_ERROR_BUSY :: sgx_status where
  "SGX_ERROR_BUSY \<equiv> SGX_ERROR 0x400a"

record 'h quoting =
  rdrand64_step :: "'h \<Rightarrow> u64 option \<times> 'h"
  sgx_init_quote :: "'h \<Rightarrow> (sgx_status \<times> bytes) \<times> 'h"
  get_quote_size :: "bool \<times> sgx_status \<times> nat"
  app_malloc :: "nat \<Rightarrow> bool"
  sgx_get_quote :: "sgx_report \<Rightarrow> u64 list \<Rightarrow> nat \<Rightarrow> 'h \<Rightarrow> (sgx_status \<times> bytes) \<times> 'h"
  base64_encode :: "bytes \<Rightarrow> string option"

text \<open>A call that changes the world outside, from the side of the application.\<close>

definition on_world :: "('h \<Rightarrow> 'a \<times> 'h) \<Rightarrow> 'h app_state \<Rightarrow> 'a \<times> 'h app_state" where
  "on_world f a = (case call_host f (fst a) of (r, e) \<Rightarrow> (r, e, snd a))"

text \<open>The counter of this loop is never changed: it ends only with a random number.\<close>

partial_function (option) nonce_word :: "'h quoting \<Rightarrow> 'h app_state \<Rightarrow> (u64 \<times> 'h app_state) option" where
  "nonce_word Q a =
     (let r = on_world (rdrand64_step Q) a in
      case fst r of Some v \<Rightarrow> Some (v, snd r) | None \<Rightarrow> nonce_word Q (snd r))"

text \<open>A busy device is tried again, \<open>remaining\<close> times at most.\<close>

fun init_quote :: "'h quoting \<Rightarrow> nat \<Rightarrow> 'h app_state \<Rightarrow> bytes option \<times> 'h app_state" where
  "init_quote Q remaining a =
     (case on_world (sgx_init_quote Q) a of ((status, target_info), a) \<Rightarrow>
        if status = SGX_SUCCESS then (Some target_info, a)
        else if status = SGX_ERROR_BUSY
        then (case remaining of 0 \<Rightarrow> (None, a) | Suc n \<Rightarrow> init_quote Q n a)
        else (None, a))"

declare init_quote.simps [simp del]

text \<open>The quote as Base64 text, or the status the function ends with.\<close>

definition get_quote ::
  "'h sgx \<Rightarrow> 'h quoting \<Rightarrow> caller \<Rightarrow> u64 list \<Rightarrow> bytes \<Rightarrow> 'h app_state \<Rightarrow> ((crust_status + string) \<times> 'h app_state) option" where
  "get_quote S Q c nonce target_info a = do {
     (status, out, a) \<leftarrow> Ecall_get_quote_report S c target_info a;
     (case out of
        None \<Rightarrow> Some (Inl CRUST_UNEXPECTED_ERROR, a)
      | Some (sgxrv, report) \<Rightarrow>
          if status \<noteq> SGX_SUCCESS \<or> sgxrv \<noteq> SGX_SUCCESS then Some (Inl CRUST_UNEXPECTED_ERROR, a)
          else case get_quote_size Q of (found, status, sz) \<Rightarrow>
            if \<not> found \<or> status \<noteq> SGX_SUCCESS then Some (Inl CRUST_UNEXPECTED_ERROR, a)
            else if \<not> app_malloc Q sz then Some (Inl CRUST_MALLOC_FAILED, a)
            else case on_world (sgx_get_quote Q report nonce sz) a of ((status, quote), a) \<Rightarrow>
              if status \<noteq> SGX_SUCCESS then Some (Inl CRUST_UNEXPECTED_ERROR, a)
              else case base64_encode Q quote of
                None \<Rightarrow> Some (Inl CRUST_UNEXPECTED_ERROR, a)
              | Some b64quote \<Rightarrow> Some (Inr b64quote, a))
   }"

abbreviation (input) IAS_TRYOUT :: nat where
  "IAS_TRYOUT \<equiv> 6"
abbreviation (input) ias_report_url :: string where
  "ias_report_url \<equiv> ''https://api.trustedservices.intel.com/sgx/dev/attestation/v3/report''"
abbreviation (input) ias_headers :: "(string \<times> string) list" where
  "ias_headers \<equiv> [(''Ocp-Apim-Subscription-Key'', ''e2e08166ca0f41ef88af2797f007c7cd'')]"

definition quote_body :: "string \<Rightarrow> string" where
  "quote_body b64quote = ''{'' @ [newline] @ [dquote] @ ''isvEnclaveQuote'' @ [dquote] @ '':'' @ [dquote] @ b64quote @ [dquote, newline] @ ''}''"

text \<open>The quote is sent until it is accepted; \<open>n\<close> counts the attempts left after this one.\<close>

fun send_quote ::
  "'h http_client \<Rightarrow> string \<Rightarrow> nat \<Rightarrow> 'h app_state \<Rightarrow> (response \<times> (string \<Rightarrow> string)) \<times> 'h app_state" where
  "send_quote W body n a =
     (case on_world (http_SSLPost W ias_report_url body ias_headers) a of (ias_res, a) \<Rightarrow>
        if fst (fst ias_res) = 200 then (ias_res, a)
        else case n of 0 \<Rightarrow> (ias_res, a) | Suc m \<Rightarrow> send_quote W body m a)"

declare send_quote.simps [simp del]

text \<open>
  The answer is printed before it is verified: a body that is no JSON, a quote in it that is no
  Base64 text, or one too short for the fields that are printed ends the process.
\<close>

definition print_answer :: "json_hpp \<Rightarrow> ('x, 'k) openssl \<Rightarrow> string \<Rightarrow> unit option" where
  "print_answer J X body = do {
     ias_body_json \<leftarrow> J_Load J body;
     ias_quote \<leftarrow> BIO_read_base64 X (c_str (J_ToString J (json_get ias_body_json ''isvEnclaveQuoteBody'')));
     if length ias_quote < 432 then None else Some ()
   }"

definition entry_network ::
  "json_hpp \<Rightarrow> ('x, 'k) openssl \<Rightarrow> 'h sgx \<Rightarrow> 'h ocalls \<Rightarrow> 'h http_client \<Rightarrow> 'h quoting \<Rightarrow> bool \<Rightarrow> caller \<Rightarrow> caller \<Rightarrow> 'h app_state
     \<Rightarrow> (crust_status \<times> 'h app_state) option" where
  "entry_network J X S H W Q junk c c' a = do {
     (n0, a) \<leftarrow> nonce_word Q a;
     (n1, a) \<leftarrow> nonce_word Q a;
     (case init_quote Q 3 a of
        (None, a) \<Rightarrow> Some (CRUST_INIT_QUOTE_FAILED, a)
      | (Some target_info, a) \<Rightarrow> do {
          (res, a) \<leftarrow> get_quote S Q c [n0, n1] target_info a;
          (case res of
             Inl status \<Rightarrow> Some (status, a)
           | Inr b64quote \<Rightarrow>
               (case send_quote W (quote_body b64quote) (IAS_TRYOUT - 1) a of (((code, body), field), a) \<Rightarrow>
                  if code \<noteq> 200 then Some (CRUST_UNEXPECTED_ERROR, a)
                  else do {
                    let ias_report = map c_str [field ''X-IASReport-Signing-Certificate'', field ''X-IASReport-Signature'', body];
                    _ \<leftarrow> print_answer J X body;
                    (status_ret, out, a) \<leftarrow> Ecall_verify_and_upload_identity X S H junk c' ias_report a;
                    Some (if status_ret = SGX_SUCCESS then the out else CRUST_UNEXPECTED_ERROR, a)
                  }))
        })
   }"

section \<open>Lemmas: the chain\<close>

text \<open>
  A chain that gets ready: every request takes time (\<open>time\<close>); once the chain has answered it is
  \<open>up\<close> and stays so, and a chain that is up answers requests for its header and its health with
  values; from time \<open>t\<close> on it is reachable, has enough blocks and is synchronised.
\<close>

definition gets_ready :: "json_hpp \<Rightarrow> 'h http_client \<Rightarrow> Chain \<Rightarrow> ('h \<Rightarrow> bool) \<Rightarrow> ('h \<Rightarrow> nat) \<Rightarrow> nat \<Rightarrow> bool" where
  "gets_ready J W ch up time t \<longleftrightarrow>
     (\<forall>url h. time h < time (snd (http_Get W url h)) \<and> (up h \<longrightarrow> up (snd (http_Get W url h)))) \<and>
     (\<forall>h. (fst (is_online W ch h) \<longrightarrow> up (snd (is_online W ch h))) \<and> (t \<le> time h \<longrightarrow> fst (is_online W ch h))) \<and>
     (\<forall>h. up h \<longrightarrow> (\<exists>b h'. get_block_header J W ch h = Some (Some b, h') \<and> (t \<le> time h \<longrightarrow> 10 \<le> bh_number b))) \<and>
     (\<forall>h. up h \<longrightarrow> (\<exists>b h'. is_syncing J W ch h = Some (b, h') \<and> (t \<le> time h \<longrightarrow> \<not> b)))"

lemma request_world:
  "snd (is_online W ch h) = snd (http_Get W (Chain_url ch @ ''/block/header'') h)"
  "get_block_header J W ch h = Some (b, h') \<Longrightarrow> h' = snd (http_Get W (Chain_url ch @ ''/block/header'') h)"
  "is_syncing J W ch h = Some (s, h') \<Longrightarrow> h' = snd (http_Get W (Chain_url ch @ ''/system/health'') h)"
  by (auto simp: is_online_def get_block_header_def is_syncing_def bind_eq_Some_conv split: prod.splits if_splits)

lemma wait_online_returns:
  assumes "gets_ready J W ch up time t"
  shows "\<exists>h'. wait_online W ch h = Some h' \<and> up h'"
proof (induction "t - time h" arbitrary: h rule: less_induct)
  case less
  show ?case
  proof (cases "fst (is_online W ch h)")
    case True
    then show ?thesis using assms by (subst wait_online.simps) (auto simp: gets_ready_def)
  next
    case False
    then have "time h < t" using assms by (auto simp: gets_ready_def not_le [symmetric])
    moreover have "time h < time (snd (is_online W ch h))" using assms by (simp add: gets_ready_def request_world)
    ultimately have "t - time (snd (is_online W ch h)) < t - time h" by linarith
    from less.hyps [OF this] False show ?thesis by (subst wait_online.simps) (simp add: Let_def)
  qed
qed

lemma wait_blocks_returns:
  assumes "gets_ready J W ch up time t" and "up h"
  shows "\<exists>h'. wait_blocks J W ch h = Some h' \<and> up h'"
  using assms(2)
proof (induction "t - time h" arbitrary: h rule: less_induct)
  case less
  then obtain b h' where b: "get_block_header J W ch h = Some (Some b, h')" "t \<le> time h \<longrightarrow> 10 \<le> bh_number b"
    using assms(1) unfolding gets_ready_def by blast
  have h': "up h'" "time h < time h'" using assms(1) less.prems request_world(2) [OF b(1)] by (simp_all add: gets_ready_def)
  show ?case
  proof (cases "10 \<le> bh_number b")
    case True
    then show ?thesis using b h' by (subst wait_blocks.simps) simp
  next
    case False
    with b(2) h'(2) have "t - time h' < t - time h" by linarith
    from less.hyps [OF this h'(1)] False b show ?thesis by (subst wait_blocks.simps) simp
  qed
qed

lemma wait_synced_returns:
  assumes "gets_ready J W ch up time t" and "up h"
  shows "\<exists>h'. wait_synced J W ch h = Some h' \<and> up h'"
  using assms(2)
proof (induction "t - time h" arbitrary: h rule: less_induct)
  case less
  then obtain s h1 where s: "is_syncing J W ch h = Some (s, h1)" "t \<le> time h \<longrightarrow> \<not> s"
    using assms(1) unfolding gets_ready_def by blast
  have h1: "up h1" "time h < time h1" using assms(1) less.prems request_world(3) [OF s(1)] by (simp_all add: gets_ready_def)
  show ?case
  proof (cases s)
    case True
    obtain b h2 where b: "get_block_header J W ch h1 = Some (Some b, h2)"
      using assms(1) h1(1) unfolding gets_ready_def by blast
    have h2: "up h2" "time h1 < time h2" using assms(1) h1 request_world(2) [OF b] by (simp_all add: gets_ready_def)
    with s(2) True h1(2) have "t - time h2 < t - time h" by linarith
    from less.hyps [OF this h2(1)] True s b show ?thesis by (subst wait_synced.simps) simp
  qed (use s h1 in \<open>subst wait_synced.simps, simp\<close>)
qed

text \<open>A post that succeeds was accepted.\<close>

lemma post_loop_accepted:
  "post_loop J W ch path data n h = Some (True, h') \<Longrightarrow>
     \<exists>obj h0. J_Load J data = Some obj \<and> fst (fst (http_Post W (Chain_url ch @ path)
       (J_dump J (json_set obj ''backup'' (JString (Chain_backup ch))))
       [(''password'', Chain_password ch), (''Content-Type'', ''application/json'')] h0)) = 200"
proof (induction n arbitrary: h)
  case (Suc n)
  let ?post = "\<lambda>obj. http_Post W (Chain_url ch @ path) (J_dump J (json_set obj ''backup'' (JString (Chain_backup ch))))
    [(''password'', Chain_password ch), (''Content-Type'', ''application/json'')]"
  from Suc.prems obtain obj code body h1 where obj: "J_Load J data = Some obj" "?post obj h = ((code, body), h1)"
      "(if code = 200 then Some (True, h1) else post_loop J W ch path data n h1) = Some (True, h')"
    by (auto simp: Let_def split: prod.split_asm elim!: bind_SomeE)
  show ?case
  proof (cases "code = 200")
    case True
    then have "fst (fst (?post obj h)) = 200" using obj(2) by simp
    with obj(1) show ?thesis by blast
  qed (use obj Suc.IH in simp)
qed simp

section \<open>Lemmas: entry\<close>

lemma on_world_wl: "on_world f a = (r, a') \<Longrightarrow> wl (fst a') = wl (fst a)"
  by (auto simp: on_world_def split: prod.splits dest: call_host_wl_eq)

lemma on_world_result: "on_world f a = (r, a') \<Longrightarrow> fst (f (hst (fst a))) = r"
  by (auto simp: on_world_def call_host_def split: prod.splits)

lemma nonce_word_wl:
  assumes "nonce_word Q a = Some r"
  shows "wl (fst (snd r)) = wl (fst a)"
proof (rule nonce_word.raw_induct [where P = "\<lambda>Q a r. wl (fst (snd r)) = wl (fst a)", OF _ assms], goal_cases)
  case (1 loop Q a r)
  obtain v a1 where w: "on_world (rdrand64_step Q) a = (v, a1)" by (cases "on_world (rdrand64_step Q) a")
  from 1(2) w on_world_wl [OF w] 1(1) [of Q a1 r] show ?case by (cases v) auto
qed

lemma init_quote_wl: "init_quote Q n a = (r, a') \<Longrightarrow> wl (fst a') = wl (fst a)"
proof (induction Q n a arbitrary: r a' rule: init_quote.induct)
  case (1 Q n a)
  obtain st ti a1 where w: "on_world (sgx_init_quote Q) a = ((st, ti), a1)" by (metis prod.exhaust)
  from "1.prems" w "1.IH" [OF w [symmetric] refl] on_world_wl [OF w] show ?case
    by (subst (asm) init_quote.simps) (auto split: if_splits nat.splits)
qed

lemma get_quote_made:
  assumes "get_quote S Q c nonce target_info a = Some (Inr b64quote, a')"
  obtains report quote sz h h1 where
    "fst (sgx_create_report S target_info (get_pub_key (wl (fst a))) h) = (SGX_SUCCESS, report)"
    "fst (sgx_get_quote Q report nonce sz h1) = (SGX_SUCCESS, quote)" "base64_encode Q quote = Some b64quote"
    "wl (fst a') = wl (fst a)"
proof -
  from assms obtain report a1 sz quote where
    call: "Ecall_get_quote_report S c target_info a = Some (SGX_SUCCESS, Some (SGX_SUCCESS, report), a1)"
    and quote: "on_world (sgx_get_quote Q report nonce sz) a1 = ((SGX_SUCCESS, quote), a')" "base64_encode Q quote = Some b64quote"
    unfolding get_quote_def
    by (auto split: option.split_asm prod.split_asm if_split_asm elim!: bind_SomeE)
  from call have "call_host (sgx_create_report S target_info (get_pub_key (wl (fst a)))) (fst a) = ((SGX_SUCCESS, report), fst a1)"
    unfolding Ecall_get_quote_report_def ecall_get_quote_report_def id_get_quote_report_def by (auto elim!: invoke_made)
  from that [OF call_host_fst [OF this] on_world_result [OF quote(1)] quote(2)] call_host_wl_eq [OF this] on_world_wl [OF quote(1)]
  show thesis by simp
qed

lemma send_quote_accepted:
  "send_quote W body n a = (((200, answer), field), a') \<Longrightarrow>
     wl (fst a') = wl (fst a) \<and> (\<exists>h. fst (http_SSLPost W ias_report_url body ias_headers h) = ((200, answer), field))"
proof (induction W body n a rule: send_quote.induct)
  case (1 W body n a)
  obtain res a1 where w: "on_world (http_SSLPost W ias_report_url body ias_headers) a = (res, a1)"
    by (cases "on_world (http_SSLPost W ias_report_url body ias_headers) a")
  show ?case
  proof (cases "fst (fst res) = 200")
    case True
    then show ?thesis using "1.prems" w on_world_wl [OF w] on_world_result [OF w] by (subst (asm) send_quote.simps) auto
  next
    case False
    then obtain m where "n = Suc m" "send_quote W body m a1 = (((200, answer), field), a')"
      using "1.prems" w by (subst (asm) send_quote.simps) (auto split: nat.splits)
    with "1.IH" [OF w [symmetric] False] on_world_wl [OF w] show ?thesis by auto
  qed
qed

lemma entry_network_steps:
  assumes "entry_network J X S H W Q junk c c' a = Some (CRUST_SUCCESS, a')"
  obtains n0 n1 target_info b64quote a1 a2 answer field a3 where
    "get_quote S Q c [n0, n1] target_info a1 = Some (Inr b64quote, a2)" "wl (fst a1) = wl (fst a)"
    "send_quote W (quote_body b64quote) (IAS_TRYOUT - 1) a2 = (((200, answer), field), a3)"
    "Ecall_verify_and_upload_identity X S H junk c' (map c_str [field ''X-IASReport-Signing-Certificate'', field ''X-IASReport-Signature'', answer]) a3
       = Some (SGX_SUCCESS, Some CRUST_SUCCESS, a')"
proof -
  obtain n0 b0 n1 b1 where n: "nonce_word Q a = Some (n0, b0)" "nonce_word Q b0 = Some (n1, b1)"
    using assms unfolding entry_network_def by (auto elim!: bind_SomeE)
  obtain ti a1 where i: "init_quote Q 3 b1 = (ti, a1)" by (cases "init_quote Q 3 b1")
  have wl: "wl (fst a1) = wl (fst a)" using init_quote_wl [OF i] nonce_word_wl [OF n(1)] nonce_word_wl [OF n(2)] by simp
  obtain target_info res a2 where q: "ti = Some target_info" "get_quote S Q c [n0, n1] target_info a1 = Some (res, a2)"
    using assms n i unfolding entry_network_def by (auto split: option.split_asm elim!: bind_SomeE)
  have no_quote: "get_quote S Q c [n0, n1] target_info a1 \<noteq> Some (Inl CRUST_SUCCESS, a2)"
    by (auto simp: get_quote_def split: option.split_asm prod.split_asm if_split_asm elim!: bind_SomeE)
  obtain b64quote where b: "res = Inr b64quote"
    using assms n i q no_quote unfolding entry_network_def by (cases res) auto
  obtain code answer field a3 where s: "send_quote W (quote_body b64quote) (IAS_TRYOUT - 1) a2 = (((code, answer), field), a3)"
    by (metis prod.exhaust)
  from assms n i q b s have "code = 200"
    and "Option.bind (Ecall_verify_and_upload_identity X S H junk c' (map c_str [field ''X-IASReport-Signing-Certificate'', field ''X-IASReport-Signature'', answer]) a3)
      (\<lambda>(status_ret, out, a). Some (if status_ret = SGX_SUCCESS then the out else CRUST_UNEXPECTED_ERROR, a)) = Some (CRUST_SUCCESS, a')"
    unfolding entry_network_def by (auto simp: Let_def split: if_split_asm elim!: bind_SomeE)
  moreover from this(2) have "Ecall_verify_and_upload_identity X S H junk c' (map c_str [field ''X-IASReport-Signing-Certificate'', field ''X-IASReport-Signature'', answer]) a3
      = Some (SGX_SUCCESS, Some CRUST_SUCCESS, a')"
    unfolding Ecall_verify_and_upload_identity_def by (auto elim!: bind_SomeE split: if_split_asm) (auto elim: invoke_made)
  ultimately show thesis using that q(2) b wl s by blast
qed

section \<open>A network\<close>

text \<open>A chain that answers from the fifth request on, and has twelve blocks and is synchronised from the eighth on.\<close>

definition demo_clock :: "nat http_client" where
  "demo_clock = \<lparr>http_Get = (\<lambda>url t. ((if t < 5 then 500 else 200, if t < 8 then ''a'' else ''b''), t + 1)),
     http_Post = (\<lambda>_ _ _ t. ((200, []), t + 1)), http_SSLPost = (\<lambda>_ _ _ t. (((200, []), \<lambda>_. []), t + 1))\<rparr>"

definition demo_clock_json :: json_hpp where
  "demo_clock_json = \<lparr>J_Load = (\<lambda>t. Some (JObject [(''isSyncing'', JBoolean (t = ''a'')), (''number'', JIntegral (if t = ''a'' then 3 else 12))])),
     J_ToString = (\<lambda>_. []), J_dump = (\<lambda>_. [])\<rparr>"

definition demo_url :: Chain where
  "demo_url = \<lparr>Chain_url = ''u'', Chain_password = ''p'', Chain_backup = ''b''\<rparr>"

lemma demo_gets_ready: "gets_ready demo_clock_json demo_clock demo_url (\<lambda>t. 5 \<le> t) (\<lambda>t. t) 8"
  by (auto simp: gets_ready_def demo_clock_def demo_clock_json_def is_online_def get_block_header_def is_syncing_def json_simps)

text \<open>A service that vouches for \<^const>\<open>demo_node\<close>.\<close>

definition demo_service :: "unit http_client" where
  "demo_service = \<lparr>http_Get = (\<lambda>_ h. ((200, []), h)), http_Post = (\<lambda>_ _ _ h. ((200, []), h)),
     http_SSLPost = (\<lambda>_ _ _ h. (((200, demo_isv_body), \<lambda>f. if f = ''X-IASReport-Signature'' then ''s'' else demo_chain), h))\<rparr>"

definition demo_quoting :: "unit quoting" where
  "demo_quoting = \<lparr>rdrand64_step = (\<lambda>h. (Some 7, h)), sgx_init_quote = (\<lambda>h. ((SGX_SUCCESS, []), h)), get_quote_size = (True, SGX_SUCCESS, 432),
     app_malloc = (\<lambda>_. True), sgx_get_quote = (\<lambda>_ _ _ h. ((SGX_SUCCESS, replicate 432 2), h)), base64_encode = (\<lambda>_. Some ''q'')\<rparr>"

lemma entry_tasks:
  "block_tasks ''Ecall_get_quote_report'' = []" "block_tasks ''Ecall_verify_and_upload_identity'' = []"
  "task_prio ''Ecall_get_quote_report'' = 0" "task_prio ''Ecall_verify_and_upload_identity'' = 0"
  by (simp_all add: block_tasks_def g_block_tasks_um_def task_prio_def g_task_priority_um_def)

lemma demo_world [simp]: "on_world f (e, s) = (case f () of (r, h) \<Rightarrow> (r, e :: unit enclave, s))"
  by (cases "f ()") (simp add: on_world_def call_host_def)

lemma demo_verified:
  "\<exists>e'. ecall_verify_and_upload_identity demo_openssl quiet_sgx quiet_ocalls True (map c_str [demo_chain, ''s'', demo_isv_body]) demo_node
     = Some (CRUST_SUCCESS, e')"
proof -
  have "map c_str [demo_chain, ''s'', demo_isv_body] = [demo_chain, ''s'', demo_isv_body]" "demo_chain \<noteq> []" by code_simp+
  then show ?thesis using demo_upload
    by (auto simp: ecall_verify_and_upload_identity_def id_verify_and_upload_identity_def demo_texts demo_checks)
qed

lemma demo_entry:
  "\<exists>a'. entry_network demo_clock_json demo_openssl quiet_sgx quiet_ocalls demo_service demo_quoting True demo_caller demo_caller
     (demo_node, admission_start) = Some (CRUST_SUCCESS, a')"
proof -
  have idle: "idle admission_start" by (simp add: idle_def admission_start_def)
  have report: "ecall_get_quote_report quiet_sgx [] demo_node =
      ((SGX_SUCCESS, \<lparr>body_mr_enclave = replicate 32 0, body_report_data = get_pub_key (wl demo_node)\<rparr>), demo_node)"
    by (simp add: ecall_get_quote_report_def id_get_quote_report_def call_host_def) (simp add: quiet_sgx_def)
  obtain r s1 where s1: "Ecall_get_quote_report quiet_sgx demo_caller [] (demo_node, admission_start) = Some (SGX_SUCCESS, Some (SGX_SUCCESS, r), demo_node, s1)"
      "idle s1"
    using idle_invoke [OF idle entry_tasks(1,3), of "\<lambda>e. Some (ecall_get_quote_report quiet_sgx [] e)" demo_node] report
    by (auto simp: Ecall_get_quote_report_def)
  obtain e' where "ecall_verify_and_upload_identity demo_openssl quiet_sgx quiet_ocalls True (map c_str [demo_chain, ''s'', demo_isv_body]) demo_node
      = Some (CRUST_SUCCESS, e')" using demo_verified by blast
  then obtain s2 where "Ecall_verify_and_upload_identity demo_openssl quiet_sgx quiet_ocalls True demo_caller (map c_str [demo_chain, ''s'', demo_isv_body])
      (demo_node, s1) = Some (SGX_SUCCESS, Some CRUST_SUCCESS, e', s2)"
    using idle_invoke [OF s1(2) entry_tasks(2,4), of "\<lambda>e. ecall_verify_and_upload_identity demo_openssl quiet_sgx quiet_ocalls True
      (map c_str [demo_chain, ''s'', demo_isv_body]) e" demo_node] by (auto simp: Ecall_verify_and_upload_identity_def)
  moreover have "print_answer demo_clock_json demo_openssl demo_isv_body = Some ()"
    by (simp add: print_answer_def demo_clock_json_def demo_openssl_def)
  ultimately show ?thesis using s1
    by (simp add: entry_network_def nonce_word.simps init_quote.simps get_quote_def send_quote.simps demo_quoting_def demo_service_def Let_def)
qed

section \<open>Properties\<close>



text \<open>
  C33. Waiting for the chain ends: when the chain becomes reachable, grows to ten blocks and gets
  synchronised some time, and keeps answering once it has answered, \<open>wait_for_running\<close> returns true.
  (A chain that stops answering in between ends the process instead.)
\<close>

theorem wait_for_running_returns:
  assumes "gets_ready J W ch up time t"
  shows "\<exists>h'. wait_for_running J W ch h = Some (True, h')"
proof -
  obtain h1 h2 h3 where "wait_online W ch h = Some h1" "wait_blocks J W ch h1 = Some h2" "wait_synced J W ch h2 = Some h3"
    using wait_online_returns [OF assms] wait_blocks_returns [OF assms] wait_synced_returns [OF assms] by metis
  then show ?thesis by (simp add: wait_for_running_def)
qed

theorem wait_for_running_returns_witness: "\<exists>h'. wait_for_running demo_clock_json demo_clock demo_url 0 = Some (True, h')"
  by (rule wait_for_running_returns [OF demo_gets_ready])

end
