(* ===== verification/AppUtils.thy ===== *)
theory AppUtils
  imports AppJson Network
begin

text \<open>
  How the application is set up and how it reads its texts: the command line (\<open>src/app/App.cpp\<close>), the
  configuration (\<open>src/app/config/Config.cpp\<close>), addresses (\<open>src/app/utils/Common.cpp\<close>) and the
  parameters of requests (\<open>src/app/http/ApiHandler.cpp\<close>).  The lemmas show that an address and
  a query are taken apart into what they were put together from, that the configured backup is the
  text of the file, and that the lists of keys in the database are sets of names.
\<close>

section \<open>Command line\<close>

record options =
  config_file_path :: string
  is_set_config :: bool
  g_upgrade_flag :: bool
  offline_chain_mode :: bool
  debug_flag :: bool

text \<open>What \<open>main\<close> does in the end: the daemon, the help text, the version, or an error.\<close>

datatype main_action = Main_Daemon options | Show_Help | Show_Version | Missing_Argument

text \<open>
  The loop over the arguments.  After \<open>--upgrade\<close> the next argument is skipped although the option has
  none.
\<close>

function main_args :: "string list \<Rightarrow> options \<Rightarrow> main_action" where
  "main_args [] opts = (if is_set_config opts then Main_Daemon opts else Show_Help)"
| "main_args (arg # argv) opts =
     (if arg = ''-h'' \<or> arg = ''--help'' then Show_Help
      else if arg = ''-c'' \<or> arg = ''--config''
      then (if argv = [] then Missing_Argument
            else main_args (tl argv) (opts\<lparr>config_file_path := hd argv, is_set_config := True\<rparr>))
      else if arg = ''--upgrade'' then main_args (tl argv) (opts\<lparr>g_upgrade_flag := True\<rparr>)
      else if arg = ''-v'' \<or> arg = ''--version'' then Show_Version
      else if arg = ''--offline'' then main_args argv (opts\<lparr>offline_chain_mode := True\<rparr>)
      else if arg = ''--debug'' then main_args argv (opts\<lparr>debug_flag := True\<rparr>)
      else Show_Help)"
  by pat_completeness auto
termination
  by (relation "measure (\<lambda>(argv, _). length argv)") auto

definition start_options :: options where
  "start_options = \<lparr>config_file_path = [], is_set_config = False, g_upgrade_flag = False,
     offline_chain_mode = False, debug_flag = False\<rparr>"

section \<open>Addresses\<close>

record UrlEndPoint =
  ip :: string
  url_path :: string
  url_port :: int

text \<open>
  The protocol of an address, and where the rest starts; then host, port and path.  A port that is
  neither given nor known by the protocol is -1.
\<close>

definition url_proto :: "string \<Rightarrow> string \<times> nat" where
  "url_proto url =
     (case string_find url ''://'' 0 of Some epos \<Rightarrow> (take epos url, epos + 3) | None \<Rightarrow> ([], 0))"

definition get_url_end_point :: "string \<Rightarrow> UrlEndPoint" where
  "get_url_end_point url =
     (case url_proto url of (proto_type, spos) \<Rightarrow>
        case string_find url '':'' spos of
          None \<Rightarrow>
            (case string_find url ''/'' spos of
               None \<Rightarrow> \<lparr>ip = drop spos url, url_path = [], url_port = -1\<rparr>
             | Some epos \<Rightarrow>
                 \<lparr>ip = take (epos - spos) (drop spos url), url_path = drop epos url,
                  url_port = (if proto_type = ''https'' then 443 else if proto_type = ''http'' then 80 else -1)\<rparr>)
        | Some cpos \<Rightarrow>
            (case string_find url ''/'' (cpos + 1) of
               None \<Rightarrow> \<lparr>ip = take (cpos - spos) (drop spos url), url_path = [], url_port = atoi (drop (cpos + 1) url)\<rparr>
             | Some epos \<Rightarrow>
                 \<lparr>ip = take (cpos - spos) (drop spos url), url_path = drop epos url,
                  url_port = atoi (take (epos - (cpos + 1)) (drop (cpos + 1) url))\<rparr>))"

definition remove_chars_from_string :: "string \<Rightarrow> string \<Rightarrow> string" where
  "remove_chars_from_string str chars_to_remove = fold (\<lambda>c s. remove_char s c) chars_to_remove str"

text \<open>The seed of the random numbers; characters are signed and sums wrap around.\<close>

definition signed_char :: "char \<Rightarrow> int" where
  "signed_char c = (let n = of_char c in if n < 128 then n else n - 256)"

definition srand_string :: "u32 \<Rightarrow> string \<Rightarrow> u32" where
  "srand_string now seed =
     now + fold (\<lambda>i n. n + word_of_int (signed_char (seed ! i)) * of_nat (i + 1)) [0..<length seed] 0"

section \<open>Requests\<close>

definition path_cat :: "string \<Rightarrow> string \<Rightarrow> string" where
  "path_cat base path =
     (if base = [] then path
      else (if last base = CHR ''/'' then butlast base else base) @ path)"

text \<open>
  The parameters behind the question mark.  The loop ends at the first parameter without an
  equals sign; its argument is the text that is left.
\<close>

function params_loop :: "string \<Rightarrow> (string, string) omap \<Rightarrow> (string, string) omap" where
  "params_loop r ans =
     (if r = [] then ans
      else let epos = (case find_sub ''&'' r of Some i \<Rightarrow> i | None \<Rightarrow> length r) in
        case find_sub ''='' r of
          None \<Rightarrow> ans
        | Some ppos \<Rightarrow>
            if epos < ppos then ans
            else params_loop (drop (epos + 1) r)
              (omap_upd (take ppos r) (take (epos - (ppos + 1)) (drop (ppos + 1) r)) ans))"
  by pat_completeness auto
termination
  by (relation "measure (\<lambda>(r, _). length r)") auto

declare params_loop.simps [simp del]

definition get_params :: "string \<Rightarrow> (string, string) omap" where
  "get_params url =
     (case string_find url ''?'' 0 of None \<Rightarrow> [] | Some spos \<Rightarrow> params_loop (drop (spos + 1) url) [])"

definition websocket_handler :: "json_hpp \<Rightarrow> string" where
  "websocket_handler J = J_dump J (json_set (json_set JNull ''status'' (JIntegral 300))
     ''body'' (JString ''Websocket doesn't provide service now!''))"

section \<open>Configuration\<close>

text \<open>The number of websocket threads is never set.\<close>

record Config =
  cfg_base_path :: string
  cfg_srd_paths :: json
  cfg_srd_path :: string
  cfg_db_path :: string
  cfg_srd_capacity :: u64
  cfg_base_url :: string
  cfg_srd_thread_num :: int
  cfg_karst_url :: string
  cfg_chain_api_base_url :: string
  cfg_chain_address :: string
  cfg_chain_account_id :: string
  cfg_chain_password :: string
  cfg_chain_backup :: string

definition account_id :: "string \<Rightarrow> string" where
  "account_id s = (if string_find s ''0x'' 0 \<noteq> None then drop 2 s else s)"

definition load_config :: "json_hpp \<Rightarrow> int \<Rightarrow> string \<Rightarrow> Config option" where
  "load_config J num_procs config_str = do {
     config_value \<leftarrow> J_Load J config_str;
     let text = (\<lambda>k. J_ToString J (json_get config_value k));
     let chain_text = (\<lambda>k. J_ToString J (json_get (json_get config_value ''chain'') k));
     let capacity = ToInt (json_get config_value ''srd_init_capacity'');
     Some \<lparr>cfg_base_path = text ''base_path'',
       cfg_srd_paths = (if hasKey config_value ''srd_paths'' \<and> JSONType (json_get config_value ''srd_paths'') = Class_Array
          then json_get config_value ''srd_paths'' else JArray []),
       cfg_srd_path = text ''base_path'' @ ''/srd_path'', cfg_db_path = text ''base_path'' @ ''/db'',
       cfg_srd_capacity = (if capacity < 0 then 0 else word_of_int capacity),
       cfg_base_url = text ''base_url'', cfg_srd_thread_num = min (num_procs * 2) 8, cfg_karst_url = text ''karst_url'',
       cfg_chain_api_base_url = chain_text ''base_url'', cfg_chain_address = chain_text ''address'',
       cfg_chain_account_id = account_id (chain_text ''account_id''), cfg_chain_password = chain_text ''password'',
       cfg_chain_backup = remove_chars_from_string (chain_text ''backup'') [backslash]\<rparr>
   }"

text \<open>The chain client and the parts of the configuration the other components use.\<close>

definition Chain_get_instance :: "Config \<Rightarrow> Chain" where
  "Chain_get_instance cfg = \<lparr>Chain_url = cfg_chain_api_base_url cfg, Chain_password = cfg_chain_password cfg,
     Chain_backup = cfg_chain_backup cfg\<rparr>"

definition srd_config :: "json_hpp \<Rightarrow> Config \<Rightarrow> app_config" where
  "srd_config J cfg = \<lparr>srd_paths = Some (map (J_ToString J) (ArrayRange (cfg_srd_paths cfg))), srd_path = cfg_srd_path cfg,
     srd_capacity = cfg_srd_capacity cfg\<rparr>"

definition service_config :: "Config \<Rightarrow> api_config" where
  "service_config cfg = \<lparr>chain_backup = cfg_chain_backup cfg, chain_address = cfg_chain_address cfg,
     url_base = url_path (get_url_end_point (cfg_base_url cfg))\<rparr>"

section \<open>Lemmas: searching\<close>

lemma find_sub_at: "p \<noteq> [] \<Longrightarrow> hd p \<notin> set s \<Longrightarrow> find_sub p (s @ p @ r) = Some (length s)"
proof (induction s)
  case (Cons c s)
  then have "take (length p) (c # s @ p @ r) \<noteq> p" by (cases p) auto
  with Cons show ?case by (simp add: find_sub.simps [of p "c # s @ p @ r"])
qed (simp add: find_sub.simps)

lemma find_sub_absent: "p \<noteq> [] \<Longrightarrow> hd p \<notin> set s \<Longrightarrow> find_sub p s = None"
  using string_find_absent [of p s 0] by (simp add: string_find_def)

lemma string_find_at:
  "p \<noteq> [] \<Longrightarrow> hd p \<notin> set s \<Longrightarrow> string_find (pre @ s @ p @ r) p (length pre) = Some (length pre + length s)"
  by (simp add: string_find_def find_sub_at)

lemma string_find_after:
  "p \<noteq> [] \<Longrightarrow> hd p \<notin> set s \<Longrightarrow> string_find (pre @ s) p (length pre) = None"
  by (simp add: string_find_def find_sub_absent)

section \<open>Lemmas: queries\<close>

fun query :: "(string \<times> string) list \<Rightarrow> string" where
  "query [] = []"
| "query [(k, v)] = k @ ''='' @ v"
| "query ((k, v) # e # ps) = k @ ''='' @ v @ ''&'' @ query (e # ps)"

definition query_ok :: "(string \<times> string) list \<Rightarrow> bool" where
  "query_ok ps \<longleftrightarrow> (\<forall>(k, v) \<in> set ps. CHR ''='' \<notin> set k \<and> CHR ''&'' \<notin> set k \<and> CHR ''&'' \<notin> set v)"

lemma params_step:
  assumes "CHR ''='' \<notin> set k" and "CHR ''&'' \<notin> set k" and "CHR ''&'' \<notin> set v"
  shows "params_loop (k @ ''='' @ v) ans = omap_upd k v ans"
    and "params_loop (k @ ''='' @ v @ ''&'' @ r) ans = params_loop r (omap_upd k v ans)"
proof -
  have eq: "find_sub ''='' (k @ ''='' @ t) = Some (length k)" for t using assms(1) by (intro find_sub_at) simp_all
  have none: "find_sub ''&'' (k @ ''='' @ v) = None" using assms by (intro find_sub_absent) simp_all
  have amp: "find_sub ''&'' ((k @ ''='' @ v) @ ''&'' @ r) = Some (length (k @ ''='' @ v))" using assms by (intro find_sub_at) simp_all
  show "params_loop (k @ ''='' @ v) ans = omap_upd k v ans"
    using eq [of v] none by (simp add: params_loop.simps)
  show "params_loop (k @ ''='' @ v @ ''&'' @ r) ans = params_loop r (omap_upd k v ans)"
    using eq [of "v @ ''&'' @ r"] amp by (simp add: params_loop.simps [of "k @ ''='' @ v @ ''&'' @ r"] params_loop.simps [of "k @ CHR ''='' # v @ CHR ''&'' # r"])
qed

lemma params_query: "query_ok ps \<Longrightarrow> params_loop (query ps) ans = fold (\<lambda>(k, v). omap_upd k v) ps ans"
proof (induction ps arbitrary: ans rule: query.induct)
  case 1
  show ?case by (simp add: params_loop.simps)
next
  case (2 k v)
  then show ?case using params_step(1) [of k v ans] by (simp add: query_ok_def)
next
  case (3 k v e ps)
  then show ?case using params_step(2) [of k v "query (e # ps)" ans] by (simp add: query_ok_def)
qed

section \<open>Lemmas: the backup\<close>

text \<open>Escaping only adds backslashes to a text without control characters and backslashes.\<close>

definition escape_free :: "char \<Rightarrow> bool" where
  "escape_free c \<longleftrightarrow> c = dquote \<or> plain_char c \<or> c = CHR '' ''"

lemma escape_char_unescaped: "escape_free c \<Longrightarrow> filter (\<lambda>x. x \<noteq> backslash) (escape_char c) = [c]"
  unfolding escape_free_def by (elim disjE) (simp_all add: escape_char_def plain_char_def)

lemma escape_unescaped: "list_all escape_free s \<Longrightarrow> remove_char (json_escape s) backslash = s"
  by (induction s) (simp_all add: json_escape_def remove_char_def escape_char_unescaped)

section \<open>Lemmas: the command line\<close>

definition config_given :: "string list \<Rightarrow> string \<Rightarrow> bool" where
  "config_given argv f \<longleftrightarrow> (\<exists>pre c post. argv = pre @ c # f # post \<and> c \<in> {''-c'', ''--config''})"

lemma config_given_later: "config_given argv f \<Longrightarrow> config_given (arg # argv) f"
  unfolding config_given_def by (metis append_Cons)

lemma config_given_skip: "config_given (tl argv) f \<Longrightarrow> config_given (arg # argv) f"
  by (cases argv) (auto intro: config_given_later)

lemma config_given_here: "arg \<in> {''-c'', ''--config''} \<Longrightarrow> config_given (arg # f # argv) f"
  unfolding config_given_def by (metis append_Nil)

lemma config_file_given:
  "main_args argv opts = Main_Daemon opts' \<Longrightarrow>
     is_set_config opts \<and> config_file_path opts' = config_file_path opts \<or> config_given argv (config_file_path opts')"
proof (induction argv opts rule: main_args.induct)
  case (2 arg argv opts)
  show ?case
  proof (cases "arg = ''-c'' \<or> arg = ''--config''")
    case True
    then have h: "\<not> (arg = ''-h'' \<or> arg = ''--help'')" by auto
    with "2.prems" True have "argv \<noteq> []" "main_args (tl argv) (opts\<lparr>config_file_path := hd argv, is_set_config := True\<rparr>) = Main_Daemon opts'"
      by (simp_all only: main_args.simps if_True if_False split: if_splits) simp_all
    moreover from "2.IH"(1) [OF h True this]
    have "config_file_path opts' = hd argv \<or> config_given (tl argv) (config_file_path opts')" by simp
    ultimately show ?thesis using True config_given_skip config_given_here [of arg "hd argv" "tl argv"] by auto
  next
    case False
    then show ?thesis using "2.IH"(2,3,4) "2.prems" by (auto intro: config_given_later config_given_skip split: if_splits)
  qed
qed (simp split: if_splits)

section \<open>Lemmas: lists of keys\<close>

text \<open>
  A list of keys is a record of the database: the names of a JSON object, or none when there is no
  record or the record is null.
\<close>

definition key_record :: "(string \<Rightarrow> bytes option) \<Rightarrow> string \<Rightarrow> json option" where
  "key_record f key = J_Load app_json (case f key of None \<Rightarrow> [] | Some v \<Rightarrow> string_of_bytes v)"

definition key_names :: "json \<Rightarrow> string set" where
  "key_names j = fst ` set (json_members j)"

definition list_ok :: "json \<Rightarrow> bool" where
  "list_ok j \<longleftrightarrow> readable j \<and> (JSONType j = Class_Null \<or> JSONType j = Class_Object)"

lemma list_ok_members: "list_ok j \<Longrightarrow> readable (JObject (json_members j))"
  by (cases j) (auto simp: list_ok_def json_members_def SetType_def omap_simps)

lemma set_omap_upd_subset: "set (omap_upd k v m) \<subseteq> insert (k, v) (set m)"
  by (induction m) auto

lemma list_ok_set:
  assumes "list_ok j" and "name_ok k"
  shows "list_ok (json_set j k (JBoolean True))" and "key_names (json_set j k (JBoolean True)) = insert k (key_names j)"
proof -
  have m: "readable (JObject (json_members j))" by (rule list_ok_members [OF assms(1)])
  then have "readable (JObject (omap_upd k (JBoolean True) (json_members j)))"
    using assms(2) set_omap_upd_subset [of k "JBoolean True" "json_members j"] by (auto simp: omap_simps)
  then show "list_ok (json_set j k (JBoolean True))" by (simp add: list_ok_def json_set_def)
  show "key_names (json_set j k (JBoolean True)) = insert k (key_names j)"
    using set_omap_upd [of k "JBoolean True" "json_members j"] by (simp add: key_names_def json_simps)
qed

lemma list_ok_sets:
  assumes "list_ok j" and "\<forall>k \<in> set ks. name_ok k"
  shows "list_ok (fold (\<lambda>k j. json_set j k (JBoolean True)) ks j) \<and>
    key_names (fold (\<lambda>k j. json_set j k (JBoolean True)) ks j) = set ks \<union> key_names j"
  using assms by (induction ks arbitrary: j) (simp_all add: list_ok_set)

lemma list_ok_filter:
  assumes "list_ok j"
  shows "list_ok (JObject (filter (\<lambda>(k, _). k \<notin> A) (json_members j)))"
    and "key_names (JObject (filter (\<lambda>(k, _). k \<notin> A) (json_members j))) = key_names j - A"
  using list_ok_members [OF assms]
  by (auto simp: list_ok_def key_names_def json_simps omap_ok_def sorted_wrt_map sorted_wrt_filter image_iff)

lemma key_record_set:
  assumes "leveldb_ok L view" and "list_ok j"
  shows "\<exists>d'. DataBase_set L key (bytes_of_string (J_dump app_json j)) d = (CRUST_SUCCESS, d') \<and>
    key_record (view d') key = Some j \<and> (\<forall>k. k \<noteq> key \<longrightarrow> view d' k = view d k)"
proof -
  have "J_Load app_json (J_dump app_json j) = Some j"
    using assms(2) app_json_reads [of j] by (auto simp: list_ok_def)
  moreover have "fst (db_Put L key v d) \<and> view (snd (db_Put L key v d)) = (view d)(key \<mapsto> v)" for v
    using assms(1) by (simp add: leveldb_ok_def)
  ultimately show ?thesis by (simp add: DataBase_set_def key_record_def case_prod_beta)
qed

lemma DataBase_get_record:
  assumes "leveldb_ok L view"
  shows "J_Load app_json (string_of_bytes (snd (DataBase_get L key d))) = key_record (view d) key"
  using assms by (auto simp: DataBase_get_def leveldb_ok_def key_record_def string_of_bytes_def split: option.split)

lemma ToString_names: "\<forall>k \<in> set ks. name_ok k \<Longrightarrow> map (J_ToString app_json) (map JString ks) = ks"
  by (induction ks) (simp_all add: app_json_def name_ToString [simplified])

lemma fold_names:
  "\<forall>k \<in> set ks. name_ok k \<Longrightarrow>
     fold (\<lambda>it j. json_set j (J_ToString app_json it) v) (map JString ks) j = fold (\<lambda>k j. json_set j k v) ks j"
  by (induction ks arbitrary: j) (simp_all add: app_json_def name_ToString [simplified])

section \<open>Properties\<close>

text \<open>
  C26. A list of keys in the database is a set of names: adding keys is union and deleting them is
  difference, nothing else in the database changes, and the record stays a list that can be
  read.  This is with the JSON library of the application and a leveldb that keeps its records;
  names need no escape.  Deleting supposes a record that is an object, since it goes through its
  pointer to the members.
\<close>

theorem key_lists_are_sets:
  assumes "leveldb_ok L view" and "key_record (view d) key = Some j" and "list_ok j"
    and "J_Load app_json keys = Some (JArray (map JString ks))" and "\<forall>k \<in> set ks. name_ok k"
  shows "(\<exists>d' j'. app_persist_add_keys app_json L key keys d = Some (CRUST_SUCCESS, d') \<and>
      key_record (view d') key = Some j' \<and> list_ok j' \<and> key_names j' = key_names j \<union> set ks \<and>
      (\<forall>k. k \<noteq> key \<longrightarrow> view d' k = view d k)) \<and>
    (JSONType j = Class_Object \<longrightarrow> (\<exists>d' j'. app_persist_del_keys app_json L key keys d = Some (CRUST_SUCCESS, d') \<and>
      key_record (view d') key = Some j' \<and> list_ok j' \<and> key_names j' = key_names j - set ks \<and>
      (\<forall>k. k \<noteq> key \<longrightarrow> view d' k = view d k)))"
proof -
  note load = assms(2) [folded DataBase_get_record [OF assms(1)]]
  let ?added = "fold (\<lambda>k j. json_set j k (JBoolean True)) ks j"
  have add: "app_persist_add_keys app_json L key keys d = Some (DataBase_set L key (bytes_of_string (J_dump app_json ?added)) d)"
    using load assms(4) fold_names [OF assms(5)] by (simp add: app_persist_add_keys_def ArrayRange_def del: fold_map)
  let ?left = "if ks = [] then j else JObject (filter (\<lambda>(k, _). k \<notin> set ks) (json_members j))"
  have del: "app_persist_del_keys app_json L key keys d = Some (DataBase_set L key (bytes_of_string (J_dump app_json ?left)) d)"
    if "JSONType j = Class_Object"
    using load assms(4) ToString_names [OF assms(5)] that by (auto simp: app_persist_del_keys_def ArrayRange_def Let_def)
  have added: "list_ok ?added" "key_names ?added = key_names j \<union> set ks" using list_ok_sets [OF assms(3,5)] by auto
  have left: "list_ok ?left" "key_names ?left = key_names j - set ks" using list_ok_filter [OF assms(3)] assms(3) by auto
  show ?thesis
  proof (intro conjI impI)
    from key_record_set [OF assms(1) added(1), of key d]
    show "\<exists>d' j'. app_persist_add_keys app_json L key keys d = Some (CRUST_SUCCESS, d') \<and> key_record (view d') key = Some j' \<and> list_ok j' \<and>
        key_names j' = key_names j \<union> set ks \<and> (\<forall>k. k \<noteq> key \<longrightarrow> view d' k = view d k)"
      unfolding add added(2) [symmetric] using added(1) by (elim exE conjE) (simp only: option.inject prod.inject simp_thms, blast)
  next
    assume "JSONType j = Class_Object"
    from key_record_set [OF assms(1) left(1), of key d]
    show "\<exists>d' j'. app_persist_del_keys app_json L key keys d = Some (CRUST_SUCCESS, d') \<and> key_record (view d') key = Some j' \<and> list_ok j' \<and>
        key_names j' = key_names j - set ks \<and> (\<forall>k. k \<noteq> key \<longrightarrow> view d' k = view d k)"
      unfolding del [OF \<open>JSONType j = Class_Object\<close>] left(2) [symmetric] using left(1)
      by (elim exE conjE) (simp only: option.inject prod.inject simp_thms, blast)
  qed
qed

theorem key_lists_are_sets_witness:
  "\<exists>d' j'. app_persist_add_keys app_json ldb_map ''meaningful'' (J_dump app_json (JArray (map JString [''a'', ''b'']))) Map.empty = Some (CRUST_SUCCESS, d') \<and>
     key_record d' ''meaningful'' = Some j' \<and> key_names j' = {''a'', ''b''}"
proof -
  have keys: "J_Load app_json (J_dump app_json (JArray (map JString [''a'', ''b'']))) = Some (JArray (map JString [''a'', ''b'']))"
    by (rule app_json_reads) simp_all
  have "key_record Map.empty ''meaningful'' = Some JNull" by (simp add: key_record_def app_json_def hpp_Load_def)
  moreover have "list_ok JNull" by (simp add: list_ok_def)
  moreover have "\<forall>k \<in> set [''a'', ''b'']. name_ok k" by (simp add: name_ok_def plain_char_def)
  moreover have "key_names JNull = {}" by (simp add: key_names_def json_simps)
  ultimately show ?thesis using key_lists_are_sets [OF ldb_map_ok _ _ keys, of Map.empty "''meaningful''" JNull] by auto
qed

text \<open>
  C37. An address is taken apart into what it was put together from: host, port and path of
  \<open>proto://host:port/path\<close>, when the protocol has no colon, the host neither colon nor slash, the
  path is empty or starts with a slash and the port fits an \<open>int\<close>.
\<close>

theorem url_taken_apart:
  assumes "CHR '':'' \<notin> set proto" and "CHR '':'' \<notin> set host" and "path = [] \<or> hd path = CHR ''/''" and "port < 2 ^ 31"
  shows "get_url_end_point (proto @ ''://'' @ host @ '':'' @ to_string port @ path) =
    \<lparr>ip = host, url_path = path, url_port = int port\<rparr>"
proof -
  let ?url = "proto @ ''://'' @ host @ '':'' @ to_string port @ path"
  let ?p1 = "proto @ ''://''" and ?p2 = "proto @ ''://'' @ host @ '':''"
  have proto: "url_proto ?url = (proto, length ?p1)"
    using string_find_at [of "''://''" proto "[]"] assms(1) by (simp add: url_proto_def)
  have colon: "string_find ?url '':'' (length ?p1) = Some (length ?p1 + length host)"
    using string_find_at [of "'':''" host ?p1 "to_string port @ path"] assms(2) by simp
  have digits: "CHR ''/'' \<notin> set (to_string port)" using to_string_digits [of port] by (auto simp: list_all_iff is_digit_def)
  have slash: "string_find ?url ''/'' (length ?p2) = (if path = [] then None else Some (length ?p2 + length (to_string port)))"
  proof (cases "path = []")
    case True
    then show ?thesis using string_find_after [of "''/''" "to_string port" ?p2] digits by simp
  next
    case False
    then have "path = ''/'' @ tl path" using assms(3) by (cases path) auto
    then show ?thesis using string_find_at [of "''/''" "to_string port" ?p2 "tl path"] digits False by simp
  qed
  have "atoi (to_string port) = int port" using atoi_to_string [of "int port"] assms(4) by (simp add: to_string_int_def)
  then show ?thesis using proto colon slash by (simp add: get_url_end_point_def eval_nat_numeral)
qed

theorem url_taken_apart_witness:
  "get_url_end_point (''http://127.0.0.1:'' @ to_string 56666 @ ''/api/v1'') = \<lparr>ip = ''127.0.0.1'', url_path = ''/api/v1'', url_port = 56666\<rparr>"
  using url_taken_apart [of "''http''" "''127.0.0.1''" "''/api/v1''" 56666] by (simp del: to_string.simps)

text \<open>
  The parameters of a request are those it was made with: of several with the same name the last
  counts.
\<close>

theorem get_params_query:
  assumes "CHR ''?'' \<notin> set path" and "query_ok ps"
  shows "get_params (path @ ''?'' @ query ps) = fold (\<lambda>(k, v). omap_upd k v) ps []"
  using string_find_at [of "''?''" path "[]" "query ps"] assms by (simp add: get_params_def params_query)

text \<open>
  The configured backup is the text of the configuration file: reading it escapes its quotes, and the
  backslashes are removed again.
\<close>

theorem config_backup_text:
  assumes "load_config app_json n text = Some cfg" and "J_Load app_json text = Some j"
    and "json_get (json_get j ''chain'') ''backup'' = JString s" and "list_all escape_free s" and "CHR ''%'' \<notin> set s"
  shows "chain_backup (service_config cfg) = s \<and> Chain_backup (Chain_get_instance cfg) = s"
  using assms
  by (auto simp: load_config_def service_config_def Chain_get_instance_def remove_chars_from_string_def app_json_def
      hpp_escape_unmarked escape_unescaped Let_def)

text \<open>The daemon starts only with a configuration file that follows its option.\<close>

theorem daemon_needs_config:
  "main_args argv start_options = Main_Daemon opts \<Longrightarrow> config_given argv (config_file_path opts)"
  using config_file_given [of argv start_options opts] by (simp add: start_options_def)

end
