(* ===== verification/Files.thy ===== *)
theory Files
  imports AppUtils
begin

text \<open>
  The OCALLs on files and on the validation websocket (\<open>src/app/ocalls/OCalls.cpp\<close>) and the removal
  of directories (\<open>src/app/utils/FileUtils.cpp\<close>).  The calls of the operating system and the websocket
  are parameters.  The lemmas show that a created directory is there, that removing a directory
  ends on every file system that bounds the length of paths, and what a failed allocation
  leaves behind.
\<close>

section \<open>The operating system\<close>

datatype file_kind = Regular | Directory | Other_Kind

text \<open>
  \<open>fs_readdir\<close> opens a directory and reads all its entries, with their type, at once; \<open>fs_stat_dir\<close> is
  the bit of the mode that is tested; \<open>fs_open_in\<close> is what a file holds; \<open>fs_write\<close> is the output of an open file, whose failure is only a state of the stream.
\<close>

record 'f files =
  fs_access :: "string \<Rightarrow> 'f \<Rightarrow> bool"
  fs_mkdir :: "string \<Rightarrow> 'f \<Rightarrow> bool \<times> 'f"
  fs_rename :: "string \<Rightarrow> string \<Rightarrow> 'f \<Rightarrow> bool \<times> 'f"
  fs_open_out :: "string \<Rightarrow> 'f \<Rightarrow> bool \<times> 'f"
  fs_write :: "string \<Rightarrow> bytes \<Rightarrow> 'f \<Rightarrow> 'f"
  fs_open_in :: "string \<Rightarrow> 'f \<Rightarrow> bytes option"
  fs_stat_dir :: "string \<Rightarrow> 'f \<Rightarrow> bool"
  fs_lstat :: "string \<Rightarrow> 'f \<Rightarrow> file_kind option"
  fs_readdir :: "string \<Rightarrow> 'f \<Rightarrow> (string \<times> nat) list option"
  fs_unlink :: "string \<Rightarrow> 'f \<Rightarrow> bool \<times> 'f"
  fs_rmdir :: "string \<Rightarrow> 'f \<Rightarrow> bool \<times> 'f"

section \<open>Directories\<close>

text \<open>The entries of a directory that are files (type 8) or folders (type 4); no directory ends the process.\<close>

definition entries_of_type :: "nat \<Rightarrow> (string \<times> nat) list \<Rightarrow> string list" where
  "entries_of_type t es = map fst (filter (\<lambda>(name, ty). name \<notin> {''.'', ''..''} \<and> ty = t) es)"

definition get_files_under_path :: "'f files \<Rightarrow> string \<Rightarrow> 'f \<Rightarrow> string list option" where
  "get_files_under_path F path f = map_option (entries_of_type 8) (fs_readdir F path f)"

definition get_folders_under_path :: "'f files \<Rightarrow> string \<Rightarrow> 'f \<Rightarrow> string list option" where
  "get_folders_under_path F path f = map_option (entries_of_type 4) (fs_readdir F path f)"

definition get_sub_folders_and_files :: "'f files \<Rightarrow> string \<Rightarrow> 'f \<Rightarrow> string list" where
  "get_sub_folders_and_files F path f =
     (case fs_readdir F path f of None \<Rightarrow> [] | Some es \<Rightarrow> filter (\<lambda>name. name \<notin> {''.'', ''..''}) (map fst es))"

text \<open>
  Removal of a directory with what is in it.  \<open>fuel\<close> bounds the depth of the recursion; \<open>None\<close> is a
  recursion that is deeper.
\<close>

fun rm_dir :: "'f files \<Rightarrow> nat \<Rightarrow> string \<Rightarrow> 'f \<Rightarrow> (bool \<times> 'f) option"
and rm_entries :: "'f files \<Rightarrow> nat \<Rightarrow> string \<Rightarrow> string list \<Rightarrow> 'f \<Rightarrow> (bool \<times> 'f) option" where
  "rm_dir F 0 dir_full_path f = None"
| "rm_dir F (Suc fuel) dir_full_path f =
     (case fs_readdir F dir_full_path f of
        None \<Rightarrow> Some (False, f)
      | Some es \<Rightarrow>
          (case rm_entries F fuel dir_full_path (map fst es) f of
             None \<Rightarrow> None
           | Some (ok, f) \<Rightarrow> Some (if ok then fs_rmdir F dir_full_path f else (False, f))))"
| "rm_entries F fuel dir_full_path [] f = Some (True, f)"
| "rm_entries F fuel dir_full_path (name # es) f =
     (if name = ''.'' \<or> name = ''..'' then rm_entries F fuel dir_full_path es f
      else let sub_path = dir_full_path @ ''/'' @ name in
        case fs_lstat F sub_path f of
          Some Directory \<Rightarrow>
            (case rm_dir F fuel sub_path f of
               None \<Rightarrow> None
             | Some (ok, f) \<Rightarrow>
                 if ok then rm_entries F fuel dir_full_path es (snd (fs_rmdir F sub_path f)) else Some (False, f))
        | Some Regular \<Rightarrow> rm_entries F fuel dir_full_path es (snd (fs_unlink F sub_path f))
        | _ \<Rightarrow> rm_entries F fuel dir_full_path es f)"

text \<open>
  The fuel is the longest path of Linux and one more (lemma \<open>rm_dir_returns\<close>).  What is neither a file nor a
  directory is left and reported as removed.
\<close>

abbreviation (input) PATH_MAX :: nat where
  "PATH_MAX \<equiv> 4096"

definition rm :: "'f files \<Rightarrow> string \<Rightarrow> 'f \<Rightarrow> (bool \<times> 'f) option" where
  "rm F path f =
     (case fs_lstat F path f of
        None \<Rightarrow> Some (False, f)
      | Some Regular \<Rightarrow> Some (fs_unlink F path f)
      | Some Directory \<Rightarrow> if path = ''.'' \<or> path = ''..'' then Some (False, f) else rm_dir F (Suc PATH_MAX) path f
      | Some Other_Kind \<Rightarrow> Some (True, f))"

section \<open>OCALLs on files\<close>

text \<open>\<open>boost::split\<close> at slashes: adjacent slashes have an empty entry between them.\<close>

fun split_slash :: "string \<Rightarrow> string list" where
  "split_slash [] = [[]]"
| "split_slash (c # cs) =
     (if c = CHR ''/'' then [] # split_slash cs
      else case split_slash cs of [] \<Rightarrow> [[c]] | e # es \<Rightarrow> (c # e) # es)"

fun make_dirs :: "'f files \<Rightarrow> string list \<Rightarrow> string \<Rightarrow> 'f \<Rightarrow> crust_status \<times> 'f" where
  "make_dirs F [] cur_path f = (CRUST_SUCCESS, f)"
| "make_dirs F (entry # entries) cur_path f =
     (if entry = [] then make_dirs F entries cur_path f
      else let cur_path = cur_path @ entry @ ''/'' in
        if fs_access F cur_path f then make_dirs F entries cur_path f
        else case fs_mkdir F cur_path f of (ok, f) \<Rightarrow>
          if ok then make_dirs F entries cur_path f else (CRUST_MKDIR_FAILED, f))"

definition app_create_dir :: "'f files \<Rightarrow> string \<Rightarrow> 'f \<Rightarrow> crust_status \<times> 'f" where
  "app_create_dir F path f =
     make_dirs F (split_slash path) (if path \<noteq> [] \<and> hd path = CHR ''/'' then ''/'' else []) f"

text \<open>A path is renamed when all its entries but the last stay.\<close>

fun rename_entries :: "'f files \<Rightarrow> string \<Rightarrow> string \<Rightarrow> (string \<times> string) list \<Rightarrow> 'f \<Rightarrow> crust_status \<times> 'f" where
  "rename_entries F old_path new_path [] f = (CRUST_SUCCESS, f)"
| "rename_entries F old_path new_path [_] f =
     (case fs_rename F old_path new_path f of (ok, f) \<Rightarrow> (if ok then CRUST_SUCCESS else CRUST_RENAME_FILE_FAILED, f))"
| "rename_entries F old_path new_path ((a, b) # e # es) f =
     (if a \<noteq> b then (CRUST_RENAME_FILE_FAILED, f) else rename_entries F old_path new_path (e # es) f)"

definition app_rename_dir :: "'f files \<Rightarrow> string \<Rightarrow> string \<Rightarrow> 'f \<Rightarrow> crust_status \<times> 'f" where
  "app_rename_dir F old_path new_path f =
     (if \<not> fs_access F old_path f then (CRUST_RENAME_FILE_FAILED, f)
      else if length (split_slash old_path) \<noteq> length (split_slash new_path) then (CRUST_RENAME_FILE_FAILED, f)
      else rename_entries F old_path new_path (zip (split_slash old_path) (split_slash new_path)) f)"

definition app_save_file :: "'f files \<Rightarrow> string \<Rightarrow> bytes \<Rightarrow> 'f \<Rightarrow> crust_status \<times> 'f" where
  "app_save_file F file_path data f =
     (case fs_open_out F file_path f of (ok, f) \<Rightarrow>
        if \<not> ok then (CRUST_OPEN_FILE_FAILED, f) else (CRUST_SUCCESS, fs_write F file_path data f))"

definition app_get_folders_number_under_path :: "'f files \<Rightarrow> string \<Rightarrow> 'f \<Rightarrow> nat option" where
  "app_get_folders_number_under_path F path f =
     (if fs_access F path f then map_option length (get_folders_under_path F path f) else Some 0)"

definition app_delete_folder_or_file :: "'f files \<Rightarrow> string \<Rightarrow> 'f \<Rightarrow> (crust_status \<times> 'f) option" where
  "app_delete_folder_or_file F path f =
     (if fs_access F path f
      then map_option (\<lambda>(ok, f). (if ok then CRUST_SUCCESS else CRUST_DELETE_FILE_FAILED, f)) (rm F path f)
      else Some (CRUST_SUCCESS, f))"

definition app_replace_file :: "'f files \<Rightarrow> string \<Rightarrow> string \<Rightarrow> bytes \<Rightarrow> 'f \<Rightarrow> (crust_status \<times> 'f) option" where
  "app_replace_file F old_path new_path data f =
     (case app_save_file F new_path data f of (status, f) \<Rightarrow>
        if status \<noteq> CRUST_SUCCESS then Some (status, f) else app_delete_folder_or_file F old_path f)"

text \<open>
  A file is read into a buffer that is kept and grows in steps of 1 KiB.  A failed allocation leaves a null
  pointer, but the new size.  \<open>None\<close> is a write through the null pointer.
\<close>

record file_buffer =
  buf_null :: bool
  buf_size :: nat

definition kib :: "nat \<Rightarrow> nat" where
  "kib len = 1024 * (len div 1024) + (if len mod 1024 \<noteq> 0 then 1024 else 0)"

definition app_get_file ::
  "'f files \<Rightarrow> (nat \<Rightarrow> bool) \<Rightarrow> string \<Rightarrow> 'f \<Rightarrow> file_buffer \<Rightarrow> ((crust_status \<times> bytes) \<times> file_buffer) option" where
  "app_get_file F mem file_path f b =
     (if \<not> fs_access F file_path f then Some ((CRUST_ACCESS_FILE_FAILED, []), b)
      else if fs_stat_dir F file_path f then Some ((CRUST_OPEN_FILE_FAILED, []), b)
      else case fs_open_in F file_path f of
        None \<Rightarrow> Some ((CRUST_OPEN_FILE_FAILED, []), b)
      | Some content \<Rightarrow>
          let len = length content in
          if buf_size b < len
          then (if mem (kib len) then Some ((CRUST_SUCCESS, content), \<lparr>buf_null = False, buf_size = kib len\<rparr>)
                else Some ((CRUST_MALLOC_FAILED, []), \<lparr>buf_null = True, buf_size = kib len\<rparr>))
          else if buf_null b \<and> 0 < len then None
          else Some ((CRUST_SUCCESS, content), b))"

text \<open>The same for stored files, with a buffer of their own.\<close>

definition app_get_storage_file ::
  "'f files \<Rightarrow> (nat \<Rightarrow> bool) \<Rightarrow> string \<Rightarrow> 'f \<Rightarrow> file_buffer \<Rightarrow> ((crust_status \<times> bytes) \<times> file_buffer) option" where
  "app_get_storage_file F mem file_path f b = app_get_file F mem file_path f b"

section \<open>OCALLs of the validation\<close>

record 'w websocket =
  websocket_init :: "string \<Rightarrow> string \<Rightarrow> string \<Rightarrow> 'w \<Rightarrow> bool \<times> 'w"
  websocket_request :: "string \<Rightarrow> 'w \<Rightarrow> (bool \<times> string) \<times> 'w"
  websocket_close :: "'w \<Rightarrow> 'w"

text \<open>The state between the calls: whether there is a client, and the buffer of sealed data.\<close>

record validation =
  wssclient :: bool
  sealed_buf :: file_buffer

definition app_validate_init ::
  "json_hpp \<Rightarrow> 'w websocket \<Rightarrow> Config \<Rightarrow> validation \<Rightarrow> 'w \<Rightarrow> ((crust_status \<times> validation) \<times> 'w) option" where
  "app_validate_init J W cfg s w =
     (let s = s\<lparr>wssclient := True\<rparr>; u = get_url_end_point (cfg_karst_url cfg) in
      case websocket_init W (ip u) (to_string_int (url_port u)) (url_path u) w of (ok, w) \<Rightarrow>
        if \<not> ok then Some ((CRUST_VALIDATE_INIT_WSS_FAILED, s), w)
        else
          let backup_json = json_set (json_set JNull ''backup'' (JString (cfg_chain_backup cfg))) ''password'' (JString (cfg_chain_password cfg)) in
          case websocket_request W (J_dump J backup_json) w of ((ok, res), w) \<Rightarrow>
            if \<not> ok then Some ((CRUST_VALIDATE_KARST_OFFLINE, s), w)
            else do {
              res_json \<leftarrow> J_Load J res;
              Some ((if ToInt (json_get res_json ''status'') \<noteq> 200 then CRUST_VALIDATE_WSS_REQUEST_FAILED else CRUST_SUCCESS, s), w)
            })"

definition app_validate_get_file ::
  "json_hpp \<Rightarrow> 'w websocket \<Rightarrow> (nat \<Rightarrow> bool) \<Rightarrow> string \<Rightarrow> string \<Rightarrow> validation \<Rightarrow> 'w
     \<Rightarrow> (((crust_status \<times> string) \<times> validation) \<times> 'w) option" where
  "app_validate_get_file J W mem root_hash leaf_hash s w =
     (case string_find leaf_hash ''_'' 0 of
        None \<Rightarrow> Some (((CRUST_INVALID_MERKLETREE, []), s), w)
      | Some spos \<Rightarrow>
          if \<not> wssclient s then None
          else
            let req_json = json_set (json_set (json_set JNull ''file_hash'' (JString root_hash))
                  ''node_hash'' (JString (drop (spos + 1) leaf_hash))) ''node_index'' (JIntegral (atoi (take spos leaf_hash))) in
            case websocket_request W (J_dump J req_json) w of ((ok, res), w) \<Rightarrow>
              if \<not> ok then Some (((CRUST_VALIDATE_WSS_REQUEST_FAILED, []), s), w)
              else if buf_size (sealed_buf s) < length res
              then (if mem (length res) then Some (((CRUST_SUCCESS, res), s\<lparr>sealed_buf := \<lparr>buf_null = False, buf_size = length res\<rparr>\<rparr>), w)
                    else Some (((CRUST_MALLOC_FAILED, []), s\<lparr>sealed_buf := \<lparr>buf_null = True, buf_size = buf_size (sealed_buf s)\<rparr>\<rparr>), w))
              else if buf_null (sealed_buf s) \<and> 0 < buf_size (sealed_buf s) then None
              else Some (((CRUST_SUCCESS, res), s), w))"

definition app_validate_close :: "'w websocket \<Rightarrow> validation \<Rightarrow> 'w \<Rightarrow> validation \<times> 'w" where
  "app_validate_close W s w =
     (\<lparr>wssclient = False,
       sealed_buf = (if buf_null (sealed_buf s) then sealed_buf s else \<lparr>buf_null = True, buf_size = 0\<rparr>)\<rparr>,
      if wssclient s then websocket_close W w else w)"

section \<open>Lemmas\<close>

lemma kib_ge: "n \<le> kib n"
proof -
  have "n = 1024 * (n div 1024) + n mod 1024" "n mod 1024 < 1024" by simp_all
  then show ?thesis unfolding kib_def by (split if_split) linarith
qed

lemma split_slash_not_Nil [simp]: "split_slash s \<noteq> []"
  by (cases s) (simp_all split: list.split)

text \<open>What POSIX says of \<open>mkdir\<close>: a created directory is accessible, and others stay so.\<close>

definition mkdir_ok :: "'f files \<Rightarrow> bool" where
  "mkdir_ok F \<longleftrightarrow> (\<forall>path f f'. fs_mkdir F path f = (True, f') \<longrightarrow>
     fs_access F path f' \<and> (\<forall>p. fs_access F p f \<longrightarrow> fs_access F p f'))"

text \<open>The directories on the way to a path.\<close>

fun dirs_on_way :: "string list \<Rightarrow> string \<Rightarrow> string set" where
  "dirs_on_way [] cur = {}"
| "dirs_on_way (e # es) cur = (if e = [] then dirs_on_way es cur else insert (cur @ e @ ''/'') (dirs_on_way es (cur @ e @ ''/'')))"

lemma make_dirs_keeps: "mkdir_ok F \<Longrightarrow> make_dirs F es cur f = (CRUST_SUCCESS, f') \<Longrightarrow> fs_access F p f \<Longrightarrow> fs_access F p f'"
proof (induction F es cur f rule: make_dirs.induct)
  case (2 F e es cur f)
  then show ?case by (auto simp: Let_def mkdir_ok_def split: if_splits prod.splits)
qed simp

lemma make_dirs_makes:
  "mkdir_ok F \<Longrightarrow> make_dirs F es cur f = (CRUST_SUCCESS, f') \<Longrightarrow> p \<in> dirs_on_way es cur \<Longrightarrow> fs_access F p f'"
proof (induction F es cur f rule: make_dirs.induct)
  case (2 F e es cur f)
  then show ?case
    by (auto simp: Let_def split: if_splits prod.splits intro: make_dirs_keeps) (auto simp: mkdir_ok_def intro: make_dirs_keeps)
qed simp

text \<open>
  Linux refuses paths that are too long.  Every level of a directory makes the path longer, so the
  recursion is never deeper than the longest path.
\<close>

definition bounded_paths :: "'f files \<Rightarrow> bool" where
  "bounded_paths F \<longleftrightarrow> (\<forall>path f. PATH_MAX \<le> length path \<longrightarrow> fs_readdir F path f = None)"

lemma rm_ends:
  fixes F :: "'f files"
  assumes "bounded_paths F"
  shows "PATH_MAX < fuel + length path \<Longrightarrow> 0 < fuel \<Longrightarrow> rm_dir F fuel path f \<noteq> None"
    and "PATH_MAX \<le> fuel + length path \<Longrightarrow> 0 < fuel \<Longrightarrow> rm_entries F fuel path es f \<noteq> None"
  using assms
proof (induction F fuel path f and F fuel path es f rule: rm_dir_rm_entries.induct)
  case (2 F fuel path f)
  show ?case
  proof (cases "fs_readdir F path f")
    case (Some es)
    then have "length path < PATH_MAX" using "2.prems"(3) by (metis bounded_paths_def not_le_imp_less option.distinct(1))
    then show ?thesis using "2.IH" [OF Some] "2.prems" Some by (auto split: option.split)
  qed simp
next
  case (4 F fuel path name es f)
  let ?sub = "path @ ''/'' @ name"
  show ?case
  proof (cases "name \<noteq> ''.'' \<and> name \<noteq> ''..'' \<and> fs_lstat F ?sub f = Some Directory")
    case True
    then have "rm_dir F fuel ?sub f \<noteq> None" using "4.IH"(4) [OF _ refl] "4.prems" by simp
    then obtain ok f1 where "rm_dir F fuel ?sub f = Some (ok, f1)" by auto
    with True show ?thesis using "4.IH"(5) [OF _ refl _ refl _ refl] "4.prems" by (cases ok) simp_all
  next
    case False
    then show ?thesis using "4.IH"(1-3,6-) "4.prems" by (auto simp: Let_def split: option.split file_kind.split)
  qed
qed simp_all

section \<open>Properties\<close>

text \<open>
  Removing a file or a directory always returns: on a file system that refuses paths of
  \<open>PATH_MAX\<close> characters, as Linux does, the recursion over the directories below ends,
  whatever the directories hold and however they change meanwhile.
\<close>

theorem rm_returns:
  assumes "bounded_paths F"
  shows "(\<exists>ok f'. rm F path f = Some (ok, f')) \<and>
    (\<exists>status f'. app_delete_folder_or_file F path f = Some (status, f')) \<and>
    (\<exists>status f'. app_replace_file F path path' data f = Some (status, f'))"
proof -
  have rm: "\<exists>ok f'. rm F path f = Some (ok, f')" for f
    using rm_ends(1) [OF assms, of "Suc PATH_MAX" path f] by (auto simp: rm_def split: option.split file_kind.split)
  have del: "\<exists>status f'. app_delete_folder_or_file F path f = Some (status, f')" for f
    using rm [of f] by (auto simp: app_delete_folder_or_file_def)
  obtain status f1 where "app_save_file F path' data f = (status, f1)" by fastforce
  then have "\<exists>status f'. app_replace_file F path path' data f = Some (status, f')"
    using del [of f1] by (simp add: app_replace_file_def)
  with rm del show ?thesis by blast
qed

text \<open>A file system with one directory that holds itself, under ever longer names.\<close>

definition demo_files :: "unit files" where
  "demo_files = \<lparr>fs_access = (\<lambda>_ _. True), fs_mkdir = (\<lambda>_ _. (False, ())), fs_rename = (\<lambda>_ _ _. (False, ())),
     fs_open_out = (\<lambda>_ _. (True, ())), fs_write = (\<lambda>_ _ _. ()), fs_open_in = (\<lambda>_ _. None), fs_stat_dir = (\<lambda>_ _. True),
     fs_lstat = (\<lambda>_ _. Some Directory), fs_readdir = (\<lambda>path _. if PATH_MAX \<le> length path then None else Some [(''d'', 4)]),
     fs_unlink = (\<lambda>_ _. (False, ())), fs_rmdir = (\<lambda>_ _. (True, ()))\<rparr>"

theorem rm_returns_witness: "\<exists>ok f'. rm demo_files ''/a'' () = Some (ok, f')"
proof -
  have "bounded_paths demo_files" by (simp add: bounded_paths_def demo_files_def)
  from rm_returns [OF this, of "''/a''" "()"] show ?thesis by simp
qed

text \<open>A created directory is there, with every directory on the way to it.\<close>

theorem created_dir_exists:
  assumes "mkdir_ok F" and "app_create_dir F path f = (CRUST_SUCCESS, f')"
    and "p \<in> dirs_on_way (split_slash path) (if path \<noteq> [] \<and> hd path = CHR ''/'' then ''/'' else [])"
  shows "fs_access F p f'"
  using assms unfolding app_create_dir_def by (intro make_dirs_makes)

text \<open>
  Reading a file gives all it holds.  But after an allocation that failed, reading a smaller file writes
  through a null pointer, because the size of the buffer was already changed.
\<close>

theorem read_after_failed_allocation:
  assumes "fs_access F p f" and "\<not> fs_stat_dir F p f" and "fs_open_in F p f = Some big" and "buf_size b < length big"
    and "\<not> mem (kib (length big))"
    and "fs_access F q f" and "\<not> fs_stat_dir F q f" and "fs_open_in F q f = Some small" and "small \<noteq> []" and "length small \<le> length big"
  shows "\<exists>b'. app_get_file F mem p f b = Some ((CRUST_MALLOC_FAILED, []), b') \<and> app_get_file F mem' q f b' = None"
proof -
  have "length small \<le> kib (length big)" using assms(10) kib_ge [of "length big"] by linarith
  then show ?thesis using assms by (simp add: app_get_file_def Let_def)
qed

end
