(* ===== verification/Spec2Isabelle.thy ===== *)
theory Spec2Isabelle
  imports Restart Upgrade Files
begin

text \<open>
  \<^bold>\<open>The Crust sWorker: a verification development.\<close>

  \<^bold>\<open>The program.\<close>  A storage node of the Crust network proves to the chain how much space it offers
  and which files it keeps.  The proof is made by an SGX enclave (\<open>src/src/enclave\<close>), which keeps the
  \<^emph>\<open>workload\<close>: random data on the disks of the node (srd) and sealed files, each with its hashes and
  its status.  A main loop validates samples of both and carries out ordered changes of the random
  data; once per era the enclave signs a work report.  The application around it (\<open>src/src/app\<close>) is not
  trusted: it answers the OCALLs of the enclave (database, files, chain), admits ECALLs to it, serves
  requests over HTTP, shares changes of the random data out among the disks, and replaces a running
  version by a new one, whose enclave takes the workload over.  In the model the enclave is a function on
  a state, the host and the SGX runtime are parameters, and the application is a state around the
  enclave's.

  \<^bold>\<open>Theories and sources.\<close>  Paths are below \<open>src/src/\<close>.
  \<^item> \<open>Prelude\<close>: machine types, decimal text, ordered maps and sets (\<open>std::map\<close>, \<open>std::set\<close>) and their
    interface \<open>dictionary\<close>, generic lemmas.  \<open>Parameters\<close>: \<open>enclave/include/Parameter.h\<close> and
    \<open>CrustStatus.h\<close>.  \<open>EUtils\<close>: \<open>enclave/utils/EUtils.cpp\<close> and \<open>PathHelper.cpp\<close>.  \<open>EJson\<close>, \<open>JsonText\<close>:
    \<open>enclave/utils/EJson.h\<close>.  \<open>Env\<close>: the OCALLs and the SGX runtime as records of functions.
  \<^item> \<open>Schedule\<close>: \<open>enclave/schedule\<close>.  \<open>Workload\<close>: \<open>enclave/workload\<close>.  \<open>Persistence\<close>, \<open>DataBase\<close>:
    \<open>enclave/persistence/Persistence.cpp\<close>, \<open>app/database/DataBase.cpp\<close> and the OCALLs between them.
    \<open>EnclaveState\<close>: the state of the enclave as a record of the workload, the global variables and the
    host.
  \<^item> \<open>Report\<close>: \<open>enclave/report/Report.cpp\<close>.  \<open>Srd\<close>: \<open>enclave/srd/Srd.cpp\<close>.  \<open>Merkle\<close>: the Merkle tree functions of
    \<open>EUtils.cpp\<close>.  \<open>Storage\<close>: \<open>enclave/storage/Storage.cpp\<close>.  \<open>Validator\<close>: \<open>enclave/validator/Validator.cpp\<close>.
    \<open>Identity\<close>, \<open>Attestation\<close>, \<open>Metadata\<close>, \<open>Restart\<close>: \<open>enclave/identity/Identity.cpp\<close>.
    \<open>Enclave\<close>: \<open>enclave/Enclave.cpp\<close>, every ECALL, and the runs of the enclave.
  \<^item> \<open>Admission\<close>, \<open>ECalls\<close>: \<open>app/ecalls/ECalls.cpp\<close>.  \<open>AppSrd\<close>: \<open>app/process/Srd.cpp\<close> with parts of
    \<open>FileUtils.cpp\<close> and \<open>Config.cpp\<close>.  \<open>Worker\<close>: \<open>app/process/EnclaveData.cpp\<close> and the OCALLs of
    \<open>app/ocalls/OCalls.cpp\<close> that write to it.  \<open>Api\<close>: \<open>app/http/ApiHandler.h\<close> and \<open>app/process/Storage.cpp\<close>.
    \<open>Process\<close>: \<open>app/process/Process.cpp\<close> and \<open>WorkReport.cpp\<close>.  \<open>Upgrade\<close>: runs of the application.
    \<open>Network\<close>: \<open>app/chain/Chain.cpp\<close>, \<open>app/process/EntryNetwork.cpp\<close> and the OCALLs to the chain.
  \<^item> \<open>AppJson\<close>: \<open>app/utils/Json.hpp\<close>.  \<open>AppUtils\<close>: \<open>app/config/Config.cpp\<close>, the command line of
    \<open>app/App.cpp\<close>, addresses of \<open>app/utils/Common.cpp\<close>, parameters of requests in \<open>app/http/ApiHandler.cpp\<close>.
    \<open>Files\<close>: \<open>app/utils/FileUtils.cpp\<close> and the OCALLs on files and on the validation websocket.
  Definitions have the names of the functions they model; a part of a function (a loop, an error
  table) has a name of its own, and \<open>PROJECT.json\<close> maps every definition to its lines.

  \<^bold>\<open>What is shown.\<close>
  \<^item> Data: the hexadecimal text, the printed JSON and the stored records read back to what was written
    (\<open>EUtils\<close>, \<open>JsonText\<close>, \<open>DataBase\<close>), in the application too, line breaks and escapes included
    (\<open>AppJson\<close>), where the lists of keys in the database are sets of names and an address is taken apart into
    its parts (\<open>AppUtils\<close>); both parsers end on every input (\<open>EJson\<close>, \<open>AppJson\<close>); the estimated size of the
    metadata is enough, and a restart gives the workload back (\<open>Metadata\<close>, \<open>Restart\<close>).
  \<^item> Workload: the statistics of the files agree with the entries and every operation keeps this
    (\<open>Workload\<close>, \<open>Storage\<close>, \<open>Validator\<close>, through the interface \<open>ledger\<close>); a sealed tree is valid and
    names the sealed blocks; only what was sealed with the private key of the enclave is
    unsealed; both validations of Merkle trees agree with a reference definition, which determines
    the leaves from the root.
  \<^item> Reports: what is signed covers exactly the files and the random data the chain will
    know, at most one report is made per era, and the application asks for at most one per era;
    failed validation is punished by the factor of the code.
  \<^item> Enclave: the invariant of the workload holds in every reachable state, and there every request
    for a report is answered.  Every run of the application through the wrappers is a run of the
    enclave (\<open>ECalls\<close>), the callback of the main loop included (\<open>AppSrd\<close>).
  \<^item> Admission: a bound of the threads inside the enclave, exactness of the counters, and when
    a call returns; and two ways in which nested or waiting calls break the intended limits.
  \<^item> Identity and upgrade: the identity is uploaded only after the certificates, the signature and the
    report of the attestation service have been verified, and entry into the network succeeds only with an answer of
    the service to a quote of the enclave's own report (\<open>Network\<close>); foreign data is taken over only with a valid signature; what the
    old version hands out is the signed text of its workload; the new version counts a takeover as done only when its
    enclave accepted the complete data; the upgrade states of the application and of the
    enclave agree in every run; a request without the backup changes nothing.
  \<^item> Environment: waiting for the chain ends when the chain gets ready (\<open>Network\<close>); removing a directory ends
    on every file system that bounds the length of paths, and a created directory is there (\<open>Files\<close>).
  Theorems that show what the code gets wrong say so in their text; \<open>PROJECT.json\<close> lists them as findings.

  \<^bold>\<open>Conventions.\<close>  A function that may throw, abort, run past a buffer or not return has an optional
  result, and \<^term>\<open>None\<close> stands for that.  Status codes are values of \<open>crust_status\<close> and
  \<open>sgx_status\<close>.  Heights are 64-bit words and their differences wrap around; narrowing casts are
  written out.  Loops are recursive functions; the parsers have the fuel \<open>2 * length + 4\<close>, and it is proved that
  this is enough for every input; the removal of directories has the longest path of Linux as its fuel, which is
  proved to be enough.  Loops that may not end are \<open>partial_function\<close>s: searching and replacing in a text,
  waiting for admission, sharing among the disks, waiting for the chain and drawing the nonce; that they
  return is proved where the code makes sure of it.  The main loop and the loops of the application are
  modelled by their turns.

  \<^bold>\<open>What the model leaves open.\<close>  Whether an allocation succeeds is a function of its size and of
  the number of the attempt.  Random numbers, sealing, signatures, SHA-256, OpenSSL, leveldb, the
  operating system, HTTP and websocket requests, the quoting enclave and the answers of the chain and of other
  processes are parameters; so is the JSON library in the components of the application, whose
  results do not depend on it (\<open>AppJson\<close> has its functions); what a theorem needs of them is a named hypothesis with a witness.  Floating-point
  numbers of the JSON values and the validation rates are rationals.  Where the enclave releases a
  mutex, a parameter \<open>yld\<close> stands for what other threads do; where it calls back through the host,
  \<open>cb\<close>.  Each access to the admission counters is atomic, and so are the locked sections.  Tasks of
  a thread pool run in the order of their list.  In the runs of the application (\<open>Upgrade\<close>) a request or
  a turn of a loop is one step, and other threads may change anything in the enclave but its upgrade status.

  \<^bold>\<open>Not modelled.\<close>  Logging, \<open>SafeLock\<close> and the printing of thread tables; the web server and
  the clients for HTTP and websockets (Boost), the IPFS and log clients, which only do
  input and output; the vendored thread pool \<open>Ctpl.h\<close>; the functions of \<open>Common.cpp\<close> that nothing
  uses; the opening of the database and the restart of dead threads in \<open>process_run\<close>.
\<close>

end
